(* ===== verification/Prelude.thy ===== *)
theory Prelude
  imports Main "HOL-Library.Word" "HOL-Library.Monad_Syntax"
begin

text \<open>
  Shared vocabulary of the MonkeyOS development.

  \<^item> The kernel is built in release mode, so \<open>usize\<close> arithmetic wraps silently at
    64 bits; indexing, slicing, \<open>unwrap\<close>, \<open>expect\<close> and \<open>assert!\<close> panic.  A \<open>usize\<close> is a
    natural number below \<open>2 ^ 64\<close>, and the operators whose wrap-around can matter are
    \<open>wadd\<close>, \<open>wsub\<close> and \<open>wmul\<close>.  Bit masks, bitmaps and flag sets are \<open>64 word\<close>.
  \<^item> A function that may panic but has no error value returns \<open>'a run\<close>, where \<open>None\<close> is
    the panic.  A function of type \<open>Result<T, Errno>\<close> (\<open>VfsResult\<close>, \<open>SysResult\<close>) returns
    \<open>'a res\<close>, with the error codes of the \<open>syscalls\<close> crate as \<open>errno\<close>.
  \<^item> Mutexes and reference counts are erased: an operation takes the state it locks and
    returns it updated.

  The collections \<open>usize_simps\<close> (wrap-around operators below the bound) and
  \<open>run_simps\<close> (panic and error plumbing) carry the component proofs.
\<close>

named_theorems usize_simps \<open>wrap-around arithmetic inside its bounds\<close>
named_theorems run_simps \<open>panic and error plumbing\<close>

type_synonym usize = nat
type_synonym u8 = "8 word"
type_synonym u64 = "64 word"
type_synonym 'a run = "'a option"

datatype errno = EPERM | ENOENT | ESRCH | EINTR | EIO | E2BIG | EBADF | ECHILD | EAGAIN
  | ENOMEM | EACCES | EFAULT | EEXIST | ENOTDIR | EISDIR | EINVAL | EMFILE | ENOTTY
  | ENFILE | EALREADY | EFBIG | ENOSPC | ESPIPE | EPIPE | ERANGE | ENOSYS | ENOTEMPTY | ENOMSG | EIDRM
  | EWOULDBLOCK | ETIMEDOUT | EAFNOSUPPORT | ENOTSOCK | EOPNOTSUPP

datatype 'a res = Ok 'a | Err errno | Panic

abbreviation PAGE_SIZE :: usize where "PAGE_SIZE \<equiv> 4096"

definition wadd :: "usize \<Rightarrow> usize \<Rightarrow> usize" where
  "wadd a b = (a + b) mod 2 ^ 64"

definition wsub :: "usize \<Rightarrow> usize \<Rightarrow> usize" where
  "wsub a b = (a + 2 ^ 64 - b) mod 2 ^ 64"

definition wmul :: "usize \<Rightarrow> usize \<Rightarrow> usize" where
  "wmul a b = (a * b) mod 2 ^ 64"

definition div_ceil :: "usize \<Rightarrow> usize \<Rightarrow> usize" where
  "div_ceil a b = (if a mod b > 0 then a div b + 1 else a div b)"

primrec res_bind :: "'a res \<Rightarrow> ('a \<Rightarrow> 'b res) \<Rightarrow> 'b res" where
  "res_bind (Ok x) f = f x"
| "res_bind (Err e) f = Err e"
| "res_bind Panic f = Panic"

text \<open>The \<open>?\<close> operator of code that changes a state before it fails: the state of the failing
  step is kept.  \<open>of_run\<close> turns a panic of a state-changing call into a result.\<close>

fun sbind :: "'s \<times> 'a res \<Rightarrow> ('s \<Rightarrow> 'a \<Rightarrow> 's \<times> 'b res) \<Rightarrow> 's \<times> 'b res" where
  "sbind (s, Ok x) f = f s x"
| "sbind (s, Err e) f = (s, Err e)"
| "sbind (s, Panic) f = (s, Panic)"

definition of_run :: "'s \<Rightarrow> ('s \<times> 'a res) run \<Rightarrow> 's \<times> 'a res" where
  "of_run s m = (case m of None \<Rightarrow> (s, Panic) | Some x \<Rightarrow> x)"

text \<open>Indexing a vector, which panics out of range.\<close>

definition vec_get :: "'a list \<Rightarrow> usize \<Rightarrow> 'a run" where
  "vec_get xs i = (if i < length xs then Some (xs ! i) else None)"

text \<open>\<open>slice_set xs off ys\<close> is \<open>xs[off..off + ys.len()].copy_from_slice(ys)\<close> with the range
  inside \<open>xs\<close>.\<close>

definition slice_set :: "'a list \<Rightarrow> nat \<Rightarrow> 'a list \<Rightarrow> 'a list" where
  "slice_set xs off ys = take off xs @ ys @ drop (off + length ys) xs"

section \<open>Wrap-around arithmetic\<close>

lemma wadd_exact [usize_simps]: "a + b < 2 ^ 64 \<Longrightarrow> wadd a b = a + b"
  by (simp add: wadd_def)

lemma wsub_exact [usize_simps]: "b \<le> a \<Longrightarrow> a < 2 ^ 64 \<Longrightarrow> wsub a b = a - b"
  by (simp add: wsub_def mod_if)

lemma wsub_underflow: "a < b \<Longrightarrow> b \<le> 2 ^ 64 \<Longrightarrow> wsub a b = 2 ^ 64 - (b - a)"
  by (simp add: wsub_def)

lemma wmul_exact [usize_simps]: "a * b < 2 ^ 64 \<Longrightarrow> wmul a b = a * b"
  by (simp add: wmul_def)

lemma wadd_less [simp]: "wadd a b < 2 ^ 64"
  by (simp add: wadd_def)

lemma wsub_less [simp]: "wsub a b < 2 ^ 64"
  by (simp add: wsub_def)

lemma wmul_less [simp]: "wmul a b < 2 ^ 64"
  by (simp add: wmul_def)

lemma unat_u64_of_nat [usize_simps]: "n < 2 ^ 64 \<Longrightarrow> unat (word_of_nat n :: u64) = n"
  by (simp add: unat_of_nat)

lemma wsub_wadd_cancel: "a < 2 ^ 64 \<Longrightarrow> b < 2 ^ 64 \<Longrightarrow> wsub (wadd a b) b = a"
  by (auto simp: wadd_def wsub_def mod_if)

lemma div_ceil_mult: "b > 0 \<Longrightarrow> a \<le> div_ceil a b * b"
  by (auto simp: div_ceil_def)
    (metis mod_less_divisor add.commute mult.commute mult_div_mod_eq nat_add_left_cancel_le less_imp_le)

lemma div_ceil_least: "b > 0 \<Longrightarrow> div_ceil a b * b < a + b"
  by (auto simp: div_ceil_def)
    (metis add.commute add_less_cancel_left div_mod_decomp less_add_same_cancel1 mult.commute)+

lemma div_ceil_le_iff: "b > 0 \<Longrightarrow> div_ceil a b \<le> c \<longleftrightarrow> a \<le> c * b"
proof
  assume "b > 0" "div_ceil a b \<le> c"
  then show "a \<le> c * b"
    by (meson div_ceil_mult le_trans mult_le_mono1)
next
  assume b: "b > 0" "a \<le> c * b"
  have "div_ceil a b * b < (c + 1) * b"
    using div_ceil_least [OF b(1), of a] b(2) by simp
  then show "div_ceil a b \<le> c"
    by (simp only: mult_less_cancel2) simp
qed

lemma div_ceil_exact [simp]: "b > 0 \<Longrightarrow> div_ceil (k * b) b = k"
  by (simp add: div_ceil_def)

lemma div_ceil_shift: "b > 0 \<Longrightarrow> div_ceil (k * b + a) b = k + div_ceil a b"
  by (simp add: div_ceil_def)

section \<open>Panics and errors\<close>

lemma res_bind_Ok_iff [run_simps]: "res_bind m f = Ok y \<longleftrightarrow> (\<exists>x. m = Ok x \<and> f x = Ok y)"
  by (cases m) auto

lemma res_bind_not_Panic [run_simps]:
  "res_bind m f \<noteq> Panic \<longleftrightarrow> m \<noteq> Panic \<and> (\<forall>x. m = Ok x \<longrightarrow> f x \<noteq> Panic)"
  by (cases m) auto

lemma res_bind_assoc [run_simps]: "res_bind (res_bind m f) g = res_bind m (\<lambda>x. res_bind (f x) g)"
  by (cases m) auto

lemma bind_Some_iff [run_simps]: "Option.bind m f = Some y \<longleftrightarrow> (\<exists>x. m = Some x \<and> f x = Some y)"
  by (cases m) auto

lemma sbind_Ok_iff [run_simps]:
  "sbind m f = (s', Ok y) \<longleftrightarrow> (\<exists>s x. m = (s, Ok x) \<and> f s x = (s', Ok y))"
  by (cases "(m, f)" rule: sbind.cases) auto

lemma of_run_simps [simp]: "of_run s None = (s, Panic)" "of_run s (Some x) = x"
  by (simp_all add: of_run_def)

section \<open>Lists\<close>

lemma length_slice_set [simp]:
  "off + length ys \<le> length xs \<Longrightarrow> length (slice_set xs off ys) = length xs"
  by (simp add: slice_set_def)

lemma nth_slice_set:
  "off + length ys \<le> length xs \<Longrightarrow> i < length xs \<Longrightarrow>
   slice_set xs off ys ! i = (if off \<le> i \<and> i < off + length ys then ys ! (i - off) else xs ! i)"
  by (auto simp: slice_set_def nth_append min_def)

lemma slice_set_read_back:
  "off + length ys \<le> length xs \<Longrightarrow> take (length ys) (drop off (slice_set xs off ys)) = ys"
  by (simp add: slice_set_def)

lemma slice_set_append:
  "off + length ys + length zs \<le> length xs \<Longrightarrow>
   slice_set (slice_set xs off ys) (off + length ys) zs = slice_set xs off (ys @ zs)"
  by (simp add: slice_set_def ac_simps)

lemma slice_set_Nil [simp]: "slice_set xs off [] = xs"
  by (simp add: slice_set_def)

lemma find_upt_Some:
  "find P [a..<b] = Some i \<longleftrightarrow> a \<le> i \<and> i < b \<and> P i \<and> (\<forall>j. a \<le> j \<and> j < i \<longrightarrow> \<not> P j)"
  (is "?l = ?r")
proof
  assume ?l
  then obtain k where k: "k < b - a" "P (a + k)" "i = a + k" "\<forall>j<k. \<not> P (a + j)"
    by (auto simp: find_Some_iff)
  have "\<not> P j" if "a \<le> j" "j < i" for j
    using that k(3) k(4) [rule_format, of "j - a"] by auto
  with k show ?r by auto
next
  assume ?r
  then show ?l
    by (auto simp: find_Some_iff intro!: exI [of _ "i - a"])
qed

lemma find_upt_None: "find P [a..<b] = None \<longleftrightarrow> (\<forall>i. a \<le> i \<and> i < b \<longrightarrow> \<not> P i)"
  by (auto simp: find_None_iff)

section \<open>Ordered maps\<close>

text \<open>A \<open>BTreeMap<usize, V>\<close> as an association list in ascending order of its keys: insertion, which
  also stands for an update in place, removal, and the largest key.\<close>

type_synonym 'v btree_map = "(usize \<times> 'v) list"

fun bt_insert :: "usize \<Rightarrow> 'v \<Rightarrow> 'v btree_map \<Rightarrow> 'v btree_map" where
  "bt_insert k q [] = [(k, q)]"
| "bt_insert k q ((k', q') # t) =
     (if k < k' then (k, q) # (k', q') # t
      else if k = k' then (k, q) # t
      else (k', q') # bt_insert k q t)"

definition bt_remove :: "usize \<Rightarrow> 'v btree_map \<Rightarrow> 'v btree_map" where
  "bt_remove k t = filter (\<lambda>(k', v). k' \<noteq> k) t"

definition bt_max_key :: "'v btree_map \<Rightarrow> usize \<Rightarrow> usize" where
  "bt_max_key t d = (if t = [] then d else fold max (map fst t) 0)"

definition bt_sorted :: "'v btree_map \<Rightarrow> bool" where
  "bt_sorted t \<longleftrightarrow> sorted_wrt (<) (map fst t)"

lemma set_bt_insert: "set (map fst (bt_insert k q t)) = insert k (set (map fst t))"
  by (induction k q t rule: bt_insert.induct) auto

lemma bt_insert_sorted [simp]: "bt_sorted t \<Longrightarrow> bt_sorted (bt_insert k q t)"
proof (induction k q t rule: bt_insert.induct)
  case (2 k q k' q' t)
  then show ?case using set_bt_insert [of k q t] by (auto simp: bt_sorted_def)
qed (simp add: bt_sorted_def)

lemma map_of_bt_insert [simp]:
  "bt_sorted t \<Longrightarrow> map_of (bt_insert k q t) = (map_of t)(k \<mapsto> q)"
proof (induction k q t rule: bt_insert.induct)
  case (2 k q k' q' t)
  then show ?case by (auto simp: bt_sorted_def fun_eq_iff)
qed auto

lemma bt_remove_sorted [simp]: "bt_sorted t \<Longrightarrow> bt_sorted (bt_remove k t)"
  unfolding bt_sorted_def bt_remove_def by (induction t) auto

lemma map_of_bt_remove [simp]: "map_of (bt_remove k t) = (map_of t)(k := None)"
  unfolding bt_remove_def by (induction t) (auto simp: fun_eq_iff)

lemma bt_sorted_Nil [simp]: "bt_sorted []"
  by (simp add: bt_sorted_def)

lemma bt_sorted_ConsD: "bt_sorted ((k, q) # t) \<Longrightarrow> bt_sorted t \<and> map_of t k = None"
  by (auto simp: bt_sorted_def map_of_eq_None_iff)

lemma bt_sorted_mem: "bt_sorted t \<Longrightarrow> (a, q) \<in> set t \<longleftrightarrow> map_of t a = Some q"
  unfolding bt_sorted_def by (metis map_of_eq_Some_iff strict_sorted_iff)

lemma fold_max_ge: "a \<le> fold max xs (a :: nat)"
  by (induction xs arbitrary: a) (auto intro: order_trans [OF max.cobounded2])

lemma fold_max_mem: "x \<in> set xs \<Longrightarrow> x \<le> fold max xs (a :: nat)"
proof (induction xs arbitrary: a)
  case (Cons y ys)
  then show ?case using order_trans [OF max.cobounded1 fold_max_ge, of y ys a] by auto
qed simp

lemma bt_max_key_fresh: "bt_max_key t d < n \<Longrightarrow> map_of t n = None"
  using fold_max_mem [of n "map fst t" 0]
  by (cases "t = []") (auto simp: bt_max_key_def map_of_eq_None_iff)

end
