(* ===== verification/Frames.thy ===== *)
theory Frames
  imports Prelude
begin

unbundle bit_operations_syntax

text \<open>
  The physical frame allocator, \<open>crates/runtime/src/frame.rs\<close>, with the bit array
  operations of the vendored \<open>bit_field\<close> crate it is written against.

  A region keeps one bit per page frame (set: in use, or beyond the region's end), the
  allocator is a list of regions.  The abstraction of a region is the set of its free
  frame addresses; the lemmas show that every operation acts on that set as a frame
  allocator should, that the free-page count is its cardinality and that no operation
  panics on a well-formed allocator.  \<open>phys\<close> adds the contents of memory: dropping a
  \<open>FrameTracker\<close> zeroes the frame before it is handed back.
\<close>

section \<open>Bit arrays (\<open>bit_field\<close>)\<close>

definition ba_get_bit :: "u64 list \<Rightarrow> usize \<Rightarrow> bool run" where
  "ba_get_bit bs i =
     (if i div 64 < length bs then Some (bit (bs ! (i div 64)) (i mod 64)) else None)"

definition ba_set_bit :: "u64 list \<Rightarrow> usize \<Rightarrow> bool \<Rightarrow> u64 list run" where
  "ba_set_bit bs i v =
     (if i div 64 < length bs
      then Some (bs[i div 64 := (if v then set_bit (i mod 64) (bs ! (i div 64))
                                 else unset_bit (i mod 64) (bs ! (i div 64)))])
      else None)"

text \<open>A \<open>for\<close> loop that sets each bit of a range.\<close>

primrec ba_set_all :: "u64 list \<Rightarrow> usize list \<Rightarrow> u64 list run" where
  "ba_set_all bs [] = Some bs"
| "ba_set_all bs (i # is) = Option.bind (ba_set_bit bs i True) (\<lambda>bs'. ba_set_all bs' is)"

section \<open>Regions (\<open>FrameRegionMap\<close>)\<close>

definition alignup :: "usize \<Rightarrow> usize \<Rightarrow> usize" where
  "alignup a b = wmul (div_ceil a b) b"

definition aligndown :: "usize \<Rightarrow> usize \<Rightarrow> usize" where
  "aligndown a b = wmul (a div b) b"

record frame_region =
  fr_bits :: "u64 list"
  fr_paddr :: usize
  fr_paddr_end :: usize

definition region_new :: "usize \<Rightarrow> usize \<Rightarrow> frame_region run" where
  "region_new start_addr end_addr =
     (let n = wsub end_addr start_addr div PAGE_SIZE;
          bits = replicate (div_ceil n 64) 0
      in map_option (\<lambda>bs. \<lparr>fr_bits = bs, fr_paddr = start_addr, fr_paddr_end = end_addr\<rparr>)
           (ba_set_all bits [n ..< length bits * 64]))"

definition region_free_count :: "frame_region \<Rightarrow> usize" where
  "region_free_count r =
     foldl (\<lambda>sum x. if x = 0 then sum + 64
                    else foldl (\<lambda>s i. s + (if bit x i then 0 else 1)) sum [0 ..< 64])
       0 (fr_bits r)"

definition region_alloc_in_pos :: "frame_region \<Rightarrow> usize \<Rightarrow> (frame_region \<times> usize option) run" where
  "region_alloc_in_pos r index =
     (if index < length (fr_bits r)
      then case find (\<lambda>bit_index. \<not> bit (fr_bits r ! index) bit_index) [0 ..< 64] of
             Some bit_index \<Rightarrow>
               Some (r\<lparr>fr_bits := (fr_bits r)[index := set_bit bit_index (fr_bits r ! index)]\<rparr>,
                     Some (wadd (fr_paddr r) (wmul (index * 64 + bit_index) PAGE_SIZE)))
           | None \<Rightarrow> Some (r, None)
      else None)"

definition region_alloc :: "frame_region \<Rightarrow> (frame_region \<times> usize option) run" where
  "region_alloc r =
     (case find (\<lambda>i. fr_bits r ! i \<noteq> - 1) [0 ..< length (fr_bits r)] of
        Some i \<Rightarrow> region_alloc_in_pos r i
      | None \<Rightarrow> Some (r, None))"

text \<open>The sliding window of \<open>alloc_much\<close>: \<open>cstart\<close> and \<open>ccount\<close> are \<open>consecutive_start\<close> and
  \<open>consecutive_count\<close>; the result is the start of the first window of \<open>pages\<close> free bits.\<close>

function scan_window ::
  "u64 list \<Rightarrow> usize \<Rightarrow> usize \<Rightarrow> usize \<Rightarrow> usize \<Rightarrow> usize \<Rightarrow> usize option run" where
  "scan_window bs pages tot i cstart ccount =
     (if i < tot
      then case ba_get_bit bs i of
             None \<Rightarrow> None
           | Some used \<Rightarrow>
               if used then scan_window bs pages tot (i + 1) (i + 1) 0
               else if pages \<le> ccount + 1 then Some (Some cstart)
               else scan_window bs pages tot (i + 1) cstart (ccount + 1)
      else Some None)"
  by pat_completeness auto
termination
  by (relation "measure (\<lambda>(bs, pages, tot, i, cstart, ccount). tot - i)") auto

declare scan_window.simps [simp del]

text \<open>The fragmentation report that ends a failed request only reads bits the window
  has already read, and logs.\<close>

definition region_alloc_much :: "frame_region \<Rightarrow> usize \<Rightarrow> (frame_region \<times> usize list option) run" where
  "region_alloc_much r pages =
     (let start_ppn = fr_paddr r div PAGE_SIZE;
          end_ppn = fr_paddr_end r div PAGE_SIZE;
          total_pages = wsub end_ppn start_ppn
      in if pages > total_pages then Some (r, None)
         else if pages > region_free_count r then Some (r, None)
         else case scan_window (fr_bits r) pages total_pages 0 0 0 of
                None \<Rightarrow> None
              | Some None \<Rightarrow> Some (r, None)
              | Some (Some c) \<Rightarrow>
                  map_option
                    (\<lambda>bs. (r\<lparr>fr_bits := bs\<rparr>,
                           Some (map (\<lambda>x. wmul (start_ppn + x) PAGE_SIZE) [c ..< c + pages])))
                    (ba_set_all (fr_bits r) [c ..< c + pages]))"

definition region_dealloc :: "frame_region \<Rightarrow> usize \<Rightarrow> frame_region run" where
  "region_dealloc r paddr =
     map_option (\<lambda>bs. r\<lparr>fr_bits := bs\<rparr>)
       (ba_set_bit (fr_bits r) (wsub (paddr div PAGE_SIZE) (fr_paddr r div PAGE_SIZE)) False)"

section \<open>The allocator (\<open>FrameAllocator\<close>)\<close>

type_synonym frame_allocator = "frame_region list"

definition fa_add_memory_region :: "frame_allocator \<Rightarrow> usize \<Rightarrow> usize \<Rightarrow> frame_allocator run" where
  "fa_add_memory_region fa start end = map_option (\<lambda>r. fa @ [r]) (region_new start end)"

definition fa_free_count :: "frame_allocator \<Rightarrow> usize" where
  "fa_free_count fa = foldl (\<lambda>sum x. sum + region_free_count x) 0 fa"

fun fa_alloc :: "frame_allocator \<Rightarrow> (frame_allocator \<times> usize option) run" where
  "fa_alloc [] = Some ([], None)"
| "fa_alloc (r # rs) =
     (case region_alloc r of
        None \<Rightarrow> None
      | Some (r', Some p) \<Rightarrow> Some (r' # rs, Some p)
      | Some (r', None) \<Rightarrow> map_option (\<lambda>(rs', q). (r' # rs', q)) (fa_alloc rs))"

fun fa_alloc_much :: "frame_allocator \<Rightarrow> usize \<Rightarrow> (frame_allocator \<times> usize list option) run" where
  "fa_alloc_much [] pages = Some ([], None)"
| "fa_alloc_much (r # rs) pages =
     (case region_alloc_much r pages of
        None \<Rightarrow> None
      | Some (r', Some ps) \<Rightarrow> Some (r' # rs, Some ps)
      | Some (r', None) \<Rightarrow> map_option (\<lambda>(rs', q). (r' # rs', q)) (fa_alloc_much rs pages))"

fun fa_dealloc :: "frame_allocator \<Rightarrow> usize \<Rightarrow> frame_allocator run" where
  "fa_dealloc [] paddr = Some []"
| "fa_dealloc (r # rs) paddr =
     (if paddr \<ge> fr_paddr r \<and> paddr < fr_paddr_end r
      then map_option (\<lambda>r'. r' # rs) (region_dealloc r paddr)
      else map_option (\<lambda>rs'. r # rs') (fa_dealloc rs paddr))"

text \<open>\<open>add_frame_map\<close> strips the direct-map offset from a boot memory range; the mask is
  \<open>VIRT_ADDR_START\<close> of the riscv64 target.\<close>

definition VIRT_ADDR_START :: u64 where "VIRT_ADDR_START = 0xffffffc000000000"

definition strip_virt :: "usize \<Rightarrow> usize" where
  "strip_virt a = unat (word_of_nat a AND NOT VIRT_ADDR_START)"

definition add_frame_map :: "frame_allocator \<Rightarrow> usize \<Rightarrow> usize \<Rightarrow> frame_allocator run" where
  "add_frame_map fa mm_start mm_end =
     (let mm_start = alignup mm_start PAGE_SIZE;
          mm_end = aligndown mm_end PAGE_SIZE
      in fa_add_memory_region fa (strip_virt mm_start) (strip_virt mm_end))"

section \<open>Frames with their contents\<close>

record phys =
  ph_frames :: frame_allocator
  ph_mem :: "usize \<Rightarrow> u8"

definition frame_alloc :: "phys \<Rightarrow> (phys \<times> usize option) run" where
  "frame_alloc ph = map_option (\<lambda>(fa, p). (ph\<lparr>ph_frames := fa\<rparr>, p)) (fa_alloc (ph_frames ph))"

definition frame_alloc_much :: "phys \<Rightarrow> usize \<Rightarrow> (phys \<times> usize list option) run" where
  "frame_alloc_much ph pages =
     map_option (\<lambda>(fa, p). (ph\<lparr>ph_frames := fa\<rparr>, p)) (fa_alloc_much (ph_frames ph) pages)"

definition frame_clear :: "usize \<Rightarrow> phys \<Rightarrow> phys" where
  "frame_clear p ph = ph\<lparr>ph_mem := (\<lambda>a. if p \<le> a \<and> a < p + PAGE_SIZE then 0 else ph_mem ph a)\<rparr>"

definition frame_drop :: "phys \<Rightarrow> usize \<Rightarrow> phys run" where
  "frame_drop ph p =
     map_option (\<lambda>fa. (frame_clear p ph)\<lparr>ph_frames := fa\<rparr>) (fa_dealloc (ph_frames ph) p)"

definition get_free_pages :: "phys \<Rightarrow> usize" where
  "get_free_pages ph = fa_free_count (ph_frames ph)"

section \<open>Abstraction: the set of free frames\<close>

definition free_bits :: "u64 list \<Rightarrow> nat set" where
  "free_bits bs = {i. i div 64 < length bs \<and> \<not> bit (bs ! (i div 64)) (i mod 64)}"

abbreviation region_pages :: "frame_region \<Rightarrow> nat" where
  "region_pages r \<equiv> (fr_paddr_end r - fr_paddr r) div PAGE_SIZE"

definition region_ok :: "frame_region \<Rightarrow> bool" where
  "region_ok r \<longleftrightarrow>
     fr_paddr r mod PAGE_SIZE = 0 \<and> fr_paddr_end r mod PAGE_SIZE = 0 \<and>
     fr_paddr r \<le> fr_paddr_end r \<and> fr_paddr_end r < 2 ^ 64 \<and>
     length (fr_bits r) = div_ceil (region_pages r) 64 \<and>
     free_bits (fr_bits r) \<subseteq> {..< region_pages r}"

definition region_free :: "frame_region \<Rightarrow> usize set" where
  "region_free r = (\<lambda>i. fr_paddr r + i * PAGE_SIZE) ` free_bits (fr_bits r)"

definition same_extent :: "frame_region \<Rightarrow> frame_region \<Rightarrow> bool" where
  "same_extent r r' \<longleftrightarrow> fr_paddr r' = fr_paddr r \<and> fr_paddr_end r' = fr_paddr_end r
     \<and> length (fr_bits r') = length (fr_bits r)"

fun fa_ok :: "frame_allocator \<Rightarrow> bool" where
  "fa_ok [] \<longleftrightarrow> True"
| "fa_ok (r # rs) \<longleftrightarrow> region_ok r \<and> fa_ok rs \<and>
     (\<forall>q \<in> set rs. fr_paddr_end r \<le> fr_paddr q \<or> fr_paddr_end q \<le> fr_paddr r)"

definition fa_free :: "frame_allocator \<Rightarrow> usize set" where
  "fa_free fa = (\<Union>r \<in> set fa. region_free r)"

section \<open>Bit array lemmas\<close>

lemma free_bits_less: "i \<in> free_bits bs \<Longrightarrow> i < 64 * length bs"
  by (auto simp: free_bits_def)

lemma finite_free_bits [simp]: "finite (free_bits bs)"
  by (rule finite_subset [of _ "{..< 64 * length bs}"]) (auto dest: free_bits_less)

lemma ba_get_bit_free:
  "i < 64 * length bs \<Longrightarrow> ba_get_bit bs i = Some (i \<notin> free_bits bs)"
  by (auto simp: ba_get_bit_def free_bits_def)

lemma free_bits_update:
  assumes "i div 64 < length bs"
  shows "free_bits (bs[i div 64 := set_bit (i mod 64) (bs ! (i div 64))]) = free_bits bs - {i}"
    and "free_bits (bs[i div 64 := unset_bit (i mod 64) (bs ! (i div 64))]) = insert i (free_bits bs)"
proof -
  have *: "j = i" if "j div 64 = i div 64" "j mod 64 = i mod 64" for j
    using that by (metis div_mult_mod_eq)
  show "free_bits (bs[i div 64 := set_bit (i mod 64) (bs ! (i div 64))]) = free_bits bs - {i}"
    using assms * by (auto simp: free_bits_def nth_list_update bit_set_bit_iff)
  show "free_bits (bs[i div 64 := unset_bit (i mod 64) (bs ! (i div 64))]) = insert i (free_bits bs)"
    using assms * by (auto simp: free_bits_def nth_list_update bit_unset_bit_iff)
qed

lemma ba_set_bit_free:
  assumes "i < 64 * length bs"
  shows "\<exists>bs'. ba_set_bit bs i v = Some bs' \<and> length bs' = length bs \<and>
           free_bits bs' = (if v then free_bits bs - {i} else insert i (free_bits bs))"
  using assms free_bits_update [of i bs] by (auto simp: ba_set_bit_def)

lemma ba_set_all_free:
  "\<forall>i \<in> set is. i < 64 * length bs \<Longrightarrow>
   \<exists>bs'. ba_set_all bs is = Some bs' \<and> length bs' = length bs \<and> free_bits bs' = free_bits bs - set is"
proof (induction "is" arbitrary: bs)
  case (Cons i "is")
  then obtain bs1 where bs1: "ba_set_bit bs i True = Some bs1" "length bs1 = length bs"
      "free_bits bs1 = free_bits bs - {i}"
    using ba_set_bit_free [of i bs True] by auto
  with Cons.IH [of bs1] Cons.prems show ?case by auto
qed simp

lemma free_bits_snoc:
  "free_bits (bs @ [x]) = free_bits bs \<union> (\<lambda>i. 64 * length bs + i) ` {i. i < 64 \<and> \<not> bit x i}"
proof (intro set_eqI)
  fix j
  show "j \<in> free_bits (bs @ [x]) \<longleftrightarrow>
        j \<in> free_bits bs \<union> (\<lambda>i. 64 * length bs + i) ` {i. i < 64 \<and> \<not> bit x i}"
  proof (cases "j div 64 < length bs")
    case True
    then show ?thesis by (auto simp: free_bits_def nth_append)
  next
    case False
    then have "j = 64 * length bs + (j - 64 * length bs)" by simp
    then obtain k where k: "j = 64 * length bs + k" by blast
    then show ?thesis by (auto simp: free_bits_def nth_append)
  qed
qed

lemma foldl_clear_bits:
  "foldl (\<lambda>s i. s + (if bit (x :: u64) i then 0 else 1)) acc [0 ..< n] =
   acc + card {i. i < n \<and> \<not> bit x i}"
proof (induction n)
  case (Suc n)
  have "{i. i < Suc n \<and> \<not> bit x i} =
        (if bit x n then {i. i < n \<and> \<not> bit x i} else insert n {i. i < n \<and> \<not> bit x i})"
    by (auto simp: less_Suc_eq)
  with Suc show ?case by simp
qed simp

lemma region_free_count_card: "region_free_count r = card (free_bits (fr_bits r))"
proof -
  have "foldl (\<lambda>sum x. if x = 0 then sum + 64
                    else foldl (\<lambda>s i. s + (if bit (x :: u64) i then 0 else 1)) sum [0 ..< 64]) 0 bs
        = card (free_bits bs)" for bs
  proof (induction bs rule: rev_induct)
    case Nil
    then show ?case by (simp add: free_bits_def)
  next
    case (snoc x bs)
    have "card (free_bits (bs @ [x])) = card (free_bits bs) + card {i. i < 64 \<and> \<not> bit x i}"
      unfolding free_bits_snoc
      by (subst card_Un_disjoint) (auto dest: free_bits_less simp: card_image inj_on_def)
    with snoc show ?case by (simp add: foldl_clear_bits del: upt_rec_numeral)
  qed
  then show ?thesis by (simp add: region_free_count_def)
qed

section \<open>Regions\<close>

lemma region_okD:
  assumes "region_ok r"
  shows "fr_paddr_end r = fr_paddr r + region_pages r * PAGE_SIZE"
    and "fr_paddr_end r div PAGE_SIZE = fr_paddr r div PAGE_SIZE + region_pages r"
    and "region_pages r \<le> 64 * length (fr_bits r)"
proof -
  obtain a b where ab: "fr_paddr r = a * PAGE_SIZE" "fr_paddr_end r = b * PAGE_SIZE"
    using assms by (metis mod_0_imp_dvd dvd_def mult.commute region_ok_def)
  moreover have "a \<le> b"
    using assms ab by (simp add: region_ok_def)
  ultimately show "fr_paddr_end r = fr_paddr r + region_pages r * PAGE_SIZE"
    and "fr_paddr_end r div PAGE_SIZE = fr_paddr r div PAGE_SIZE + region_pages r"
    by (simp_all flip: diff_mult_distrib)
  show "region_pages r \<le> 64 * length (fr_bits r)"
    using assms div_ceil_mult [of 64 "region_pages r"] by (simp add: region_ok_def)
qed

lemma region_free_extent:
  assumes "region_ok r" "p \<in> region_free r"
  shows "fr_paddr r \<le> p" "p + PAGE_SIZE \<le> fr_paddr_end r" "p mod PAGE_SIZE = 0"
proof -
  obtain i where i: "i < region_pages r" "p = fr_paddr r + i * PAGE_SIZE"
    using assms by (auto simp: region_free_def region_ok_def)
  have "(i + 1) * PAGE_SIZE \<le> region_pages r * PAGE_SIZE"
    using i(1) by (intro mult_le_mono1) simp
  with i(2) show "p + PAGE_SIZE \<le> fr_paddr_end r"
    by (subst region_okD(1) [OF assms(1)]) simp
  show "fr_paddr r \<le> p" "p mod PAGE_SIZE = 0"
    using i(2) assms(1) by (auto simp: region_ok_def)
qed

lemma region_free_card: "card (region_free r) = region_free_count r"
  by (simp add: region_free_def region_free_count_card card_image inj_on_def)

lemma finite_region_free [simp]: "finite (region_free r)"
  by (simp add: region_free_def)

lemma region_free_remove:
  "fr_paddr r' = fr_paddr r \<Longrightarrow> free_bits (fr_bits r') = free_bits (fr_bits r) - A \<Longrightarrow>
   region_free r' = region_free r - (\<lambda>i. fr_paddr r + i * PAGE_SIZE) ` A"
  by (simp add: region_free_def image_set_diff inj_def)

lemma region_ok_shrink:
  "region_ok r \<Longrightarrow> same_extent r r' \<Longrightarrow> free_bits (fr_bits r') \<subseteq> free_bits (fr_bits r) \<Longrightarrow>
   region_ok r'"
  by (auto simp: region_ok_def same_extent_def)

lemma word_not_full_iff: "x \<noteq> - 1 \<longleftrightarrow> (\<exists>i<64. \<not> bit (x :: u64) i)"
  using bit_word_eqI [of x "- 1"] by (auto simp: bit_minus_1_iff)

lemma region_new_spec:
  assumes "s mod PAGE_SIZE = 0" "e mod PAGE_SIZE = 0" "s \<le> e" "e < 2 ^ 64"
  shows "\<exists>r. region_new s e = Some r \<and> region_ok r \<and> fr_paddr r = s \<and> fr_paddr_end r = e \<and>
           free_bits (fr_bits r) = {..< (e - s) div PAGE_SIZE}"
proof -
  define n where "n = (e - s) div PAGE_SIZE"
  let ?bits = "replicate (div_ceil n 64) 0 :: u64 list"
  have n: "n \<le> div_ceil n 64 * 64" by (rule div_ceil_mult) simp
  obtain bs where bs: "ba_set_all ?bits [n ..< length ?bits * 64] = Some bs" "length bs = div_ceil n 64"
      "free_bits bs = free_bits ?bits - {n ..< div_ceil n 64 * 64}"
    using ba_set_all_free [of "[n ..< length ?bits * 64]" ?bits] by auto
  have "free_bits ?bits = {..< div_ceil n 64 * 64}"
    by (auto simp: free_bits_def less_mult_imp_div_less)
  then have fb: "free_bits bs = {..< n}"
    unfolding bs(3) using n by (simp add: set_eq_iff) (metis leD leI less_le_trans)
  have "region_new s e = Some \<lparr>fr_bits = bs, fr_paddr = s, fr_paddr_end = e\<rparr>"
    using bs(1) assms by (simp add: region_new_def wsub_exact flip: n_def)
  with fb assms bs(2) show ?thesis
    by (simp add: region_ok_def flip: n_def)
qed

lemma free_word_iff:
  assumes "k < length bs"
  shows "bs ! k \<noteq> - 1 \<longleftrightarrow> (\<exists>i \<in> free_bits bs. i div 64 = k)"
proof
  assume "bs ! k \<noteq> - 1"
  then obtain i where "i < 64" "\<not> bit (bs ! k) i" by (auto simp: word_not_full_iff)
  with assms have "64 * k + i \<in> free_bits bs" "(64 * k + i) div 64 = k"
    by (simp_all add: free_bits_def)
  then show "\<exists>i \<in> free_bits bs. i div 64 = k" by blast
next
  assume "\<exists>i \<in> free_bits bs. i div 64 = k"
  then obtain i where "\<not> bit (bs ! k) (i mod 64)" by (auto simp: free_bits_def)
  then show "bs ! k \<noteq> - 1"
    using word_not_full_iff mod_less_divisor zero_less_numeral by blast
qed

lemma find_word_Min:
  assumes "free_bits bs \<noteq> {}"
  shows "find (\<lambda>i. bs ! i \<noteq> - 1) [0 ..< length bs] = Some (Min (free_bits bs) div 64)"
proof -
  let ?m = "Min (free_bits bs)"
  have m: "?m \<in> free_bits bs" using assms by simp
  then have lt: "?m div 64 < length bs" by (simp add: free_bits_def)
  have "bs ! j = - 1" if "j < ?m div 64" for j
  proof (rule ccontr)
    assume "bs ! j \<noteq> - 1"
    with that lt obtain i where "i \<in> free_bits bs" "i div 64 = j"
      using free_word_iff [of j bs] by auto
    then show False using that div_le_mono [OF Min_le, of "free_bits bs" i 64] by simp
  qed
  with lt free_word_iff [OF lt] m show ?thesis by (auto simp: find_upt_Some)
qed

lemma find_bit_Min:
  assumes "free_bits bs \<noteq> {}"
  shows "find (\<lambda>b. \<not> bit (bs ! (Min (free_bits bs) div 64)) b) [0 ..< 64] =
         Some (Min (free_bits bs) mod 64)"
proof -
  let ?m = "Min (free_bits bs)"
  have m: "?m div 64 < length bs" "\<not> bit (bs ! (?m div 64)) (?m mod 64)"
    using Min_in [OF finite_free_bits assms] by (simp_all add: free_bits_def)
  have "bit (bs ! (?m div 64)) j" if "j < ?m mod 64" for j
  proof (rule ccontr)
    assume "\<not> bit (bs ! (?m div 64)) j"
    moreover have "j < 64" using that mod_less_divisor [of 64 ?m] by simp
    ultimately have "64 * (?m div 64) + j \<in> free_bits bs"
      using m(1) by (simp add: free_bits_def)
    then have "?m \<le> 64 * (?m div 64) + j" by simp
    then have "?m mod 64 \<le> j" by (metis add_le_cancel_left mult_div_mod_eq)
    with that show False by simp
  qed
  with m(2) show ?thesis by (simp add: find_upt_Some del: upt_rec_numeral)
qed

lemma region_free_Min:
  "free_bits (fr_bits r) \<noteq> {} \<Longrightarrow>
   Min (region_free r) = fr_paddr r + Min (free_bits (fr_bits r)) * PAGE_SIZE"
  unfolding region_free_def
  by (subst mono_Min_commute [symmetric]) (simp_all add: mono_def)

lemma region_alloc_None:
  "region_free r = {} \<Longrightarrow> region_alloc r = Some (r, None)"
  using find_upt_None [of "\<lambda>i. fr_bits r ! i \<noteq> - 1" 0 "length (fr_bits r)"] free_word_iff [of _ "fr_bits r"]
  by (simp add: region_alloc_def region_free_def)

lemma region_alloc_Some:
  assumes "region_ok r" "region_free r \<noteq> {}"
  shows "\<exists>r'. region_alloc r = Some (r', Some (Min (region_free r))) \<and>
           same_extent r r' \<and> region_ok r' \<and> region_free r' = region_free r - {Min (region_free r)}"
proof -
  let ?bs = "fr_bits r" let ?m = "Min (free_bits ?bs)"
  have ne: "free_bits ?bs \<noteq> {}" using assms(2) by (simp add: region_free_def)
  then have m: "?m div 64 < length ?bs"
    using Min_in [OF finite_free_bits ne] by (simp add: free_bits_def)
  define r' where "r' = r\<lparr>fr_bits := ?bs[?m div 64 := set_bit (?m mod 64) (?bs ! (?m div 64))]\<rparr>"
  have fb: "free_bits (fr_bits r') = free_bits ?bs - {?m}"
    using free_bits_update(1) [OF m] by (simp add: r'_def)
  have ext: "same_extent r r'" by (simp add: same_extent_def r'_def)
  have "Min (region_free r) < 2 ^ 64"
    using region_free_extent(2) [OF assms(1) Min_in] assms by (simp add: region_ok_def)
  then have "region_alloc r = Some (r', Some (Min (region_free r)))"
    using m by (simp add: region_alloc_def find_word_Min [OF ne] region_alloc_in_pos_def
        find_bit_Min [OF ne] region_free_Min [OF ne] wadd_exact wmul_exact r'_def
        del: upt_rec_numeral)
  moreover have "region_free r' = region_free r - {Min (region_free r)}"
    using region_free_remove [OF _ fb] by (simp add: region_free_Min [OF ne] r'_def)
  moreover have "region_ok r'"
    using region_ok_shrink [OF assms(1) ext] fb by auto
  ultimately show ?thesis using ext by blast
qed

section \<open>Contiguous requests\<close>

abbreviation window :: "u64 list \<Rightarrow> nat \<Rightarrow> nat \<Rightarrow> nat \<Rightarrow> bool" where
  "window bs pages tot c \<equiv> c + pages \<le> tot \<and> {c ..< c + pages} \<subseteq> free_bits bs"

lemma scan_window_spec:
  assumes "tot \<le> 64 * length bs" "cstart + ccount = i" "i \<le> tot" "ccount < pages"
    and "{cstart ..< i} \<subseteq> free_bits bs" "\<And>c. c < cstart \<Longrightarrow> \<not> window bs pages tot c"
  shows "scan_window bs pages tot i cstart ccount =
           Some (if \<exists>c. window bs pages tot c then Some (LEAST c. window bs pages tot c) else None)"
  using assms
proof (induction bs pages tot i cstart ccount rule: scan_window.induct)
  case (1 bs pages tot i cstart ccount)
  show ?case
  proof (cases "i < tot")
    case False
    then have "\<not> window bs pages tot c" for c
      using "1.prems" by (cases "c < cstart") auto
    with False show ?thesis by (subst scan_window.simps) simp
  next
    case True
    then have get: "ba_get_bit bs i = Some (i \<notin> free_bits bs)"
      using "1.prems" by (intro ba_get_bit_free) simp
    show ?thesis
    proof (cases "i \<in> free_bits bs")
      case False
      have "\<not> window bs pages tot c" if "c < i + 1" for c
      proof (cases "c < cstart")
        case True
        then show ?thesis by (rule "1.prems")
      next
        case nc: False
        with that "1.prems"(2,4) have "i \<in> {c ..< c + pages}" by auto
        with False show ?thesis by auto
      qed
      with "1.IH"(1) [OF True get] "1.prems" True False get show ?thesis
        by (subst scan_window.simps) simp
    next
      case free: True
      have sub: "{cstart ..< i + 1} \<subseteq> free_bits bs"
        using "1.prems"(5) free by (auto simp: less_Suc_eq)
      show ?thesis
      proof (cases "pages \<le> ccount + 1")
        case False
        with "1.IH"(2) [OF True get] "1.prems" sub True free get show ?thesis
          by (subst scan_window.simps) simp
      next
        case full: True
        have w: "window bs pages tot cstart"
          using sub "1.prems" full True by auto
        then have "(LEAST c. window bs pages tot c) = cstart"
          using "1.prems"(6) by (intro Least_equality) (auto simp: not_less [symmetric])
        with w full True free get show ?thesis by (subst scan_window.simps) auto
      qed
    qed
  qed
qed

lemma window_card: "window bs pages tot c \<Longrightarrow> pages \<le> card (free_bits bs)"
  using card_mono [OF finite_free_bits, of "{c ..< c + pages}" bs] by simp

lemma region_alloc_much_spec:
  assumes "region_ok r" "pages > 0"
  defines "W \<equiv> window (fr_bits r) pages (region_pages r)"
  shows "\<not> (\<exists>c. W c) \<Longrightarrow> region_alloc_much r pages = Some (r, None)"
    and "\<exists>c. W c \<Longrightarrow> \<exists>r'. region_alloc_much r pages =
           Some (r', Some (map (\<lambda>i. fr_paddr r + i * PAGE_SIZE) [(LEAST c. W c) ..< (LEAST c. W c) + pages]))
         \<and> same_extent r r' \<and> region_ok r'
         \<and> free_bits (fr_bits r') = free_bits (fr_bits r) - {(LEAST c. W c) ..< (LEAST c. W c) + pages}"
proof -
  have lt: "fr_paddr_end r div PAGE_SIZE < 2 ^ 64"
    using assms(1) by (simp add: region_ok_def) linarith
  have tot: "wsub (fr_paddr_end r div PAGE_SIZE) (fr_paddr r div PAGE_SIZE) = region_pages r"
    using region_okD(2) [OF assms(1)] lt by (simp add: wsub_exact)
  have scan: "scan_window (fr_bits r) pages (region_pages r) 0 0 0 =
      Some (if \<exists>c. W c then Some (LEAST c. W c) else None)"
    unfolding W_def using assms(2) region_okD(3) [OF assms(1)] by (intro scan_window_spec) auto
  show "region_alloc_much r pages = Some (r, None)" if "\<not> (\<exists>c. W c)"
    using that scan by (simp add: region_alloc_much_def Let_def tot)
  assume ex: "\<exists>c. W c"
  define c where "c = (LEAST c. W c)"
  have w: "window (fr_bits r) pages (region_pages r) c"
    using LeastI_ex [OF ex] by (simp add: c_def W_def)
  obtain bs where bs: "ba_set_all (fr_bits r) [c ..< c + pages] = Some bs"
      "length bs = length (fr_bits r)" "free_bits bs = free_bits (fr_bits r) - {c ..< c + pages}"
    using ba_set_all_free [of "[c ..< c + pages]" "fr_bits r"] w region_okD(3) [OF assms(1)] by auto
  let ?r' = "r\<lparr>fr_bits := bs\<rparr>"
  have ext: "same_extent r ?r'" using bs(2) by (simp add: same_extent_def)
  have base: "fr_paddr r = fr_paddr r div PAGE_SIZE * PAGE_SIZE"
    using assms(1) by (simp add: region_ok_def) (metis div_mult_mod_eq add.right_neutral)
  have addr: "wmul (fr_paddr r div PAGE_SIZE + i) PAGE_SIZE = fr_paddr r + i * PAGE_SIZE"
    if "i < c + pages" for i
  proof -
    have "i * PAGE_SIZE \<le> region_pages r * PAGE_SIZE" using that w by (intro mult_le_mono1) simp
    then have "fr_paddr r + i * PAGE_SIZE < 2 ^ 64"
      using region_okD(1) [OF assms(1)] assms(1) by (simp add: region_ok_def)
    with base show ?thesis by (simp add: wmul_exact add_mult_distrib)
  qed
  have "region_alloc_much r pages = Some (?r', Some (map (\<lambda>i. fr_paddr r + i * PAGE_SIZE) [c ..< c + pages]))"
    using scan ex w window_card [OF w] bs(1) addr
    by (simp add: region_alloc_much_def Let_def tot region_free_count_card flip: c_def)
  moreover have "region_ok ?r'"
    using region_ok_shrink [OF assms(1) ext] bs(3) by auto
  ultimately show "\<exists>r'. region_alloc_much r pages =
      Some (r', Some (map (\<lambda>i. fr_paddr r + i * PAGE_SIZE) [(LEAST c. W c) ..< (LEAST c. W c) + pages]))
    \<and> same_extent r r' \<and> region_ok r'
    \<and> free_bits (fr_bits r') = free_bits (fr_bits r) - {(LEAST c. W c) ..< (LEAST c. W c) + pages}"
    using ext bs(3) unfolding c_def by auto
qed

lemma region_dealloc_spec:
  assumes "region_ok r" "fr_paddr r \<le> p" "p < fr_paddr_end r" "p mod PAGE_SIZE = 0"
  shows "\<exists>r'. region_dealloc r p = Some r' \<and> same_extent r r' \<and> region_ok r' \<and>
           region_free r' = insert p (region_free r)"
proof -
  obtain a b where ab: "fr_paddr r = a * PAGE_SIZE" "p = b * PAGE_SIZE"
    using assms(1,4) by (metis mod_0_imp_dvd dvd_def mult.commute region_ok_def)
  have le: "a \<le> b" using assms(2) ab by simp
  have pg: "b - a < region_pages r"
    using assms(2,3) region_okD(1) [OF assms(1)] ab by simp
  have "b < 2 ^ 64" using assms(1,3) ab by (simp add: region_ok_def)
  then have idx: "wsub (p div PAGE_SIZE) (fr_paddr r div PAGE_SIZE) = b - a"
    using ab le by (simp add: wsub_exact)
  obtain bs where bs: "ba_set_bit (fr_bits r) (b - a) False = Some bs" "length bs = length (fr_bits r)"
      "free_bits bs = insert (b - a) (free_bits (fr_bits r))"
    using ba_set_bit_free [of "b - a" "fr_bits r" False] pg region_okD(3) [OF assms(1)] by auto
  have p: "p = fr_paddr r + (b - a) * PAGE_SIZE"
    using ab le by (simp flip: add_mult_distrib)
  have "region_dealloc r p = Some (r\<lparr>fr_bits := bs\<rparr>)"
    using bs(1) by (simp add: region_dealloc_def idx)
  moreover have "region_ok (r\<lparr>fr_bits := bs\<rparr>)"
    using assms(1) bs(2,3) pg by (simp add: region_ok_def)
  moreover have "region_free (r\<lparr>fr_bits := bs\<rparr>) = insert p (region_free r)"
    using bs(3) by (simp add: region_free_def flip: p)
  ultimately show ?thesis using bs(2) by (simp add: same_extent_def)
qed

section \<open>The page-allocator contract\<close>

text \<open>What the clients of the allocator (RAM files, page tables, user memory) rely on:
  \<open>avail\<close> is the set of free frames, \<open>extent\<close> the set of all frames managed.  \<open>grow\<close> is the
  loop of a client that takes \<open>n\<close> frames one at a time and stops at the first refusal.\<close>

primrec grow :: "('s \<Rightarrow> ('s \<times> usize option) run) \<Rightarrow> nat \<Rightarrow> 's \<Rightarrow> usize list \<Rightarrow> ('s \<times> usize list \<times> bool) run" where
  "grow alloc 0 s acc = Some (s, acc, True)"
| "grow alloc (Suc n) s acc =
     (case alloc s of
        None \<Rightarrow> None
      | Some (s', Some p) \<Rightarrow> grow alloc n s' (acc @ [p])
      | Some (s', None) \<Rightarrow> Some (s', acc, False))"

text \<open>Dropping a \<open>Vec<FrameTracker>\<close> drops its elements in order.\<close>

primrec release_all :: "('s \<Rightarrow> usize \<Rightarrow> 's run) \<Rightarrow> 's \<Rightarrow> usize list \<Rightarrow> 's run" where
  "release_all release s [] = Some s"
| "release_all release s (p # ps) = Option.bind (release s p) (\<lambda>s'. release_all release s' ps)"

locale page_allocator =
  fixes alloc :: "'s \<Rightarrow> ('s \<times> usize option) run"
    and release :: "'s \<Rightarrow> usize \<Rightarrow> 's run"
    and avail :: "'s \<Rightarrow> usize set"
    and extent :: "'s \<Rightarrow> usize set"
    and inv :: "'s \<Rightarrow> bool"
  assumes alloc_empty: "inv s \<Longrightarrow> avail s = {} \<Longrightarrow> alloc s = Some (s, None)"
    and alloc_take: "inv s \<Longrightarrow> avail s \<noteq> {} \<Longrightarrow>
      \<exists>s' p. alloc s = Some (s', Some p) \<and> p \<in> avail s \<and> avail s' = avail s - {p} \<and>
             extent s' = extent s \<and> inv s'"
    and release_give: "inv s \<Longrightarrow> p \<in> extent s \<Longrightarrow>
      \<exists>s'. release s p = Some s' \<and> avail s' = insert p (avail s) \<and> extent s' = extent s \<and> inv s'"
    and avail_extent: "inv s \<Longrightarrow> avail s \<subseteq> extent s"
    and avail_finite: "inv s \<Longrightarrow> finite (avail s)"
begin

lemma alloc_release:
  assumes "inv s" "alloc s = Some (s', Some p)"
  shows "\<exists>s''. release s' p = Some s'' \<and> avail s'' = avail s \<and> inv s''"
proof -
  from assms have "avail s \<noteq> {}" using alloc_empty by fastforce
  with assms alloc_take [of s] have p: "p \<in> avail s" "avail s' = avail s - {p}" "extent s' = extent s" "inv s'"
    by auto
  moreover from p assms(1) have "p \<in> extent s'" using avail_extent by blast
  ultimately show ?thesis using release_give [of s' p] by auto
qed

lemma release_all_give:
  "inv s \<Longrightarrow> set ps \<subseteq> extent s \<Longrightarrow>
   \<exists>s'. release_all release s ps = Some s' \<and> avail s' = set ps \<union> avail s \<and> extent s' = extent s \<and> inv s'"
proof (induction ps arbitrary: s)
  case (Cons p ps)
  then obtain s1 where s1: "release s p = Some s1" "avail s1 = insert p (avail s)" "extent s1 = extent s" "inv s1"
    using release_give [of s p] by auto
  with Cons.IH [of s1] Cons.prems show ?case by auto
qed simp

lemma grow_spec:
  "inv s \<Longrightarrow> set acc \<inter> avail s = {} \<Longrightarrow> distinct acc \<Longrightarrow>
   \<exists>s' ps. grow alloc n s acc = Some (s', acc @ ps, n \<le> card (avail s)) \<and> inv s' \<and>
     extent s' = extent s \<and> length ps = min n (card (avail s)) \<and> distinct (acc @ ps) \<and>
     set ps \<subseteq> avail s \<and> avail s' = avail s - set ps"
proof (induction n arbitrary: s acc)
  case (Suc n)
  show ?case
  proof (cases "avail s = {}")
    case True
    with Suc.prems alloc_empty [of s] show ?thesis by auto
  next
    case False
    then obtain s1 p where s1: "alloc s = Some (s1, Some p)" "p \<in> avail s" "avail s1 = avail s - {p}"
        "extent s1 = extent s" "inv s1"
      using alloc_take Suc.prems by blast
    have pos: "card (avail s) = Suc (card (avail s1))"
      using s1(2,3) avail_finite [OF Suc.prems(1)] by (metis card_Suc_Diff1)
    have "set (acc @ [p]) \<inter> avail s1 = {}" "distinct (acc @ [p])"
      using Suc.prems s1 by auto
    from Suc.IH [OF s1(5) this] obtain s2 ps where s2:
      "grow alloc n s1 (acc @ [p]) = Some (s2, (acc @ [p]) @ ps, n \<le> card (avail s1))" "inv s2"
      "extent s2 = extent s1" "length ps = min n (card (avail s1))" "distinct ((acc @ [p]) @ ps)"
      "set ps \<subseteq> avail s1" "avail s2 = avail s1 - set ps"
      by blast
    have "grow alloc (Suc n) s acc = Some (s2, acc @ p # ps, Suc n \<le> card (avail s))"
      using s1(1) s2(1) pos by simp
    moreover have "set (p # ps) \<subseteq> avail s" "avail s2 = avail s - set (p # ps)"
      using s1(2,3) s2(6,7) by auto
    moreover have "length (p # ps) = min (Suc n) (card (avail s))"
      using s2(4) pos by simp
    moreover have "distinct (acc @ p # ps)" "extent s2 = extent s"
      using s2(3,5) s1(4) by simp_all
    ultimately show ?thesis using s2(2) by blast
  qed
qed auto

end

section \<open>The allocator meets the contract\<close>

definition fa_extent :: "frame_allocator \<Rightarrow> usize set" where
  "fa_extent fa = {p. p mod PAGE_SIZE = 0 \<and> (\<exists>r \<in> set fa. fr_paddr r \<le> p \<and> p < fr_paddr_end r)}"

lemma fa_free_simps [simp]:
  "fa_free [] = {}" "fa_free (r # rs) = region_free r \<union> fa_free rs"
  by (auto simp: fa_free_def)

lemma fa_extent_Cons:
  "fa_extent (r # rs) = {p. p mod PAGE_SIZE = 0 \<and> fr_paddr r \<le> p \<and> p < fr_paddr_end r} \<union> fa_extent rs"
  by (auto simp: fa_extent_def)

lemma fa_same_extent:
  "list_all2 same_extent fa fa' \<Longrightarrow> fa_extent fa' = fa_extent fa"
  by (induction rule: list_all2_induct) (simp_all add: fa_extent_Cons, auto simp: fa_extent_def same_extent_def)

lemma same_extent_refl [simp]: "same_extent r r"
  by (simp add: same_extent_def)

lemma fa_same_refl [simp]: "list_all2 same_extent fa fa"
  by (simp add: list.rel_refl)

lemma fa_ok_head: "fa_ok (r # rs) \<Longrightarrow> same_extent r r' \<Longrightarrow> region_ok r' \<Longrightarrow> fa_ok (r' # rs)"
  by (auto simp: same_extent_def)

lemma fa_ok_tail:
  "fa_ok (r # rs) \<Longrightarrow> list_all2 same_extent rs rs' \<Longrightarrow> fa_ok rs' \<Longrightarrow> fa_ok (r # rs')"
proof -
  assume a: "fa_ok (r # rs)" "list_all2 same_extent rs rs'" "fa_ok rs'"
  have "\<exists>q \<in> set rs. same_extent q q'" if "q' \<in> set rs'" for q'
    using a(2) that by (metis in_set_conv_nth list_all2_conv_all_nth)
  then show "fa_ok (r # rs')"
    using a(1,3) by (simp add: same_extent_def) metis
qed

lemma fa_ok_regions: "fa_ok fa \<Longrightarrow> r \<in> set fa \<Longrightarrow> region_ok r"
  by (induction fa) auto

lemma fa_free_extent: "fa_ok fa \<Longrightarrow> fa_free fa \<subseteq> fa_extent fa"
proof
  fix p assume "fa_ok fa" "p \<in> fa_free fa"
  then obtain r where "r \<in> set fa" "region_ok r" "p \<in> region_free r"
    using fa_ok_regions by (auto simp: fa_free_def)
  then show "p \<in> fa_extent fa"
    using region_free_extent [of r p] by (auto simp: fa_extent_def)
qed

lemma finite_fa_free [simp]: "finite (fa_free fa)"
  by (simp add: fa_free_def)

lemma region_disjoint_tail:
  assumes "fa_ok (r # rs)" "fr_paddr r \<le> p" "p < fr_paddr_end r"
  shows "p \<notin> fa_extent rs"
proof
  assume "p \<in> fa_extent rs"
  then obtain q where "q \<in> set rs" "fr_paddr q \<le> p" "p < fr_paddr_end q"
    by (auto simp: fa_extent_def)
  with assms show False by auto
qed

lemma region_free_disjoint: "fa_ok (r # rs) \<Longrightarrow> region_free r \<inter> fa_free rs = {}"
proof -
  assume ok: "fa_ok (r # rs)"
  have "p \<notin> fa_free rs" if "p \<in> region_free r" for p
    using region_free_extent [of r p] that ok region_disjoint_tail [OF ok, of p]
      fa_free_extent [of rs] by auto
  then show ?thesis by blast
qed

lemma fa_alloc_empty: "fa_free fa = {} \<Longrightarrow> fa_alloc fa = Some (fa, None)"
  by (induction fa) (simp_all add: region_alloc_None)

lemma fa_alloc_take:
  "fa_ok fa \<Longrightarrow> fa_free fa \<noteq> {} \<Longrightarrow>
   \<exists>fa' p. fa_alloc fa = Some (fa', Some p) \<and> p \<in> fa_free fa \<and> fa_free fa' = fa_free fa - {p} \<and>
     list_all2 same_extent fa fa' \<and> fa_ok fa'"
proof (induction fa)
  case (Cons r rs)
  have ok: "region_ok r" "fa_ok rs" and disj: "region_free r \<inter> fa_free rs = {}"
    using Cons.prems(1) region_free_disjoint by auto
  show ?case
  proof (cases "region_free r = {}")
    case True
    then obtain rs' p where rs': "fa_alloc rs = Some (rs', Some p)" "p \<in> fa_free rs"
        "fa_free rs' = fa_free rs - {p}" "list_all2 same_extent rs rs'" "fa_ok rs'"
      using Cons.IH ok Cons.prems by auto
    then show ?thesis
      using True fa_ok_tail [OF Cons.prems(1)] by (simp add: region_alloc_None)
  next
    case False
    then obtain r' where r': "region_alloc r = Some (r', Some (Min (region_free r)))" "same_extent r r'"
        "region_ok r'" "region_free r' = region_free r - {Min (region_free r)}"
      using region_alloc_Some ok by blast
    moreover have "Min (region_free r) \<in> region_free r" using False by simp
    moreover from this have "fa_free rs - {Min (region_free r)} = fa_free rs" using disj by blast
    ultimately show ?thesis
      using fa_ok_head [OF Cons.prems(1)] by (simp add: Un_Diff)
  qed
qed simp

lemma fa_dealloc_give:
  "fa_ok fa \<Longrightarrow> p \<in> fa_extent fa \<Longrightarrow>
   \<exists>fa'. fa_dealloc fa p = Some fa' \<and> fa_free fa' = insert p (fa_free fa) \<and>
     list_all2 same_extent fa fa' \<and> fa_ok fa'"
proof (induction fa)
  case (Cons r rs)
  show ?case
  proof (cases "fr_paddr r \<le> p \<and> p < fr_paddr_end r")
    case True
    moreover have "p mod PAGE_SIZE = 0" using Cons.prems(2) by (simp add: fa_extent_def)
    ultimately obtain r' where "region_dealloc r p = Some r'" "same_extent r r'" "region_ok r'"
        "region_free r' = insert p (region_free r)"
      using region_dealloc_spec [of r p] Cons.prems(1) by auto
    with True show ?thesis using fa_ok_head [OF Cons.prems(1)] by simp
  next
    case False
    then obtain rs' where "fa_dealloc rs p = Some rs'" "fa_free rs' = insert p (fa_free rs)"
        "list_all2 same_extent rs rs'" "fa_ok rs'"
      using Cons by (auto simp: fa_extent_Cons)
    with False show ?thesis using fa_ok_tail [OF Cons.prems(1)] by auto
  qed
qed (simp add: fa_extent_def)

interpretation fal: page_allocator fa_alloc fa_dealloc fa_free fa_extent fa_ok
proof
  show "\<exists>s' p. fa_alloc s = Some (s', Some p) \<and> p \<in> fa_free s \<and> fa_free s' = fa_free s - {p} \<and>
      fa_extent s' = fa_extent s \<and> fa_ok s'" if "fa_ok s" "fa_free s \<noteq> {}" for s
    using fa_alloc_take [OF that] fa_same_extent by blast
  show "\<exists>s'. fa_dealloc s p = Some s' \<and> fa_free s' = insert p (fa_free s) \<and>
      fa_extent s' = fa_extent s \<and> fa_ok s'" if "fa_ok s" "p \<in> fa_extent s" for s p
    using fa_dealloc_give [OF that] fa_same_extent by blast
qed (simp_all add: fa_alloc_empty fa_free_extent)

section \<open>Counting and contiguous allocation\<close>

lemma fa_free_count_Cons: "fa_free_count (r # rs) = region_free_count r + fa_free_count rs"
proof -
  have "foldl (\<lambda>sum x. sum + region_free_count x) a rs = a + foldl (\<lambda>sum x. sum + region_free_count x) 0 rs" for a
  proof (induction rs arbitrary: a)
    case (Cons x rs)
    show ?case using Cons [of "a + region_free_count x"] Cons [of "region_free_count x"] by simp
  qed simp
  from this [of "region_free_count r"] show ?thesis by (simp add: fa_free_count_def)
qed

lemma fa_free_count_card: "fa_ok fa \<Longrightarrow> fa_free_count fa = card (fa_free fa)"
proof (induction fa)
  case (Cons r rs)
  then show ?case
    using region_free_disjoint [OF Cons.prems]
    by (simp add: fa_free_count_Cons card_Un_disjoint flip: region_free_card)
qed (simp add: fa_free_count_def)

text \<open>\<open>n\<close> frames in a row from address \<open>p\<close>.\<close>

definition frame_run :: "usize \<Rightarrow> nat \<Rightarrow> usize list" where
  "frame_run p n = map (\<lambda>i. p + i * PAGE_SIZE) [0 ..< n]"

lemma map_offset_upt: "map (\<lambda>i. a + i * PAGE_SIZE) [c ..< c + n] = frame_run (a + c * PAGE_SIZE) n"
  by (rule nth_equalityI) (simp_all add: frame_run_def add_mult_distrib)

lemma window_frame_run:
  assumes "region_ok r" "n > 0"
  shows "(\<exists>c. window (fr_bits r) n (region_pages r) c) \<longleftrightarrow> (\<exists>p. set (frame_run p n) \<subseteq> region_free r)"
proof
  assume "\<exists>c. window (fr_bits r) n (region_pages r) c"
  then obtain c where "{c ..< c + n} \<subseteq> free_bits (fr_bits r)" by blast
  then have "set (frame_run (fr_paddr r + c * PAGE_SIZE) n) \<subseteq> region_free r"
    by (auto simp: region_free_def simp flip: map_offset_upt)
  then show "\<exists>p. set (frame_run p n) \<subseteq> region_free r" by blast
next
  assume "\<exists>p. set (frame_run p n) \<subseteq> region_free r"
  then obtain p where p: "p + i * PAGE_SIZE \<in> region_free r" if "i < n" for i
    by (force simp: frame_run_def)
  from p [OF assms(2)] obtain c where c: "p = fr_paddr r + c * PAGE_SIZE"
    by (auto simp: region_free_def)
  have fr: "c + i \<in> free_bits (fr_bits r)" if "i < n" for i
  proof -
    obtain j where "j \<in> free_bits (fr_bits r)" "c * PAGE_SIZE + i * PAGE_SIZE = j * PAGE_SIZE"
      using p [of i] \<open>i < n\<close> c by (auto simp: region_free_def)
    moreover from this(2) have "c + i = j" by linarith
    ultimately show ?thesis by simp
  qed
  have "{c ..< c + n} \<subseteq> free_bits (fr_bits r)"
    using fr by (auto simp: le_iff_add set_eq_iff subset_iff)
  moreover have "c + (n - 1) < region_pages r"
    using fr [of "n - 1"] assms unfolding region_ok_def by auto
  ultimately show "\<exists>c. window (fr_bits r) n (region_pages r) c"
    using assms(2) by (intro exI [of _ c]) simp
qed

lemma frame_run_disjoint_tail:
  "fa_ok (r # rs) \<Longrightarrow> set ps \<subseteq> region_free r \<Longrightarrow> fa_free rs - set ps = fa_free rs"
  using region_free_disjoint [of r rs] by blast

lemma region_alloc_much_run:
  assumes "region_ok r" "n > 0" "\<exists>p. set (frame_run p n) \<subseteq> region_free r"
  shows "\<exists>r' p. region_alloc_much r n = Some (r', Some (frame_run p n)) \<and> same_extent r r' \<and> region_ok r' \<and>
           set (frame_run p n) \<subseteq> region_free r \<and> region_free r' = region_free r - set (frame_run p n)"
proof -
  define c where "c = (LEAST c. window (fr_bits r) n (region_pages r) c)"
  have ex: "\<exists>c. window (fr_bits r) n (region_pages r) c"
    using assms by (simp only: window_frame_run)
  then have w: "{c ..< c + n} \<subseteq> free_bits (fr_bits r)"
    using LeastI_ex [OF ex] by (simp add: c_def)
  obtain r' where r': "region_alloc_much r n = Some (r', Some (frame_run (fr_paddr r + c * PAGE_SIZE) n))"
      "same_extent r r'" "region_ok r'" "free_bits (fr_bits r') = free_bits (fr_bits r) - {c ..< c + n}"
    using region_alloc_much_spec(2) [OF assms(1,2) ex] unfolding map_offset_upt c_def by blast
  have set_run: "(\<lambda>i. fr_paddr r + i * PAGE_SIZE) ` {c ..< c + n} = set (frame_run (fr_paddr r + c * PAGE_SIZE) n)"
    by (simp flip: map_offset_upt)
  have "region_free r' = region_free r - set (frame_run (fr_paddr r + c * PAGE_SIZE) n)"
    using region_free_remove [OF _ r'(4)] r'(2) set_run by (simp add: same_extent_def)
  moreover have "set (frame_run (fr_paddr r + c * PAGE_SIZE) n) \<subseteq> region_free r"
    using w by (auto simp: region_free_def simp flip: set_run)
  ultimately show ?thesis using r' by blast
qed

lemma fa_alloc_much_None:
  "fa_ok fa \<Longrightarrow> n > 0 \<Longrightarrow> \<forall>r \<in> set fa. \<not> (\<exists>p. set (frame_run p n) \<subseteq> region_free r) \<Longrightarrow>
   fa_alloc_much fa n = Some (fa, None)"
proof (induction fa)
  case (Cons r rs)
  then have "region_alloc_much r n = Some (r, None)"
    using region_alloc_much_spec(1) [of r n] window_frame_run [of r n] by simp
  with Cons show ?case by simp
qed simp

lemma fa_alloc_much_run:
  "fa_ok fa \<Longrightarrow> n > 0 \<Longrightarrow> \<exists>r \<in> set fa. \<exists>p. set (frame_run p n) \<subseteq> region_free r \<Longrightarrow>
   \<exists>fa' p. fa_alloc_much fa n = Some (fa', Some (frame_run p n)) \<and> set (frame_run p n) \<subseteq> fa_free fa \<and>
     fa_free fa' = fa_free fa - set (frame_run p n) \<and> list_all2 same_extent fa fa' \<and> fa_ok fa'"
proof (induction fa)
  case (Cons r rs)
  have ok: "region_ok r" "fa_ok rs" using Cons.prems(1) by simp_all
  show ?case
  proof (cases "\<exists>p. set (frame_run p n) \<subseteq> region_free r")
    case True
    then obtain r' p where r': "region_alloc_much r n = Some (r', Some (frame_run p n))" "same_extent r r'"
        "region_ok r'" "set (frame_run p n) \<subseteq> region_free r" "region_free r' = region_free r - set (frame_run p n)"
      using region_alloc_much_run ok(1) Cons.prems(2) by blast
    then show ?thesis
      using fa_ok_head [OF Cons.prems(1) r'(2,3)] frame_run_disjoint_tail [OF Cons.prems(1) r'(4)]
      by (intro exI [of _ "r' # rs"] exI [of _ p]) (simp add: Un_Diff le_supI1)
  next
    case False
    then have none: "region_alloc_much r n = Some (r, None)"
      using region_alloc_much_spec(1) [OF ok(1) Cons.prems(2)] window_frame_run [OF ok(1) Cons.prems(2)]
      by simp
    obtain rs' p where rs': "fa_alloc_much rs n = Some (rs', Some (frame_run p n))"
        "set (frame_run p n) \<subseteq> fa_free rs" "fa_free rs' = fa_free rs - set (frame_run p n)"
        "list_all2 same_extent rs rs'" "fa_ok rs'"
      using Cons False ok by auto
    moreover have "region_free r - set (frame_run p n) = region_free r"
      using region_free_disjoint [OF Cons.prems(1)] rs'(2) by blast
    ultimately show ?thesis
      using none fa_ok_tail [OF Cons.prems(1) rs'(4,5)]
      by (intro exI [of _ "r # rs'"] exI [of _ p]) (simp add: Un_Diff le_supI2)
  qed
qed simp

section \<open>Frame contents\<close>

definition phys_ok :: "phys \<Rightarrow> bool" where
  "phys_ok ph \<longleftrightarrow> fa_ok (ph_frames ph) \<and>
     (\<forall>p \<in> fa_free (ph_frames ph). \<forall>i < PAGE_SIZE. ph_mem ph (p + i) = 0)"

lemma phys_ok_mono:
  "phys_ok ph \<Longrightarrow> fa_ok fa \<Longrightarrow> fa_free fa \<subseteq> fa_free (ph_frames ph) \<Longrightarrow> phys_ok (ph\<lparr>ph_frames := fa\<rparr>)"
  by (auto simp: phys_ok_def)

interpretation phl: page_allocator frame_alloc frame_drop
  "\<lambda>ph. fa_free (ph_frames ph)" "\<lambda>ph. fa_extent (ph_frames ph)" phys_ok
proof
  fix ph p
  assume ok: "phys_ok ph"
  then have fok: "fa_ok (ph_frames ph)" by (simp add: phys_ok_def)
  show "frame_alloc ph = Some (ph, None)" if "fa_free (ph_frames ph) = {}"
    using that by (simp add: frame_alloc_def fa_alloc_empty)
  show "\<exists>ph' p. frame_alloc ph = Some (ph', Some p) \<and> p \<in> fa_free (ph_frames ph) \<and>
      fa_free (ph_frames ph') = fa_free (ph_frames ph) - {p} \<and>
      fa_extent (ph_frames ph') = fa_extent (ph_frames ph) \<and> phys_ok ph'"
    if "fa_free (ph_frames ph) \<noteq> {}"
    using fal.alloc_take [OF fok that] phys_ok_mono [OF ok] by (force simp: frame_alloc_def)
  show "\<exists>ph'. frame_drop ph p = Some ph' \<and> fa_free (ph_frames ph') = insert p (fa_free (ph_frames ph)) \<and>
      fa_extent (ph_frames ph') = fa_extent (ph_frames ph) \<and> phys_ok ph'"
    if "p \<in> fa_extent (ph_frames ph)"
    using fal.release_give [OF fok that] ok
    by (auto simp: frame_drop_def phys_ok_def frame_clear_def)
  show "fa_free (ph_frames ph) \<subseteq> fa_extent (ph_frames ph)" "finite (fa_free (ph_frames ph))"
    using fa_free_extent [OF fok] by simp_all
qed

section \<open>Boot memory\<close>

lemma strip_virt_mod: "strip_virt a = a mod 2 ^ 38"
proof -
  have "NOT VIRT_ADDR_START = mask 38"
    by (simp add: VIRT_ADDR_START_def mask_eq_exp_minus_1)
  then have "strip_virt a = unat (take_bit 38 (word_of_nat a :: u64))"
    by (simp add: strip_virt_def take_bit_eq_mask)
  also have "\<dots> = take_bit 38 (unat (word_of_nat a :: u64))"
    by (rule unsigned_take_bit_eq)
  also have "\<dots> = a mod 2 ^ 38"
    by (simp only: unat_of_nat take_bit_eq_mod) (simp add: mod_mod_cancel)
  finally show ?thesis .
qed

lemma fa_ok_snoc:
  "fa_ok (fa @ [r]) \<longleftrightarrow> fa_ok fa \<and> region_ok r \<and>
     (\<forall>q \<in> set fa. fr_paddr_end q \<le> fr_paddr r \<or> fr_paddr_end r \<le> fr_paddr q)"
  by (induction fa) auto

text \<open>The direct map places physical address \<open>a\<close> at \<open>VIRT_ADDR_START + a\<close>.\<close>

abbreviation kernel_va :: "usize \<Rightarrow> usize" where
  "kernel_va a \<equiv> unat VIRT_ADDR_START + a"

lemma strip_kernel_page:
  assumes "x * PAGE_SIZE < 2 ^ 38"
  shows "strip_virt (wmul (4503599560261632 + x) PAGE_SIZE) = x * PAGE_SIZE"
proof -
  have "(4503599560261632 + x) * PAGE_SIZE = x * PAGE_SIZE + 67108863 * 2 ^ 38" by simp
  then have "(4503599560261632 + x) * PAGE_SIZE mod 2 ^ 38 = x * PAGE_SIZE"
    using assms by (simp only: mod_mult_self1 mod_less)
  then show ?thesis by (simp only: strip_virt_mod wmul_def) (simp add: mod_mod_cancel)
qed

lemma align_kernel_va:
  assumes "a + PAGE_SIZE \<le> 2 ^ 38"
  shows "strip_virt (alignup (kernel_va a) PAGE_SIZE) = div_ceil a PAGE_SIZE * PAGE_SIZE"
    and "strip_virt (aligndown (kernel_va a) PAGE_SIZE) = a div PAGE_SIZE * PAGE_SIZE"
proof -
  have va: "kernel_va a = 4503599560261632 * PAGE_SIZE + a"
    by (simp add: VIRT_ADDR_START_def)
  have lt: "div_ceil a PAGE_SIZE * PAGE_SIZE < 2 ^ 38" "a div PAGE_SIZE * PAGE_SIZE < 2 ^ 38"
    using div_ceil_least [of PAGE_SIZE a] div_times_less_eq_dividend [of a PAGE_SIZE] assms
    by linarith+
  have "div_ceil (4503599560261632 * PAGE_SIZE + a) PAGE_SIZE = 4503599560261632 + div_ceil a PAGE_SIZE"
    by (rule div_ceil_shift) simp
  then show "strip_virt (alignup (kernel_va a) PAGE_SIZE) = div_ceil a PAGE_SIZE * PAGE_SIZE"
    unfolding va alignup_def using strip_kernel_page [OF lt(1)] by (simp only:)
  have "(4503599560261632 * PAGE_SIZE + a) div PAGE_SIZE = 4503599560261632 + a div PAGE_SIZE"
    by (subst add.commute, subst div_mult_self1) simp_all
  then show "strip_virt (aligndown (kernel_va a) PAGE_SIZE) = a div PAGE_SIZE * PAGE_SIZE"
    unfolding va aligndown_def using strip_kernel_page [OF lt(2)] by (simp only:)
qed

text \<open>A contiguous request on a well-formed memory.\<close>

lemma frame_alloc_much_phys:
  assumes "phys_ok ph" "n > 0"
  shows "\<exists>ph' r. frame_alloc_much ph n = Some (ph', r) \<and> phys_ok ph' \<and>
    fa_extent (ph_frames ph') = fa_extent (ph_frames ph) \<and>
    (case r of
       None \<Rightarrow> ph' = ph
     | Some ps \<Rightarrow> length ps = n \<and> distinct ps \<and> set ps \<subseteq> fa_free (ph_frames ph) \<and>
         fa_free (ph_frames ph') = fa_free (ph_frames ph) - set ps)"
proof -
  let ?fa = "ph_frames ph"
  have ok: "fa_ok ?fa" using assms(1) by (simp add: phys_ok_def)
  show ?thesis
  proof (cases "\<exists>r \<in> set ?fa. \<exists>p. set (frame_run p n) \<subseteq> region_free r")
    case True
    then obtain fa' p where p: "fa_alloc_much ?fa n = Some (fa', Some (frame_run p n))"
        "set (frame_run p n) \<subseteq> fa_free ?fa" "fa_free fa' = fa_free ?fa - set (frame_run p n)"
        "list_all2 same_extent ?fa fa'" "fa_ok fa'"
      using fa_alloc_much_run [OF ok assms(2)] by blast
    have "phys_ok (ph\<lparr>ph_frames := fa'\<rparr>)" using phys_ok_mono [OF assms(1) p(5)] p(3) by auto
    moreover have "distinct (frame_run p n)" "length (frame_run p n) = n"
      by (simp_all add: frame_run_def distinct_map inj_on_def)
    ultimately show ?thesis using p fa_same_extent [OF p(4)] by (simp add: frame_alloc_much_def)
  next
    case False
    then show ?thesis using fa_alloc_much_None [OF ok assms(2)] assms(1) by (simp add: frame_alloc_much_def)
  qed
qed

section \<open>Properties\<close>

text \<open>A four-frame allocator for the concrete instances.\<close>

definition demo_frames :: frame_allocator where
  "demo_frames = [\<lparr>fr_bits = [0xfffffffffffffff0], fr_paddr = 0x80000000, fr_paddr_end = 0x80004000\<rparr>]"

lemma demo_free_bits: "free_bits [0xfffffffffffffff0] = {0, 1, 2, 3}"
proof -
  have w: "(0xfffffffffffffff0 :: u64) = NOT (mask 4)" by (simp add: mask_eq_exp_minus_1)
  have "i \<in> free_bits [NOT (mask 4)] \<longleftrightarrow> i < 4" for i
  proof (cases "i < 64")
    case True
    then show ?thesis by (auto simp: free_bits_def bit_not_iff bit_mask_iff)
  next
    case False
    then show ?thesis by (auto dest: free_bits_less)
  qed
  then have "free_bits [NOT (mask 4)] = {..< 4}" by blast
  moreover have "{..< 4} = {0, 1, 2, 3 :: nat}" by auto
  ultimately show ?thesis unfolding w by (rule trans)
qed

lemma demo_frames_ok: "fa_ok demo_frames"
  by (simp add: demo_frames_def region_ok_def demo_free_bits div_ceil_def)

lemma demo_frames_free: "fa_free demo_frames = {0x80000000, 0x80001000, 0x80002000, 0x80003000}"
  by (simp add: demo_frames_def region_free_def demo_free_bits insert_commute)

text \<open>On a well-formed allocator a single-frame request never panics; it fails exactly
  when no frame is free and leaves the allocator alone, and otherwise hands out a free frame,
  which then is the only frame no longer free.\<close>

theorem fa_alloc_correct:
  assumes "fa_ok fa"
  shows "\<exists>fa' q. fa_alloc fa = Some (fa', q) \<and> fa_ok fa' \<and>
    (case q of
       None \<Rightarrow> fa_free fa = {} \<and> fa' = fa
     | Some p \<Rightarrow> p \<in> fa_free fa \<and> fa_free fa' = fa_free fa - {p})"
proof (cases "fa_free fa = {}")
  case True
  then show ?thesis using assms by (simp add: fa_alloc_empty)
next
  case False
  then show ?thesis using fa_alloc_take [OF assms] by fastforce
qed

theorem fa_alloc_correct_witness:
  "\<exists>fa' q. fa_alloc demo_frames = Some (fa', q) \<and> fa_ok fa' \<and>
    (case q of None \<Rightarrow> fa_free demo_frames = {} \<and> fa' = demo_frames
     | Some p \<Rightarrow> p \<in> fa_free demo_frames \<and> fa_free fa' = fa_free demo_frames - {p})"
  by (rule fa_alloc_correct [OF demo_frames_ok])

text \<open>C28: a contiguous request for \<open>n > 0\<close> frames never panics; it succeeds exactly when some
  region has \<open>n\<close> consecutive free frames, and then returns such a run, takes exactly these
  frames and leaves every other frame as it was.\<close>

theorem fa_alloc_much_correct:
  assumes "fa_ok fa" "n > 0"
  shows "\<exists>fa' q. fa_alloc_much fa n = Some (fa', q) \<and> fa_ok fa' \<and>
    (case q of
       None \<Rightarrow> fa' = fa \<and> (\<forall>r \<in> set fa. \<forall>p. \<not> set (frame_run p n) \<subseteq> region_free r)
     | Some ps \<Rightarrow> (\<exists>p. ps = frame_run p n) \<and> length ps = n \<and> set ps \<subseteq> fa_free fa \<and>
                  fa_free fa' = fa_free fa - set ps)"
proof (cases "\<exists>r \<in> set fa. \<exists>p. set (frame_run p n) \<subseteq> region_free r")
  case True
  then obtain fa' p where "fa_alloc_much fa n = Some (fa', Some (frame_run p n))"
      "set (frame_run p n) \<subseteq> fa_free fa" "fa_free fa' = fa_free fa - set (frame_run p n)" "fa_ok fa'"
    using fa_alloc_much_run [OF assms] by blast
  then show ?thesis
    by (intro exI [of _ fa'] exI [of _ "Some (frame_run p n)"]) (auto simp: frame_run_def)
next
  case False
  then show ?thesis using fa_alloc_much_None [OF assms] assms(1) by simp
qed

theorem fa_alloc_much_correct_witness:
  "\<exists>fa' q. fa_alloc_much demo_frames 2 = Some (fa', q) \<and> fa_ok fa' \<and>
    (case q of
       None \<Rightarrow> fa' = demo_frames \<and> (\<forall>r \<in> set demo_frames. \<forall>p. \<not> set (frame_run p 2) \<subseteq> region_free r)
     | Some ps \<Rightarrow> (\<exists>p. ps = frame_run p 2) \<and> length ps = 2 \<and> set ps \<subseteq> fa_free demo_frames \<and>
                  fa_free fa' = fa_free demo_frames - set ps)"
  by (rule fa_alloc_much_correct [OF demo_frames_ok]) simp

text \<open>Dropping the tracker of a frame just allocated restores the set of free frames,
  keeps the allocator well formed and keeps every free frame zeroed.\<close>

theorem frame_alloc_drop:
  assumes "phys_ok ph" "frame_alloc ph = Some (ph', Some p)"
  shows "\<exists>ph''. frame_drop ph' p = Some ph'' \<and>
           fa_free (ph_frames ph'') = fa_free (ph_frames ph) \<and> phys_ok ph''"
  using assms by (rule phl.alloc_release)

theorem frame_alloc_drop_witness:
  "let ph = \<lparr>ph_frames = demo_frames, ph_mem = \<lambda>_. 0\<rparr>;
       (ph', q) = the (frame_alloc ph)
   in phys_ok ph \<and> (\<exists>ph''. frame_drop ph' (the q) = Some ph'' \<and>
        fa_free (ph_frames ph'') = fa_free demo_frames \<and> phys_ok ph'')"
proof -
  let ?ph = "\<lparr>ph_frames = demo_frames, ph_mem = \<lambda>_. 0\<rparr>"
  have ok: "phys_ok ?ph" by (simp add: phys_ok_def demo_frames_ok)
  moreover obtain ph' p where al: "frame_alloc ?ph = Some (ph', Some p)"
    using phl.alloc_take [OF ok] demo_frames_free by auto
  ultimately show ?thesis using frame_alloc_drop [OF ok al] by simp
qed

text \<open>The free-page counter is the number of free frames.\<close>

theorem get_free_pages_card:
  assumes "phys_ok ph"
  shows "get_free_pages ph = card (fa_free (ph_frames ph))"
  using assms by (simp add: get_free_pages_def fa_free_count_card phys_ok_def)

theorem get_free_pages_card_witness:
  "get_free_pages \<lparr>ph_frames = demo_frames, ph_mem = \<lambda>_. 0\<rparr> = 4"
  using get_free_pages_card [of "\<lparr>ph_frames = demo_frames, ph_mem = \<lambda>_. 0\<rparr>"]
  by (simp add: phys_ok_def demo_frames_ok demo_frames_free)

text \<open>Registering the boot memory range \<open>[s, e)\<close> of the direct map, when no other region
  overlaps it, makes exactly the whole pages inside it available and keeps the allocator
  well formed.\<close>

theorem add_frame_map_correct:
  assumes "fa_ok fa" "s \<le> e" "e + PAGE_SIZE \<le> 2 ^ 38" "div_ceil s PAGE_SIZE \<le> e div PAGE_SIZE"
    and "\<forall>q \<in> set fa. fr_paddr_end q \<le> s \<or> e \<le> fr_paddr q"
  shows "\<exists>fa'. add_frame_map fa (kernel_va s) (kernel_va e) = Some fa' \<and> fa_ok fa' \<and>
    fa_free fa' = fa_free fa \<union>
      (\<lambda>i. i * PAGE_SIZE) ` {div_ceil s PAGE_SIZE ..< e div PAGE_SIZE}"
proof -
  let ?a = "div_ceil s PAGE_SIZE" and ?b = "e div PAGE_SIZE"
  have e: "?b * PAGE_SIZE \<le> e" by simp
  have s: "s \<le> ?a * PAGE_SIZE" by (rule div_ceil_mult) simp
  have ab: "?b * PAGE_SIZE < 2 ^ 64" "?a * PAGE_SIZE \<le> ?b * PAGE_SIZE"
    using assms(3,4) e by simp_all
  then obtain r where r: "region_new (?a * PAGE_SIZE) (?b * PAGE_SIZE) = Some r" "region_ok r"
      "fr_paddr r = ?a * PAGE_SIZE" "fr_paddr_end r = ?b * PAGE_SIZE" "free_bits (fr_bits r) = {..< ?b - ?a}"
    using region_new_spec [of "?a * PAGE_SIZE" "?b * PAGE_SIZE"]
    by (auto simp flip: diff_mult_distrib)
  have al: "add_frame_map fa (kernel_va s) (kernel_va e) = Some (fa @ [r])"
    using assms(2,3) r(1) by (simp add: add_frame_map_def align_kernel_va fa_add_memory_region_def)
  have ok: "fa_ok (fa @ [r])"
    using assms(1,5) r(2) le_trans [OF _ s] le_trans [OF e] by (auto simp: fa_ok_snoc r(3,4))
  have "region_free r = (\<lambda>i. i * PAGE_SIZE) ` ((+) ?a ` {..< ?b - ?a})"
    by (simp add: region_free_def r(3,5) image_image add_mult_distrib)
  also have "(+) ?a ` {..< ?b - ?a} = {?a ..< ?b}"
    using assms(4) by (simp add: lessThan_atLeast0)
  finally have "fa_free (fa @ [r]) = fa_free fa \<union> (\<lambda>i. i * PAGE_SIZE) ` {?a ..< ?b}"
    by (auto simp: fa_free_def)
  with al ok show ?thesis by blast
qed

theorem add_frame_map_correct_witness:
  "\<exists>fa'. add_frame_map [] (kernel_va 0x80200123) (kernel_va 0x80205fff) = Some fa' \<and> fa_ok fa' \<and>
    fa_free fa' = {0x80201000, 0x80202000, 0x80203000, 0x80204000}"
proof -
  have "{div_ceil 0x80200123 PAGE_SIZE ..< 0x80205fff div PAGE_SIZE} = {0x80201, 0x80202, 0x80203, 0x80204 :: nat}"
    by (auto simp: div_ceil_def)
  then show ?thesis
    using add_frame_map_correct [of "[]" "0x80200123" "0x80205fff"] by (simp add: div_ceil_def)
qed

end
