(* ===== verification/Heap.thy ===== *)
theory Heap
  imports Frames
begin

unbundle bit_operations_syntax

text \<open>
  The kernel heap, \<open>crates/runtime/src/heap.rs\<close>: requests above a threshold that the buddy
  allocator refuses are served from whole frames by the large-object pool.

  The buddy allocator (\<open>buddy_system_allocator\<close>) and the size and place of the static
  heap array (fixed by the build) are parameters.  The lemmas show that the pool's
  records own disjoint runs of allocated frames, and that freeing a pool object gives
  back exactly its frames.
\<close>

abbreviation LARGE_ALLOC_THRESHOLD :: usize where "LARGE_ALLOC_THRESHOLD \<equiv> 262144"

type_synonym large_record = "usize \<times> usize \<times> usize list"

record 'b heap_state =
  hp_phys :: phys
  hp_large :: "large_record list"
  hp_buddy :: 'b

definition large_alloc :: "'b heap_state \<Rightarrow> usize \<Rightarrow> usize \<Rightarrow> ('b heap_state \<times> usize option) run" where
  "large_alloc hs sz align =
     (let pages_needed = wsub (wadd sz PAGE_SIZE) 1 div PAGE_SIZE
      in case frame_alloc_much (hp_phys hs) pages_needed of
           None \<Rightarrow> None
         | Some (ph, None) \<Rightarrow> Some (hs\<lparr>hp_phys := ph\<rparr>, None)
         | Some (ph, Some []) \<Rightarrow> None
         | Some (ph, Some (start_paddr # rest)) \<Rightarrow>
             (let aligned_addr = unat ((word_of_nat (wsub (wadd start_paddr align) 1) :: u64)
                                       AND NOT (word_of_nat (wsub align 1)))
              in if aligned_addr \<noteq> start_paddr
                 then map_option (\<lambda>ph'. (hs\<lparr>hp_phys := ph'\<rparr>, None))
                        (release_all frame_drop ph (start_paddr # rest))
                 else Some (hs\<lparr>hp_phys := ph,
                              hp_large := hp_large hs @ [(start_paddr, sz, start_paddr # rest)]\<rparr>,
                            Some start_paddr)))"

definition remove_large :: "'b heap_state \<Rightarrow> nat \<Rightarrow> 'b heap_state run" where
  "remove_large hs i =
     map_option (\<lambda>ph. hs\<lparr>hp_phys := ph, hp_large := take i (hp_large hs) @ drop (Suc i) (hp_large hs)\<rparr>)
       (release_all frame_drop (hp_phys hs) (snd (snd (hp_large hs ! i))))"

definition large_dealloc :: "'b heap_state \<Rightarrow> usize \<Rightarrow> usize \<Rightarrow> 'b heap_state run" where
  "large_dealloc hs ptr_addr sz =
     (case find (\<lambda>i. fst (hp_large hs ! i) = ptr_addr \<and> fst (snd (hp_large hs ! i)) = sz)
             [0 ..< length (hp_large hs)] of
        Some i \<Rightarrow> remove_large hs i
      | None \<Rightarrow>
          (case find (\<lambda>i. fst (hp_large hs ! i) \<le> ptr_addr \<and>
                         ptr_addr < wadd (fst (hp_large hs ! i)) (fst (snd (hp_large hs ! i))))
                  [0 ..< length (hp_large hs)] of
             Some i \<Rightarrow> remove_large hs i
           | None \<Rightarrow> Some hs))"

definition large_stats :: "'b heap_state \<Rightarrow> usize \<times> usize" where
  "large_stats hs = (length (hp_large hs), sum_list (map (\<lambda>(_, _, trackers). length trackers) (hp_large hs)))"

text \<open>\<open>buddy_alloc\<close> and \<open>buddy_dealloc\<close> are the operations of the buddy heap; a null pointer is 0.\<close>

definition heap_alloc ::
  "('b \<Rightarrow> usize \<Rightarrow> usize \<Rightarrow> 'b \<times> usize) \<Rightarrow> 'b heap_state \<Rightarrow> usize \<Rightarrow> usize \<Rightarrow> ('b heap_state \<times> usize) run" where
  "heap_alloc buddy_alloc hs sz align =
     (let (b, ptr) = buddy_alloc (hp_buddy hs) sz align;
          hs = hs\<lparr>hp_buddy := b\<rparr>
      in if sz > LARGE_ALLOC_THRESHOLD
         then if ptr \<noteq> 0 then Some (hs, ptr)
              else case large_alloc hs sz align of
                     None \<Rightarrow> None
                   | Some (hs', Some p) \<Rightarrow> Some (hs', p)
                   | Some (hs', None) \<Rightarrow> Some (hs', 0)
         else Some (hs, ptr))"

definition heap_dealloc ::
  "('b \<Rightarrow> usize \<Rightarrow> usize \<Rightarrow> usize \<Rightarrow> 'b) \<Rightarrow> usize \<Rightarrow> usize \<Rightarrow> 'b heap_state \<Rightarrow> usize \<Rightarrow> usize \<Rightarrow> usize
   \<Rightarrow> 'b heap_state run" where
  "heap_dealloc buddy_dealloc heap_start heap_size hs ptr sz align =
     (if ptr = 0 then Some hs
      else if heap_start \<le> ptr \<and> ptr < wadd heap_start heap_size
      then Some (hs\<lparr>hp_buddy := buddy_dealloc (hp_buddy hs) ptr sz align\<rparr>)
      else large_dealloc hs ptr sz)"

section \<open>Invariant\<close>

definition record_ok :: "phys \<Rightarrow> large_record \<Rightarrow> bool" where
  "record_ok ph r \<longleftrightarrow> snd (snd r) \<noteq> [] \<and> hd (snd (snd r)) = fst r \<and>
     set (snd (snd r)) \<subseteq> fa_extent (ph_frames ph) - fa_free (ph_frames ph)"

definition heap_ok :: "'b heap_state \<Rightarrow> bool" where
  "heap_ok hs \<longleftrightarrow> phys_ok (hp_phys hs) \<and> list_all (record_ok (hp_phys hs)) (hp_large hs) \<and>
     distinct (concat (map (snd \<circ> snd) (hp_large hs)))"

lemma align_up_aligned:
  assumes "p mod 2 ^ k = 0" "p + 2 ^ k \<le> 2 ^ 64"
  shows "unat ((word_of_nat (wsub (wadd p (2 ^ k)) 1) :: u64) AND NOT (word_of_nat (wsub (2 ^ k) 1))) = p"
proof -
  let ?a = "word_of_nat p :: u64"
  have pw: "(2::nat) ^ k \<le> 2 ^ 64" "p < 2 ^ 64" using assms(2) zero_less_power [of "2::nat" k] by linarith+
  have m: "word_of_nat (2 ^ k - 1) = (mask k :: u64)"
    by (simp add: mask_eq_exp_minus_1 of_nat_diff)
  have w1: "wsub (2 ^ k) 1 = 2 ^ k - 1"
    using pw by (simp add: wsub_def mod_if)
  have w2: "wsub (wadd p (2 ^ k)) 1 = p + (2 ^ k - 1)"
    using assms(2) by (auto simp: wsub_def wadd_def mod_if)
  have low: "k \<le> n" if "bit p n" for n
  proof (rule ccontr)
    assume "\<not> k \<le> n"
    moreover have "take_bit k p = 0" using assms(1) by (simp add: take_bit_eq_mod)
    ultimately show False
      using that by (metis bit_take_bit_iff bit_0_eq bot_apply bot_bool_def not_le)
  qed
  have "?a + mask k = ?a OR mask k"
    by (rule disjunctive_add) (auto dest: low simp: bit_simps)
  then have "word_of_nat (p + (2 ^ k - 1)) AND NOT (mask k) = ?a"
    by (simp only: of_nat_add m) (auto intro!: bit_word_eqI simp: bit_simps, use low leD in blast)
  then show ?thesis
    unfolding w1 w2 m using pw(2) by (simp add: unat_u64_of_nat)
qed

section \<open>The pool\<close>

lemma pages_needed:
  assumes "0 < sz" "sz < 2 ^ 63"
  shows "wsub (wadd sz PAGE_SIZE) 1 div PAGE_SIZE > 0"
  using assms by (simp add: wadd_exact wsub_exact div_greater_zero_iff)

lemma record_ok_mono:
  "record_ok ph r \<Longrightarrow> fa_extent (ph_frames ph') = fa_extent (ph_frames ph) \<Longrightarrow>
   fa_free (ph_frames ph') \<inter> set (snd (snd r)) = {} \<Longrightarrow> record_ok ph' r"
  by (auto simp: record_ok_def)

lemma large_alloc_spec:
  assumes "heap_ok hs" "0 < sz" "sz < 2 ^ 63"
  shows "\<exists>hs' q. large_alloc hs sz al = Some (hs', q) \<and> heap_ok hs' \<and> hp_buddy hs' = hp_buddy hs \<and>
    (case q of
       None \<Rightarrow> hp_large hs' = hp_large hs \<and> fa_free (ph_frames (hp_phys hs')) = fa_free (ph_frames (hp_phys hs))
     | Some p \<Rightarrow> \<exists>ps. hp_large hs' = hp_large hs @ [(p, sz, ps)] \<and> p \<in> set ps \<and>
          set ps \<subseteq> fa_free (ph_frames (hp_phys hs)) \<and>
          fa_free (ph_frames (hp_phys hs')) = fa_free (ph_frames (hp_phys hs)) - set ps)"
proof -
  let ?ph = "hp_phys hs"
  have ok: "phys_ok ?ph" "list_all (record_ok ?ph) (hp_large hs)"
      "distinct (concat (map (snd \<circ> snd) (hp_large hs)))"
    using assms(1) by (auto simp: heap_ok_def)
  define n where "n = wsub (wadd sz PAGE_SIZE) 1 div PAGE_SIZE"
  have n: "n > 0" unfolding n_def using assms(2,3) by (rule pages_needed)
  obtain ph' q where fr: "frame_alloc_much ?ph n = Some (ph', q)" "phys_ok ph'"
      "fa_extent (ph_frames ph') = fa_extent (ph_frames ?ph)"
      "case q of None \<Rightarrow> ph' = ?ph | Some ps \<Rightarrow> length ps = n \<and> distinct ps \<and> set ps \<subseteq> fa_free (ph_frames ?ph) \<and>
                  fa_free (ph_frames ph') = fa_free (ph_frames ?ph) - set ps"
    using frame_alloc_much_phys [OF ok(1) n] by blast
  show ?thesis
  proof (cases q)
    case None
    with fr have "large_alloc hs sz al = Some (hs, None)"
      unfolding large_alloc_def Let_def n_def [symmetric] by simp
    with assms(1) show ?thesis by simp
  next
    case (Some ps)
    then obtain p rest where ps: "ps = p # rest" "distinct ps" "set ps \<subseteq> fa_free (ph_frames ?ph)"
        "fa_free (ph_frames ph') = fa_free (ph_frames ?ph) - set ps"
      using fr(4) n by (cases ps) auto
    have used: "set (snd (snd r)) \<inter> fa_free (ph_frames ?ph) = {}" if "r \<in> set (hp_large hs)" for r
      using ok(2) that by (auto simp: list_all_iff record_ok_def)
    have ext: "set ps \<subseteq> fa_extent (ph_frames ?ph)"
      using ps(3) phl.avail_extent [OF ok(1)] by blast
    show ?thesis
    proof (cases "unat ((word_of_nat (wsub (wadd p al) 1) :: u64) AND NOT (word_of_nat (wsub al 1))) = p")
      case False
      obtain ph2 where ph2: "release_all frame_drop ph' ps = Some ph2" "phys_ok ph2"
          "fa_free (ph_frames ph2) = set ps \<union> fa_free (ph_frames ph')"
          "fa_extent (ph_frames ph2) = fa_extent (ph_frames ph')"
        using phl.release_all_give [OF fr(2)] ext fr(3) by blast
      have same: "fa_free (ph_frames ph2) = fa_free (ph_frames ?ph)"
        using ph2(3) ps(3,4) by blast
      have "large_alloc hs sz al = Some (hs\<lparr>hp_phys := ph2\<rparr>, None)"
        using fr(1) Some False ph2(1) ps(1) unfolding large_alloc_def Let_def n_def [symmetric]
        by (simp del: release_all.simps One_nat_def)
      moreover have "heap_ok (hs\<lparr>hp_phys := ph2\<rparr>)"
        using ok ph2(2,4) same fr(3) by (auto simp: heap_ok_def list_all_iff record_ok_def)
      ultimately show ?thesis using same by simp
    next
      case True
      let ?hs' = "hs\<lparr>hp_phys := ph', hp_large := hp_large hs @ [(p, sz, ps)]\<rparr>"
      have al: "large_alloc hs sz al = Some (?hs', Some p)"
        using fr(1) Some True ps(1) unfolding large_alloc_def Let_def n_def [symmetric]
        by (simp del: One_nat_def)
      have "list_all (record_ok ph') (hp_large hs)"
        unfolding list_all_iff
      proof
        fix r assume r: "r \<in> set (hp_large hs)"
        then have rk: "record_ok ?ph r" using ok(2) by (simp add: list_all_iff)
        show "record_ok ph' r"
          using used [OF r] ps(4) by (intro record_ok_mono [OF rk fr(3)]) blast
      qed
      moreover have "record_ok ph' (p, sz, ps)"
        using ps(4) ext fr(3) unfolding record_ok_def by (simp add: ps(1)) blast
      moreover have "set ps \<inter> set (concat (map (snd \<circ> snd) (hp_large hs))) = {}"
      proof -
        have "set ps \<inter> set (snd (snd r)) = {}" if "r \<in> set (hp_large hs)" for r
          using used [OF that] ps(3) by blast
        then show ?thesis by (simp add: Int_UN_distrib)
      qed
      ultimately have "heap_ok ?hs'"
        using ok(3) fr(2) ps(2) unfolding heap_ok_def by (simp add: Int_commute)
      then show ?thesis
        using al ps(3,4) ps(1) by (intro exI [of _ ?hs'] exI [of _ "Some p"]) simp
    qed
  qed
qed

lemma find_last_record:
  assumes "list_all (record_ok ph) L" "distinct (concat (map (snd \<circ> snd) (L @ [(p, sz, ps)])))" "p \<in> set ps"
  shows "find (\<lambda>i. fst ((L @ [(p, sz, ps)]) ! i) = p \<and> fst (snd ((L @ [(p, sz, ps)]) ! i)) = sz)
           [0 ..< length (L @ [(p, sz, ps)])] = Some (length L)"
proof -
  have "fst (L ! i) \<noteq> p" if "i < length L" for i
  proof
    assume "fst (L ! i) = p"
    moreover have mem: "L ! i \<in> set L" using that by simp
    ultimately have "p \<in> set (snd (snd (L ! i)))"
      using assms(1) hd_in_set by (fastforce simp: list_all_iff record_ok_def)
    with assms(2,3) mem show False by auto
  qed
  then show ?thesis by (simp add: find_upt_Some nth_append del: upt_Suc)
qed

lemma large_dealloc_last:
  assumes "heap_ok hs" "hp_large hs = L @ [(p, sz, ps)]" "p \<in> set ps"
  shows "\<exists>hs'. large_dealloc hs p sz = Some hs' \<and> heap_ok hs' \<and> hp_large hs' = L \<and>
    hp_buddy hs' = hp_buddy hs \<and>
    fa_free (ph_frames (hp_phys hs')) = set ps \<union> fa_free (ph_frames (hp_phys hs))"
proof -
  let ?ph = "hp_phys hs"
  have ok: "phys_ok ?ph" "list_all (record_ok ?ph) L" "record_ok ?ph (p, sz, ps)"
      "distinct (concat (map (snd \<circ> snd) (L @ [(p, sz, ps)])))"
    using assms(1,2) by (simp_all add: heap_ok_def)
  obtain ph' where ph': "release_all frame_drop ?ph ps = Some ph'" "phys_ok ph'"
      "fa_free (ph_frames ph') = set ps \<union> fa_free (ph_frames ?ph)"
      "fa_extent (ph_frames ph') = fa_extent (ph_frames ?ph)"
    using phl.release_all_give [OF ok(1), of ps] ok(3) by (auto simp: record_ok_def)
  let ?hs' = "hs\<lparr>hp_phys := ph', hp_large := L\<rparr>"
  have "large_dealloc hs p sz = remove_large hs (length L)"
    using find_last_record [OF ok(2,4) assms(3)]
    by (simp add: large_dealloc_def assms(2) del: upt_Suc length_append)
  also have "\<dots> = Some ?hs'" by (simp add: remove_large_def assms(2) ph'(1))
  finally have de: "large_dealloc hs p sz = Some ?hs'" .
  have "record_ok ph' r" if r: "r \<in> set L" for r
  proof (rule record_ok_mono [OF _ ph'(4)])
    show rk: "record_ok ?ph r" using ok(2) r by (simp add: list_all_iff)
    have "set ps \<inter> set (snd (snd r)) = {}" using ok(4) r by auto
    then show "fa_free (ph_frames ph') \<inter> set (snd (snd r)) = {}"
      using rk unfolding ph'(3) record_ok_def by blast
  qed
  then have "heap_ok ?hs'"
    using ok(4) ph'(2) by (simp add: heap_ok_def list_all_iff)
  with de ph'(3) show ?thesis by simp
qed

lemma page_aligned_pow2:
  assumes "p mod PAGE_SIZE = 0" "k \<le> 12"
  shows "p mod 2 ^ k = 0"
proof -
  have "(2::nat) ^ k dvd 2 ^ 12" using assms(2) by (rule le_imp_power_dvd)
  moreover have "2 ^ 12 dvd p" using assms(1) by (simp add: mod_eq_0_iff_dvd)
  ultimately have "2 ^ k dvd p" by (rule dvd_trans)
  then show ?thesis by simp
qed

lemma large_alloc_aligned:
  assumes "phys_ok (hp_phys hs)" "0 < sz" "sz < 2 ^ 63" "k \<le> 12"
    and "\<exists>r \<in> set (ph_frames (hp_phys hs)). \<exists>p.
           set (frame_run p (wsub (wadd sz PAGE_SIZE) 1 div PAGE_SIZE)) \<subseteq> region_free r"
  shows "\<exists>hs' p. large_alloc hs sz (2 ^ k) = Some (hs', Some p) \<and> p \<in> fa_free (ph_frames (hp_phys hs))"
proof -
  define n where "n = wsub (wadd sz PAGE_SIZE) 1 div PAGE_SIZE"
  have n: "n > 0" unfolding n_def using assms(2,3) by (rule pages_needed)
  have fok: "fa_ok (ph_frames (hp_phys hs))" using assms(1) by (simp add: phys_ok_def)
  obtain fa' p where fa': "fa_alloc_much (ph_frames (hp_phys hs)) n = Some (fa', Some (frame_run p n))"
      "set (frame_run p n) \<subseteq> fa_free (ph_frames (hp_phys hs))"
    using fa_alloc_much_run [OF fok n] assms(5) unfolding n_def by blast
  have run: "frame_run p n = p # tl (frame_run p n)"
    using n by (cases n) (simp_all add: frame_run_def upt_conv_Cons del: upt_Suc)
  then have p: "p \<in> fa_free (ph_frames (hp_phys hs))" using fa'(2) by (metis list.set_intros(1) subsetD)
  then obtain r where r: "region_ok r" "p \<in> region_free r"
    using fa_ok_regions [OF fok] by (auto simp: fa_free_def)
  have "p + 2 ^ k \<le> p + 2 ^ 12" using assms(4) by (simp only: add_le_cancel_left power_increasing_iff)
  also have "\<dots> \<le> 2 ^ 64"
    using region_free_extent(2) [OF r] r(1) by (simp add: region_ok_def)
  finally have al: "unat ((word_of_nat (wsub (wadd p (2 ^ k)) 1) :: u64) AND NOT (word_of_nat (wsub (2 ^ k) 1))) = p"
    using page_aligned_pow2 [OF region_free_extent(3) [OF r] assms(4)] by (intro align_up_aligned)
  have "frame_alloc_much (hp_phys hs) n = Some ((hp_phys hs)\<lparr>ph_frames := fa'\<rparr>, Some (p # tl (frame_run p n)))"
    using fa'(1) run by (simp add: frame_alloc_much_def)
  with al p show ?thesis
    unfolding large_alloc_def Let_def n_def [symmetric] by (simp del: One_nat_def)
qed

section \<open>Properties\<close>

text \<open>A pool over 128 free frames, with a buddy heap that refuses everything.\<close>

definition demo_heap :: "unit heap_state" where
  "demo_heap = \<lparr>hp_phys = \<lparr>ph_frames = [\<lparr>fr_bits = [0, 0], fr_paddr = 0x80000000, fr_paddr_end = 0x80080000\<rparr>],
                            ph_mem = \<lambda>_. 0\<rparr>,
                hp_large = [], hp_buddy = ()\<rparr>"

lemma demo_heap_bits: "free_bits [0, 0] = {..< 128}"
proof (intro set_eqI)
  fix i
  have "(i :: nat) div 64 < 2 \<longleftrightarrow> i < 128" by linarith
  moreover have "[0, 0 :: u64] ! k = 0" if "k < 2" for k
    using that by (auto simp: numeral_2_eq_2 less_Suc_eq)
  ultimately show "i \<in> free_bits [0, 0] \<longleftrightarrow> i \<in> {..< 128}"
    by (auto simp: free_bits_def numeral_2_eq_2)
qed

lemma demo_heap_ok: "heap_ok demo_heap"
  by (simp add: demo_heap_def heap_ok_def phys_ok_def region_ok_def demo_heap_bits div_ceil_def)

lemma demo_heap_run:
  "\<exists>r \<in> set (ph_frames (hp_phys demo_heap)). \<exists>p. set (frame_run p 74) \<subseteq> region_free r"
  by (auto simp: demo_heap_def region_free_def demo_heap_bits frame_run_def intro!: exI [of _ "0x80000000"])

text \<open>C29: freeing a large object that the pool served (the buddy heap having refused it)
  restores the pool's records and the set of free frames, for an object outside the static
  heap array.\<close>

theorem heap_large_roundtrip:
  assumes "heap_ok hs" "LARGE_ALLOC_THRESHOLD < sz" "sz < 2 ^ 63"
    and "buddy_alloc (hp_buddy hs) sz al = (b, 0)"
    and "heap_alloc buddy_alloc hs sz al = Some (hs1, p)" "p \<noteq> 0"
    and "\<not> (heap_start \<le> p \<and> p < wadd heap_start heap_size)"
  shows "\<exists>hs2. heap_dealloc buddy_dealloc heap_start heap_size hs1 p sz al = Some hs2 \<and> heap_ok hs2 \<and>
    hp_large hs2 = hp_large hs \<and> fa_free (ph_frames (hp_phys hs2)) = fa_free (ph_frames (hp_phys hs))"
proof -
  let ?hs = "hs\<lparr>hp_buddy := b\<rparr>"
  have ok: "heap_ok ?hs" using assms(1) by (simp add: heap_ok_def)
  have "0 < sz" using assms(2) by simp
  from large_alloc_spec [OF ok this assms(3), of al] obtain hs' q where
    q: "large_alloc ?hs sz al = Some (hs', q)" "heap_ok hs'"
      "case q of None \<Rightarrow> True | Some p \<Rightarrow> \<exists>ps. hp_large hs' = hp_large hs @ [(p, sz, ps)] \<and> p \<in> set ps \<and>
         set ps \<subseteq> fa_free (ph_frames (hp_phys hs)) \<and>
         fa_free (ph_frames (hp_phys hs')) = fa_free (ph_frames (hp_phys hs)) - set ps"
    by (auto split: option.splits)
  have "q = Some p" "hs1 = hs'"
    using assms(2,4,5,6) q(1) by (auto simp: heap_alloc_def Let_def split: option.splits)
  with q(3) obtain ps where ps: "hp_large hs' = hp_large hs @ [(p, sz, ps)]" "p \<in> set ps"
      "set ps \<subseteq> fa_free (ph_frames (hp_phys hs))"
      "fa_free (ph_frames (hp_phys hs')) = fa_free (ph_frames (hp_phys hs)) - set ps"
    by auto
  obtain hs2 where hs2: "large_dealloc hs' p sz = Some hs2" "heap_ok hs2" "hp_large hs2 = hp_large hs"
      "fa_free (ph_frames (hp_phys hs2)) = set ps \<union> fa_free (ph_frames (hp_phys hs'))"
    using large_dealloc_last [OF q(2) ps(1,2)] by blast
  have "fa_free (ph_frames (hp_phys hs2)) = fa_free (ph_frames (hp_phys hs))"
    unfolding hs2(4) ps(4) using ps(3) by blast
  then show ?thesis
    using hs2 assms(6,7) \<open>hs1 = hs'\<close> by (auto simp: heap_dealloc_def)
qed

theorem heap_large_roundtrip_witness:
  "\<exists>hs1 p hs2. heap_alloc (\<lambda>b sz al. (b, 0)) demo_heap 300000 8 = Some (hs1, p) \<and>
    heap_dealloc (\<lambda>b ptr sz al. b) 0xffffffc081000000 0x20000000 hs1 p 300000 8 = Some hs2 \<and>
    heap_ok hs2 \<and> hp_large hs2 = [] \<and>
    fa_free (ph_frames (hp_phys hs2)) = fa_free (ph_frames (hp_phys demo_heap))"
proof -
  have ok: "phys_ok (hp_phys demo_heap)" using demo_heap_ok by (simp add: heap_ok_def)
  obtain hs1 p where al: "large_alloc demo_heap 300000 (2 ^ 3) = Some (hs1, Some p)"
      "p \<in> fa_free (ph_frames (hp_phys demo_heap))"
    using large_alloc_aligned [OF ok, of 300000 3] demo_heap_run
    by (auto simp: wadd_def wsub_def)
  have p: "0x80000000 \<le> p" "p < 0x80080000"
    using al(2) by (auto simp: demo_heap_def region_free_def demo_heap_bits)
  have h: "heap_alloc (\<lambda>b sz al. (b, 0)) demo_heap 300000 8 = Some (hs1, p)"
    using al(1) by (simp add: heap_alloc_def demo_heap_def)
  show ?thesis
    using heap_large_roundtrip [of demo_heap 300000 "\<lambda>b sz al. (b, 0)" 8 "()" hs1 p "0xffffffc081000000" "0x20000000" "\<lambda>b ptr sz al. b"]
      demo_heap_ok h p
    by (simp add: demo_heap_def)
qed

text \<open>The pool serves a request aligned to at most a page whenever a contiguous run of
  enough frames is free; it never gives up because of the alignment check.\<close>

theorem large_alloc_page_aligned:
  assumes "heap_ok hs" "0 < sz" "sz < 2 ^ 63" "k \<le> 12"
    and "\<exists>r \<in> set (ph_frames (hp_phys hs)). \<exists>p.
           set (frame_run p (wsub (wadd sz PAGE_SIZE) 1 div PAGE_SIZE)) \<subseteq> region_free r"
  shows "\<exists>hs' p. large_alloc hs sz (2 ^ k) = Some (hs', Some p) \<and> heap_ok hs'"
proof -
  obtain hs' p where al: "large_alloc hs sz (2 ^ k) = Some (hs', Some p)"
    using large_alloc_aligned [OF _ assms(2-5)] assms(1) by (auto simp: heap_ok_def)
  then have "heap_ok hs'"
    using large_alloc_spec [OF assms(1-3), of "2 ^ k"] by auto
  with al show ?thesis by blast
qed

theorem large_alloc_page_aligned_witness:
  "\<exists>hs' p. large_alloc demo_heap 300000 (2 ^ 3) = Some (hs', Some p) \<and> heap_ok hs'"
  by (rule large_alloc_page_aligned)
    (use demo_heap_ok demo_heap_run in \<open>simp_all add: wadd_def wsub_def\<close>)

end
