(* ===== verification/Inode.thy ===== *)
theory Inode
  imports Prelude
begin

unbundle bit_operations_syntax

text \<open>
  The virtual file system's vocabulary, \<open>filesystem/vfscore/src/lib.rs\<close> (flags, file types, times),
  and the contract between an inode that stores bytes and the code that reads and writes it at
  offsets.

  The locale \<open>positional_file\<close> is that contract: reading returns the bytes stored at an offset,
  writing is the usual positional write on the byte string, as long as there is room.  Its
  client lemmas (reading back what was written, composing adjacent writes) are used by the
  open-file layer.
\<close>

section \<open>Flags and types\<close>

type_synonym open_flags = u64

abbreviation O_RDONLY :: open_flags where "O_RDONLY \<equiv> 0"
abbreviation O_WRONLY :: open_flags where "O_WRONLY \<equiv> 1"
abbreviation O_RDWR :: open_flags where "O_RDWR \<equiv> 2"
abbreviation O_CREAT :: open_flags where "O_CREAT \<equiv> 64"
abbreviation O_EXCL :: open_flags where "O_EXCL \<equiv> 128"
abbreviation O_TRUNC :: open_flags where "O_TRUNC \<equiv> 512"
abbreviation O_APPEND :: open_flags where "O_APPEND \<equiv> 1024"
abbreviation O_NONBLOCK :: open_flags where "O_NONBLOCK \<equiv> 2048"
abbreviation O_DIRECTORY :: open_flags where "O_DIRECTORY \<equiv> 65536"
abbreviation O_CLOEXEC :: open_flags where "O_CLOEXEC \<equiv> 524288"

definition flags_contain :: "open_flags \<Rightarrow> open_flags \<Rightarrow> bool" where
  "flags_contain a b \<longleftrightarrow> a AND b = b"

datatype file_type = FtFile | FtDirectory | FtDevice | FtSocket | FtLink

text \<open>\<open>From<StatMode> for FileType\<close>; \<open>None\<close> is the \<open>unreachable!\<close> arm.\<close>

definition file_type_of_mode :: "32 word \<Rightarrow> file_type run" where
  "file_type_of_mode mode =
     (let t = mode AND 0xF000
      in if t = 0xC000 then Some FtSocket
         else if t = 0xA000 then Some FtLink
         else if t = 0x8000 then Some FtFile
         else if t = 0x6000 then Some FtDevice
         else if t = 0x4000 then Some FtDirectory
         else if t = 0x2000 then Some FtDevice
         else if t = 0x1000 then Some FtDevice
         else None)"

record time_spec =
  ts_sec :: usize
  ts_nsec :: usize

abbreviation UTIME_NOW :: usize where "UTIME_NOW \<equiv> 0x3fffffff"
abbreviation UTIME_OMIT :: usize where "UTIME_OMIT \<equiv> 0x3ffffffe"

definition to_nsec :: "time_spec \<Rightarrow> usize" where
  "to_nsec t = wadd (wmul (ts_sec t) 1000000000) (ts_nsec t)"

record dir_entry =
  de_filename :: string
  de_len :: usize
  de_file_type :: file_type

section \<open>Byte strings\<close>

definition spec_read :: "u8 list \<Rightarrow> nat \<Rightarrow> u8 list \<Rightarrow> u8 list \<times> usize res" where
  "spec_read bs off buf =
     (slice_set buf 0 (take (length buf) (drop off bs)), Ok (min (length buf) (length bs - off)))"

definition spec_write :: "u8 list \<Rightarrow> nat \<Rightarrow> u8 list \<Rightarrow> u8 list" where
  "spec_write bs off buf = slice_set (bs @ replicate (off + length buf - length bs) 0) off buf"

definition spec_truncate :: "u8 list \<Rightarrow> nat \<Rightarrow> u8 list" where
  "spec_truncate bs n = take n bs @ replicate (n - length bs) 0"

lemma length_spec_write: "length (spec_write bs off buf) = max (length bs) (off + length buf)"
  by (simp add: spec_write_def)

lemma nth_spec_write:
  assumes "i < max (length bs) (off + length buf)"
  shows "spec_write bs off buf ! i =
    (if off \<le> i \<and> i < off + length buf then buf ! (i - off) else if i < length bs then bs ! i else 0)"
  using assms unfolding spec_write_def by (subst nth_slice_set) (auto simp: nth_append)

lemma spec_write_append:
  "spec_write (spec_write bs off a) (off + length a) b = spec_write bs off (a @ b)"
proof (rule nth_equalityI)
  fix i assume "i < length (spec_write (spec_write bs off a) (off + length a) b)"
  then have i: "i < max (max (length bs) (off + length a)) (off + length a + length b)"
    by (simp add: length_spec_write)
  then have i2: "i < max (length bs) (off + length (a @ b))" by auto
  show "spec_write (spec_write bs off a) (off + length a) b ! i = spec_write bs off (a @ b) ! i"
    unfolding nth_spec_write [OF i2]
    by (subst nth_spec_write) (use i in \<open>auto simp: length_spec_write nth_spec_write nth_append\<close>)
qed (auto simp: length_spec_write)

lemma spec_read_written:
  assumes "length buf = length data"
  shows "spec_read (spec_write bs off data) off buf = (data, Ok (length data))"
proof -
  have "take (length data) (drop off (spec_write bs off data)) = data"
    by (rule nth_equalityI) (auto simp: length_spec_write nth_spec_write)
  with assms show ?thesis by (simp add: spec_read_def length_spec_write slice_set_def)
qed

section \<open>The contract\<close>

locale positional_file =
  fixes readat :: "'s \<Rightarrow> usize \<Rightarrow> u8 list \<Rightarrow> u8 list \<times> usize res"
    and writeat :: "'s \<Rightarrow> usize \<Rightarrow> u8 list \<Rightarrow> ('s \<times> usize res) run"
    and content :: "'s \<Rightarrow> u8 list"
    and room :: "'s \<Rightarrow> usize \<Rightarrow> bool"
    and inv :: "'s \<Rightarrow> bool"
  assumes read_content: "inv s \<Longrightarrow> readat s off buf = spec_read (content s) off buf"
    and write_content: "inv s \<Longrightarrow> room s (off + length buf) \<Longrightarrow>
      \<exists>s'. writeat s off buf = Some (s', Ok (length buf)) \<and> inv s' \<and>
        content s' = spec_write (content s) off buf"
begin

lemma write_read_back:
  assumes "inv s" "room s (off + length data)" "length buf = length data"
  shows "\<exists>s'. writeat s off data = Some (s', Ok (length data)) \<and> inv s' \<and>
    readat s' off buf = (data, Ok (length data))"
proof -
  obtain s' where "writeat s off data = Some (s', Ok (length data))" "inv s'"
      "content s' = spec_write (content s) off data"
    using write_content [OF assms(1,2)] by blast
  then show ?thesis by (simp add: read_content spec_read_written [OF assms(3)])
qed

lemma read_never_fails: "inv s \<Longrightarrow> \<exists>buf' n. readat s off buf = (buf', Ok n)"
  by (simp add: read_content spec_read_def)

end

text \<open>Room that is there stays there: a smaller end offset also has room, and writing keeps it.\<close>

locale roomy_file = positional_file +
  assumes room_down: "room s e \<Longrightarrow> e' \<le> e \<Longrightarrow> room s e'"
    and room_keep: "inv s \<Longrightarrow> room s (off + length buf) \<Longrightarrow> room s e \<Longrightarrow> writeat s off buf = Some (s', r) \<Longrightarrow> room s' e"

end
