(* ===== verification/RamFile.thy ===== *)
theory RamFile
  imports Frames Inode
begin

text \<open>
  Regular files of the RAM file system, \<open>RamFile\<close> in \<open>filesystem/ramfs/src/lib.rs\<close>: a length and
  a vector of page frames, read and written page by page in physical memory.

  The abstraction of a file is its byte string.  On a well-formed file (the pages are
  distinct allocated frames that cover the length, and every byte past the length is zero)
  reading, writing and truncating are the usual operations on that string as long as the
  frame allocator can supply the pages; the lemmas about exhausted memory show what happens
  otherwise.
\<close>

section \<open>The file\<close>

record ram_file =
  rf_name :: string
  rf_len :: usize
  rf_pages :: "usize list"
  rf_times :: "time_spec list"

definition ram_file_new :: "string \<Rightarrow> ram_file" where
  "ram_file_new name =
     \<lparr>rf_name = name, rf_len = 0, rf_pages = [], rf_times = replicate 3 \<lparr>ts_sec = 0, ts_nsec = 0\<rparr>\<rparr>"

text \<open>\<open>slice_with_len\<close> and \<open>copy_from_slice\<close> on physical memory.\<close>

definition mem_slice :: "(usize \<Rightarrow> u8) \<Rightarrow> usize \<Rightarrow> usize \<Rightarrow> u8 list" where
  "mem_slice mem a n = map mem [a ..< a + n]"

definition mem_store :: "(usize \<Rightarrow> u8) \<Rightarrow> usize \<Rightarrow> u8 list \<Rightarrow> usize \<Rightarrow> u8" where
  "mem_store mem a bs = (\<lambda>x. if a \<le> x \<and> x < a + length bs then bs ! (x - a) else mem x)"

text \<open>The read loop; the result is what ends up at the front of the buffer, \<open>None\<close> an index past
  the page vector.\<close>

function rf_read_loop :: "(usize \<Rightarrow> u8) \<Rightarrow> usize list \<Rightarrow> usize \<Rightarrow> usize \<Rightarrow> u8 list run" where
  "rf_read_loop mem pages offset last_len =
     (let curr_size = min (PAGE_SIZE - offset mod PAGE_SIZE) last_len
      in if curr_size = 0 then Some []
         else if offset div PAGE_SIZE < length pages
         then map_option ((@) (mem_slice mem (pages ! (offset div PAGE_SIZE) + offset mod PAGE_SIZE) curr_size))
                (rf_read_loop mem pages (offset + curr_size) (last_len - curr_size))
         else None)"
  by pat_completeness auto
termination
  by (relation "measure (\<lambda>(mem, pages, offset, last_len). last_len)") auto

declare rf_read_loop.simps [simp del]

definition rf_readat :: "phys \<Rightarrow> ram_file \<Rightarrow> usize \<Rightarrow> u8 list \<Rightarrow> u8 list \<times> usize res" where
  "rf_readat ph f offset buffer =
     (if offset \<ge> rf_len f then (buffer, Ok 0)
      else let read_len = min (length buffer) (rf_len f - offset)
           in case rf_read_loop (ph_mem ph) (rf_pages f) offset read_len of
                None \<Rightarrow> (buffer, Panic)
              | Some bs \<Rightarrow> (slice_set buffer 0 bs, Ok read_len))"

text \<open>The write loop on the bytes still to be written; it stops early at an index past the page
  vector.\<close>

function rf_write_loop ::
  "(usize \<Rightarrow> u8) \<Rightarrow> usize list \<Rightarrow> usize \<Rightarrow> u8 list \<Rightarrow> (usize \<Rightarrow> u8) \<times> usize" where
  "rf_write_loop mem pages write_offset bs =
     (let curr_size = min (PAGE_SIZE - write_offset mod PAGE_SIZE) (length bs)
      in if curr_size = 0 then (mem, write_offset)
         else if length pages \<le> write_offset div PAGE_SIZE then (mem, write_offset)
         else rf_write_loop
                (mem_store mem (pages ! (write_offset div PAGE_SIZE) + write_offset mod PAGE_SIZE) (take curr_size bs))
                pages (write_offset + curr_size) (drop curr_size bs))"
  by pat_completeness auto
termination
  by (relation "measure (\<lambda>(mem, pages, write_offset, bs). length bs)") auto

declare rf_write_loop.simps [simp del]

definition rf_writeat :: "phys \<Rightarrow> ram_file \<Rightarrow> usize \<Rightarrow> u8 list \<Rightarrow> (phys \<times> ram_file \<times> usize res) run" where
  "rf_writeat ph f offset buffer =
     (let pages = div_ceil (wadd offset (length buffer)) PAGE_SIZE
      in case grow frame_alloc (pages - length (rf_pages f)) ph (rf_pages f) of
           None \<Rightarrow> None
         | Some (ph, inner, complete) \<Rightarrow>
             if \<not> complete \<and> length inner = length (rf_pages f)
             then Some (ph, f\<lparr>rf_pages := inner\<rparr>, Err ENOMEM)
             else let available_space = length inner * PAGE_SIZE;
                      max_writable = (if offset < available_space then available_space - offset else 0);
                      actual_write_size = min (length buffer) max_writable;
                      (mem, write_offset) = rf_write_loop (ph_mem ph) inner offset (take actual_write_size buffer)
                  in Some (ph\<lparr>ph_mem := mem\<rparr>,
                           f\<lparr>rf_pages := inner, rf_len := (if write_offset > rf_len f then write_offset else rf_len f)\<rparr>,
                           Ok actual_write_size))"

text \<open>\<open>truncate\<close>: the new length first, then the pages past it are cleared (and kept), then the
  tail of its last page, then missing pages are added.\<close>

definition rf_clear_tail :: "(usize \<Rightarrow> u8) \<Rightarrow> usize list \<Rightarrow> usize \<Rightarrow> usize \<Rightarrow> u8" where
  "rf_clear_tail mem pages sz =
     (let target_pages = div_ceil sz PAGE_SIZE;
          mem = foldl (\<lambda>m p. mem_store m p (replicate PAGE_SIZE 0)) mem (drop target_pages pages)
      in if sz mod PAGE_SIZE \<noteq> 0 \<and> sz div PAGE_SIZE < length pages
         then mem_store mem (pages ! (sz div PAGE_SIZE) + sz mod PAGE_SIZE)
                (replicate (PAGE_SIZE - sz mod PAGE_SIZE) 0)
         else mem)"

definition rf_truncate :: "phys \<Rightarrow> ram_file \<Rightarrow> usize \<Rightarrow> (phys \<times> ram_file \<times> unit res) run" where
  "rf_truncate ph f sz =
     (let f = f\<lparr>rf_len := sz\<rparr>;
          ph = ph\<lparr>ph_mem := rf_clear_tail (ph_mem ph) (rf_pages f) sz\<rparr>
      in map_option (\<lambda>(ph, inner, complete).
             (ph, f\<lparr>rf_pages := inner\<rparr>, if complete then Ok () else Err ENOMEM))
           (grow frame_alloc (div_ceil sz PAGE_SIZE - length (rf_pages f)) ph (rf_pages f)))"

definition rf_utimes :: "ram_file \<Rightarrow> time_spec list \<Rightarrow> ram_file run" where
  "rf_utimes f tms =
     (if length tms < 2 then None
      else let f = (if ts_nsec (tms ! 0) \<noteq> UTIME_OMIT then f\<lparr>rf_times := (rf_times f)[1 := tms ! 0]\<rparr> else f);
               f = (if ts_nsec (tms ! 1) \<noteq> UTIME_OMIT then f\<lparr>rf_times := (rf_times f)[2 := tms ! 1]\<rparr> else f)
           in Some f)"

text \<open>The last reference to a file drops its frames.\<close>

definition rf_drop :: "phys \<Rightarrow> ram_file \<Rightarrow> phys run" where
  "rf_drop ph f = release_all frame_drop ph (rf_pages f)"

section \<open>The byte string of a file\<close>

definition page_byte :: "usize list \<Rightarrow> usize \<Rightarrow> usize" where
  "page_byte pages i = pages ! (i div PAGE_SIZE) + i mod PAGE_SIZE"

definition rf_bytes :: "phys \<Rightarrow> ram_file \<Rightarrow> u8 list" where
  "rf_bytes ph f = map (\<lambda>i. ph_mem ph (page_byte (rf_pages f) i)) [0 ..< rf_len f]"

definition pages_ok :: "usize list \<Rightarrow> bool" where
  "pages_ok pages \<longleftrightarrow> distinct pages \<and> (\<forall>p \<in> set pages. p mod PAGE_SIZE = 0)"

definition rf_ok :: "phys \<Rightarrow> ram_file \<Rightarrow> bool" where
  "rf_ok ph f \<longleftrightarrow> phys_ok ph \<and> pages_ok (rf_pages f) \<and>
     set (rf_pages f) \<subseteq> fa_extent (ph_frames ph) - fa_free (ph_frames ph) \<and>
     rf_len f \<le> length (rf_pages f) * PAGE_SIZE \<and>
     (\<forall>i. rf_len f \<le> i \<and> i < length (rf_pages f) * PAGE_SIZE \<longrightarrow> ph_mem ph (page_byte (rf_pages f) i) = 0)"

section \<open>Addresses\<close>

lemma page_index_less: "i < n * PAGE_SIZE \<Longrightarrow> i div PAGE_SIZE < n"
  by (simp add: less_mult_imp_div_less)

lemma page_index_step:
  assumes "a mod PAGE_SIZE + k < PAGE_SIZE"
  shows "(a + k) div PAGE_SIZE = a div PAGE_SIZE" "(a + k) mod PAGE_SIZE = a mod PAGE_SIZE + k"
proof -
  have e: "a + k = a div PAGE_SIZE * PAGE_SIZE + (a mod PAGE_SIZE + k)"
    by (metis add.assoc div_mult_mod_eq)
  show "(a + k) div PAGE_SIZE = a div PAGE_SIZE"
    unfolding e using assms by (subst div_mult_self3) simp_all
  show "(a + k) mod PAGE_SIZE = a mod PAGE_SIZE + k"
    unfolding e using assms by (subst mod_mult_self3) simp
qed

lemma page_byte_step:
  assumes "a \<le> i" "a mod PAGE_SIZE + (i - a) < PAGE_SIZE"
  shows "page_byte pages i = page_byte pages a + (i - a)"
  using page_index_step [OF assms(2)] assms(1) by (simp add: page_byte_def add.assoc)

lemma page_byte_page:
  assumes "pages_ok pages" "i < length pages * PAGE_SIZE"
  shows "page_byte pages i mod PAGE_SIZE = i mod PAGE_SIZE"
    and "page_byte pages i - i mod PAGE_SIZE = pages ! (i div PAGE_SIZE)"
    and "pages ! (i div PAGE_SIZE) \<in> set pages"
proof -
  show mem: "pages ! (i div PAGE_SIZE) \<in> set pages"
    using page_index_less [OF assms(2)] by simp
  then have "pages ! (i div PAGE_SIZE) mod PAGE_SIZE = 0" using assms(1) by (simp add: pages_ok_def)
  then show "page_byte pages i mod PAGE_SIZE = i mod PAGE_SIZE"
    by (simp add: page_byte_def mod_add_eq [symmetric])
qed (simp add: page_byte_def)

lemma page_byte_inj:
  assumes "pages_ok pages" "i < length pages * PAGE_SIZE" "j < length pages * PAGE_SIZE"
    and "page_byte pages i = page_byte pages j"
  shows "i = j"
proof -
  have m: "i mod PAGE_SIZE = j mod PAGE_SIZE"
    using page_byte_page(1) [OF assms(1,2)] page_byte_page(1) [OF assms(1,3)] assms(4) by simp
  have "pages ! (i div PAGE_SIZE) = pages ! (j div PAGE_SIZE)"
    using page_byte_page(2) [OF assms(1,2)] page_byte_page(2) [OF assms(1,3)] assms(4) m by simp
  then have "i div PAGE_SIZE = j div PAGE_SIZE"
    using assms(1) page_index_less [OF assms(2)] page_index_less [OF assms(3)]
    by (simp add: pages_ok_def nth_eq_iff_index_eq)
  with m show ?thesis by (metis div_mult_mod_eq)
qed

section \<open>The loops\<close>

lemma mem_slice_chunk:
  assumes "a mod PAGE_SIZE + c \<le> PAGE_SIZE"
  shows "mem_slice mem (page_byte pages a) c = map (\<lambda>i. mem (page_byte pages i)) [a ..< a + c]"
proof (rule nth_equalityI)
  fix k assume "k < length (mem_slice mem (page_byte pages a) c)"
  then have k: "k < c" by (simp add: mem_slice_def)
  with assms have "page_byte pages (a + k) = page_byte pages a + k"
    using page_byte_step [of a "a + k" pages] by simp
  with k show "mem_slice mem (page_byte pages a) c ! k = map (\<lambda>i. mem (page_byte pages i)) [a ..< a + c] ! k"
    by (simp add: mem_slice_def)
qed (simp add: mem_slice_def)

lemma rf_read_loop_spec:
  "offset + n \<le> length pages * PAGE_SIZE \<Longrightarrow>
   rf_read_loop mem pages offset n = Some (map (\<lambda>i. mem (page_byte pages i)) [offset ..< offset + n])"
proof (induction mem pages offset n rule: rf_read_loop.induct)
  case (1 mem pages offset n)
  define c where "c = min (PAGE_SIZE - offset mod PAGE_SIZE) n"
  have lt: "offset mod PAGE_SIZE < PAGE_SIZE" by simp
  show ?case
  proof (cases "c = 0")
    case True
    with lt have "n = 0" by (auto simp: c_def min_def split: if_splits)
    then show ?thesis by (subst rf_read_loop.simps) simp
  next
    case False
    have le: "c \<le> n" "offset mod PAGE_SIZE + c \<le> PAGE_SIZE" using lt by (auto simp: c_def)
    have idx: "offset div PAGE_SIZE < length pages"
      using "1.prems" False le(1) by (intro page_index_less) simp
    have rest: "rf_read_loop mem pages (offset + c) (n - c) =
        Some (map (\<lambda>i. mem (page_byte pages i)) [offset + c ..< offset + n])"
      using "1.IH" [OF c_def False idx] "1.prems" le(1) by simp
    have "[offset ..< offset + n] = [offset ..< offset + c] @ [offset + c ..< offset + n]"
      using upt_add_eq_append [of offset "offset + c" "n - c"] le(1) by simp
    then show ?thesis
      using idx False rest mem_slice_chunk [OF le(2), of mem pages]
      by (subst rf_read_loop.simps) (simp add: Let_def page_byte_def flip: c_def)
  qed
qed

definition in_pages :: "usize list \<Rightarrow> usize \<Rightarrow> bool" where
  "in_pages pages a \<longleftrightarrow> (\<exists>p \<in> set pages. p \<le> a \<and> a < p + PAGE_SIZE)"

lemma mem_store_chunk:
  assumes "pages_ok pages" "a < length pages * PAGE_SIZE" "a mod PAGE_SIZE + length bs \<le> PAGE_SIZE"
    and "i < length pages * PAGE_SIZE"
  shows "mem_store mem (page_byte pages a) bs (page_byte pages i) =
    (if a \<le> i \<and> i < a + length bs then bs ! (i - a) else mem (page_byte pages i))"
proof -
  have hit: "page_byte pages a \<le> page_byte pages i \<and> page_byte pages i < page_byte pages a + length bs \<longleftrightarrow>
      a \<le> i \<and> i < a + length bs"
  proof
    assume h: "page_byte pages a \<le> page_byte pages i \<and> page_byte pages i < page_byte pages a + length bs"
    define k where "k = page_byte pages i - page_byte pages a"
    have k: "k < length bs" "page_byte pages i = page_byte pages a + k" using h by (auto simp: k_def)
    then have pb: "page_byte pages (a + k) = page_byte pages i"
      using page_byte_step [of a "a + k" pages] assms(3) by simp
    have "(a + k) div PAGE_SIZE = a div PAGE_SIZE"
      using k(1) assms(3) by (intro page_index_step(1)) simp
    then have "a + k < length pages * PAGE_SIZE"
      using page_index_less [OF assms(2)] div_less_iff_less_mult [of PAGE_SIZE "a + k" "length pages"] by simp
    then have "a + k = i" using page_byte_inj [OF assms(1) _ assms(4) pb] by simp
    with k(1) show "a \<le> i \<and> i < a + length bs" by auto
  next
    assume "a \<le> i \<and> i < a + length bs"
    then show "page_byte pages a \<le> page_byte pages i \<and> page_byte pages i < page_byte pages a + length bs"
      using page_byte_step [of a i pages] assms(3) by auto
  qed
  moreover have "page_byte pages i - page_byte pages a = i - a" if "a \<le> i \<and> i < a + length bs"
    using that page_byte_step [of a i pages] assms(3) by auto
  ultimately show ?thesis by (auto simp: mem_store_def)
qed

lemma mem_store_other:
  assumes "pages_ok pages" "a < length pages * PAGE_SIZE" "a mod PAGE_SIZE + length bs \<le> PAGE_SIZE" "\<not> in_pages pages x"
  shows "mem_store mem (page_byte pages a) bs x = mem x"
proof -
  let ?p = "pages ! (a div PAGE_SIZE)"
  have "?p \<in> set pages" using page_byte_page(3) [OF assms(1,2)] .
  then have "\<not> (?p \<le> x \<and> x < ?p + PAGE_SIZE)" using assms(4) by (auto simp: in_pages_def)
  then show ?thesis using assms(3) by (auto simp: mem_store_def page_byte_def)
qed

lemma rf_write_loop_spec:
  "pages_ok pages \<Longrightarrow> off + length bs \<le> length pages * PAGE_SIZE \<Longrightarrow>
   \<exists>mem'. rf_write_loop mem pages off bs = (mem', off + length bs) \<and>
     (\<forall>i < length pages * PAGE_SIZE. mem' (page_byte pages i) =
        (if off \<le> i \<and> i < off + length bs then bs ! (i - off) else mem (page_byte pages i))) \<and>
     (\<forall>x. \<not> in_pages pages x \<longrightarrow> mem' x = mem x)"
proof (induction mem pages off bs rule: rf_write_loop.induct)
  case (1 mem pages off bs)
  define c where "c = min (PAGE_SIZE - off mod PAGE_SIZE) (length bs)"
  have lt: "off mod PAGE_SIZE < PAGE_SIZE" by simp
  show ?case
  proof (cases "c = 0")
    case True
    with lt have "bs = []" by (auto simp: c_def min_def split: if_splits)
    then show ?thesis by (subst rf_write_loop.simps) auto
  next
    case False
    have le: "c \<le> length bs" "off mod PAGE_SIZE + length (take c bs) \<le> PAGE_SIZE" using lt by (auto simp: c_def)
    have off: "off < length pages * PAGE_SIZE" using "1.prems"(2) False le(1) by simp
    define mem1 where "mem1 = mem_store mem (page_byte pages off) (take c bs)"
    obtain mem' where mem': "rf_write_loop mem1 pages (off + c) (drop c bs) = (mem', off + c + length (drop c bs))"
        "\<forall>i < length pages * PAGE_SIZE. mem' (page_byte pages i) =
           (if off + c \<le> i \<and> i < off + c + length (drop c bs) then drop c bs ! (i - (off + c)) else mem1 (page_byte pages i))"
        "\<forall>x. \<not> in_pages pages x \<longrightarrow> mem' x = mem1 x"
      using "1.IH" [OF c_def False] page_index_less [OF off] "1.prems" le(1)
      unfolding mem1_def page_byte_def by auto
    have "rf_write_loop mem pages off bs = (mem', off + length bs)"
      using page_index_less [OF off] False mem'(1) le(1)
      by (subst rf_write_loop.simps) (simp add: Let_def not_le mem1_def page_byte_def flip: c_def)
    moreover have "mem' (page_byte pages i) =
        (if off \<le> i \<and> i < off + length bs then bs ! (i - off) else mem (page_byte pages i))"
      if i: "i < length pages * PAGE_SIZE" for i
      using mem'(2) [rule_format, OF i] mem_store_chunk [OF "1.prems"(1) off le(2) i, of mem] le(1)
      by (auto simp: mem1_def nth_take nth_drop)
    moreover have "mem' x = mem x" if "\<not> in_pages pages x" for x
      using mem'(3) [rule_format, OF that] mem_store_other [OF "1.prems"(1) off le(2) that, of mem]
      by (simp add: mem1_def)
    ultimately show ?thesis by blast
  qed
qed

section \<open>Reading\<close>

lemma length_rf_bytes [simp]: "length (rf_bytes ph f) = rf_len f"
  by (simp add: rf_bytes_def)

lemma nth_rf_bytes: "i < rf_len f \<Longrightarrow> rf_bytes ph f ! i = ph_mem ph (page_byte (rf_pages f) i)"
  by (simp add: rf_bytes_def)

lemma rf_bytes_slice:
  assumes "off + n \<le> rf_len f"
  shows "take n (drop off (rf_bytes ph f)) = map (\<lambda>i. ph_mem ph (page_byte (rf_pages f) i)) [off ..< off + n]"
  using assms by (intro nth_equalityI) (simp_all add: nth_rf_bytes)

lemma rf_readat_spec:
  assumes "rf_ok ph f"
  shows "rf_readat ph f off buf =
    (slice_set buf 0 (take (length buf) (drop off (rf_bytes ph f))),
     Ok (min (length buf) (length (rf_bytes ph f) - off)))"
proof (cases "off \<ge> rf_len f")
  case False
  define n where "n = min (length buf) (rf_len f - off)"
  have n: "off + n \<le> rf_len f" using False by (auto simp: n_def)
  then have "off + n \<le> length (rf_pages f) * PAGE_SIZE" using assms by (simp add: rf_ok_def)
  then have "rf_read_loop (ph_mem ph) (rf_pages f) off n = Some (take n (drop off (rf_bytes ph f)))"
    by (simp add: rf_read_loop_spec rf_bytes_slice [OF n])
  moreover have "take n (drop off (rf_bytes ph f)) = take (length buf) (drop off (rf_bytes ph f))"
    by (simp add: n_def min_def)
  ultimately show ?thesis using False by (simp add: rf_readat_def Let_def flip: n_def)
qed (simp add: rf_readat_def)

section \<open>Growing\<close>

lemma frame_alloc_mem: "frame_alloc ph = Some (ph', q) \<Longrightarrow> ph_mem ph' = ph_mem ph"
  by (auto simp: frame_alloc_def)

lemma grow_mem: "grow frame_alloc n ph acc = Some (ph', acc', ok) \<Longrightarrow> ph_mem ph' = ph_mem ph"
  by (induction n arbitrary: ph acc) (auto split: option.splits dest: frame_alloc_mem)

lemma not_in_pages:
  assumes "pages_ok pages" "p mod PAGE_SIZE = 0" "p \<notin> set pages" "i < PAGE_SIZE"
  shows "\<not> in_pages pages (p + i)"
proof
  assume "in_pages pages (p + i)"
  then obtain q where q: "q \<in> set pages" "q \<le> p + i" "p + i < q + PAGE_SIZE" by (auto simp: in_pages_def)
  obtain a b where ab: "p = PAGE_SIZE * a" "q = PAGE_SIZE * b"
    using assms(1,2) q(1) by (auto simp: pages_ok_def elim!: dvdE dest!: mod_0_imp_dvd)
  have "a = b" using q(2,3) assms(4) unfolding ab by linarith
  with assms(3) q(1) ab show False by simp
qed

lemma page_byte_append:
  "i < length pages * PAGE_SIZE \<Longrightarrow> page_byte (pages @ ps) i = page_byte pages i"
  by (simp add: page_byte_def nth_append page_index_less)

lemma fa_extent_aligned: "p \<in> fa_extent fa \<Longrightarrow> p mod PAGE_SIZE = 0"
  by (simp add: fa_extent_def)

lemma grow_file:
  assumes "rf_ok ph f" "n \<le> card (fa_free (ph_frames ph))"
  shows "\<exists>ph1 ps. grow frame_alloc n ph (rf_pages f) = Some (ph1, rf_pages f @ ps, True) \<and> length ps = n \<and>
    ph_mem ph1 = ph_mem ph \<and> rf_ok ph1 (f\<lparr>rf_pages := rf_pages f @ ps\<rparr>) \<and>
    rf_bytes ph1 (f\<lparr>rf_pages := rf_pages f @ ps\<rparr>) = rf_bytes ph f \<and>
    card (fa_free (ph_frames ph1)) + n = card (fa_free (ph_frames ph))"
proof -
  let ?pages = "rf_pages f"
  have ok: "phys_ok ph" "pages_ok ?pages" "set ?pages \<inter> fa_free (ph_frames ph) = {}"
      "set ?pages \<subseteq> fa_extent (ph_frames ph)" "rf_len f \<le> length ?pages * PAGE_SIZE"
    using assms(1) by (auto simp: rf_ok_def)
  then have dist: "distinct ?pages" by (simp add: pages_ok_def)
  obtain ph1 ps where g: "grow frame_alloc n ph ?pages = Some (ph1, ?pages @ ps, True)" "phys_ok ph1"
      "fa_extent (ph_frames ph1) = fa_extent (ph_frames ph)" "length ps = n" "distinct (?pages @ ps)"
      "set ps \<subseteq> fa_free (ph_frames ph)" "fa_free (ph_frames ph1) = fa_free (ph_frames ph) - set ps"
    using phl.grow_spec [OF ok(1,3) dist, of n] assms(2) by auto
  have mem: "ph_mem ph1 = ph_mem ph" using grow_mem [OF g(1)] .
  have ext: "set ps \<subseteq> fa_extent (ph_frames ph)" using g(6) phl.avail_extent [OF ok(1)] by blast
  have pok: "pages_ok (?pages @ ps)"
    using ok(2) g(5) ext by (auto simp: pages_ok_def dest: fa_extent_aligned)
  have zero: "ph_mem ph (page_byte (?pages @ ps) i) = 0"
    if i: "rf_len f \<le> i" "i < length (?pages @ ps) * PAGE_SIZE" for i
  proof (cases "i < length ?pages * PAGE_SIZE")
    case True
    then show ?thesis using i(1) assms(1) by (simp add: rf_ok_def page_byte_append)
  next
    case False
    then have "length ?pages \<le> i div PAGE_SIZE" by (simp add: less_eq_div_iff_mult_less_eq)
    moreover have "i div PAGE_SIZE < length (?pages @ ps)" using i(2) by (rule page_index_less)
    ultimately have "(?pages @ ps) ! (i div PAGE_SIZE) \<in> set ps" by (simp add: nth_append)
    then show ?thesis using g(6) ok(1) by (auto simp: page_byte_def phys_ok_def)
  qed
  have "rf_ok ph1 (f\<lparr>rf_pages := ?pages @ ps\<rparr>)"
    unfolding rf_ok_def using g(2,3,6,7) ok(3,4,5) ext pok zero mem by (simp add: rf_ok_def) blast
  moreover have "rf_bytes ph1 (f\<lparr>rf_pages := ?pages @ ps\<rparr>) = rf_bytes ph f"
    using ok(5) mem by (simp add: rf_bytes_def page_byte_append)
  moreover have "card (fa_free (ph_frames ph1)) + n = card (fa_free (ph_frames ph))"
    using g(4-7) assms(2) by (simp add: card_Diff_subset distinct_card)
  ultimately show ?thesis using g(1,4) mem by blast
qed

section \<open>Writing\<close>

text \<open>A change of memory confined to the file's own pages keeps the frame allocator's memory
  clean.\<close>

lemma phys_ok_store:
  assumes "phys_ok ph" "pages_ok pages" "set pages \<inter> fa_free (ph_frames ph) = {}"
    and "\<forall>x. \<not> in_pages pages x \<longrightarrow> mem' x = ph_mem ph x"
  shows "phys_ok (ph\<lparr>ph_mem := mem'\<rparr>)"
proof -
  have ok: "fa_ok (ph_frames ph)" using assms(1) by (simp add: phys_ok_def)
  have "mem' (p + i) = 0" if p: "p \<in> fa_free (ph_frames ph)" "i < PAGE_SIZE" for p i
  proof -
    have "p mod PAGE_SIZE = 0" using p(1) fa_free_extent [OF ok] fa_extent_aligned by blast
    moreover have "p \<notin> set pages" using p(1) assms(3) by blast
    ultimately have "\<not> in_pages pages (p + i)" by (rule not_in_pages [OF assms(2) _ _ p(2)])
    then show ?thesis using assms(1,4) p by (simp add: phys_ok_def)
  qed
  with ok show ?thesis by (simp add: phys_ok_def)
qed

lemma write_in_place:
  assumes "rf_ok ph f" "off + length buf \<le> length (rf_pages f) * PAGE_SIZE"
  shows "\<exists>mem'. rf_write_loop (ph_mem ph) (rf_pages f) off buf = (mem', off + length buf) \<and>
    rf_ok (ph\<lparr>ph_mem := mem'\<rparr>) (f\<lparr>rf_len := max (rf_len f) (off + length buf)\<rparr>) \<and>
    rf_bytes (ph\<lparr>ph_mem := mem'\<rparr>) (f\<lparr>rf_len := max (rf_len f) (off + length buf)\<rparr>) =
      spec_write (rf_bytes ph f) off buf \<and>
    (\<forall>x. \<not> in_pages (rf_pages f) x \<longrightarrow> mem' x = ph_mem ph x)"
proof -
  let ?pages = "rf_pages f" and ?n = "max (rf_len f) (off + length buf)"
  have ok: "phys_ok ph" "pages_ok ?pages" "set ?pages \<inter> fa_free (ph_frames ph) = {}"
      "set ?pages \<subseteq> fa_extent (ph_frames ph)" "rf_len f \<le> length ?pages * PAGE_SIZE"
      "\<forall>i. rf_len f \<le> i \<and> i < length ?pages * PAGE_SIZE \<longrightarrow> ph_mem ph (page_byte ?pages i) = 0"
    using assms(1) by (auto simp: rf_ok_def)
  obtain mem' where m: "rf_write_loop (ph_mem ph) ?pages off buf = (mem', off + length buf)"
      "\<forall>i < length ?pages * PAGE_SIZE. mem' (page_byte ?pages i) =
         (if off \<le> i \<and> i < off + length buf then buf ! (i - off) else ph_mem ph (page_byte ?pages i))"
      "\<forall>x. \<not> in_pages ?pages x \<longrightarrow> mem' x = ph_mem ph x"
    using rf_write_loop_spec [OF ok(2) assms(2)] by blast
  have pok: "phys_ok (ph\<lparr>ph_mem := mem'\<rparr>)" using phys_ok_store [OF ok(1-3) m(3)] .
  have "rf_ok (ph\<lparr>ph_mem := mem'\<rparr>) (f\<lparr>rf_len := ?n\<rparr>)"
    unfolding rf_ok_def using pok ok(2,3,4,5,6) assms(2) m(2) by auto
  moreover have "rf_bytes (ph\<lparr>ph_mem := mem'\<rparr>) (f\<lparr>rf_len := ?n\<rparr>) = spec_write (rf_bytes ph f) off buf"
  proof (rule nth_equalityI)
    fix i assume "i < length (rf_bytes (ph\<lparr>ph_mem := mem'\<rparr>) (f\<lparr>rf_len := ?n\<rparr>))"
    then have i: "i < ?n" by simp
    then have il: "i < length ?pages * PAGE_SIZE" using ok(5) assms(2) by auto
    have "rf_bytes (ph\<lparr>ph_mem := mem'\<rparr>) (f\<lparr>rf_len := ?n\<rparr>) ! i = mem' (page_byte ?pages i)"
      using nth_rf_bytes [of i "f\<lparr>rf_len := ?n\<rparr>"] i by simp
    also have "\<dots> = spec_write (rf_bytes ph f) off buf ! i"
      using m(2) [rule_format, OF il] ok(6) [rule_format, of i] il i nth_rf_bytes [of i f ph]
        nth_spec_write [of i "rf_bytes ph f" off buf] by auto
    finally show "rf_bytes (ph\<lparr>ph_mem := mem'\<rparr>) (f\<lparr>rf_len := ?n\<rparr>) ! i = spec_write (rf_bytes ph f) off buf ! i" .
  qed (simp add: length_spec_write)
  ultimately show ?thesis using m(1,3) by blast
qed

lemma rf_writeat_spec:
  assumes "rf_ok ph f" "off + length buf < 2 ^ 64"
    and "div_ceil (off + length buf) PAGE_SIZE - length (rf_pages f) \<le> card (fa_free (ph_frames ph))"
  shows "\<exists>ph' f'. rf_writeat ph f off buf = Some (ph', f', Ok (length buf)) \<and> rf_ok ph' f' \<and>
    rf_bytes ph' f' = spec_write (rf_bytes ph f) off buf \<and>
    (\<forall>x. \<not> in_pages (rf_pages f') x \<longrightarrow> ph_mem ph' x = ph_mem ph x) \<and>
    length (rf_pages f') + card (fa_free (ph_frames ph')) = length (rf_pages f) + card (fa_free (ph_frames ph))"
proof -
  define n where "n = div_ceil (off + length buf) PAGE_SIZE - length (rf_pages f)"
  obtain ph1 ps where g: "grow frame_alloc n ph (rf_pages f) = Some (ph1, rf_pages f @ ps, True)" "length ps = n"
      "ph_mem ph1 = ph_mem ph" "rf_ok ph1 (f\<lparr>rf_pages := rf_pages f @ ps\<rparr>)"
      "rf_bytes ph1 (f\<lparr>rf_pages := rf_pages f @ ps\<rparr>) = rf_bytes ph f"
      "card (fa_free (ph_frames ph1)) + n = card (fa_free (ph_frames ph))"
    using grow_file [OF assms(1)] assms(3) unfolding n_def by blast
  let ?f1 = "f\<lparr>rf_pages := rf_pages f @ ps\<rparr>"
  have "off + length buf \<le> div_ceil (off + length buf) PAGE_SIZE * PAGE_SIZE"
    by (rule div_ceil_mult) simp
  also have "\<dots> \<le> length (rf_pages ?f1) * PAGE_SIZE"
    using g(2) by (intro mult_le_mono1) (simp add: n_def)
  finally have fit: "off + length buf \<le> length (rf_pages ?f1) * PAGE_SIZE" .
  obtain mem' where m: "rf_write_loop (ph_mem ph1) (rf_pages ?f1) off buf = (mem', off + length buf)"
      "rf_ok (ph1\<lparr>ph_mem := mem'\<rparr>) (?f1\<lparr>rf_len := max (rf_len f) (off + length buf)\<rparr>)"
      "rf_bytes (ph1\<lparr>ph_mem := mem'\<rparr>) (?f1\<lparr>rf_len := max (rf_len f) (off + length buf)\<rparr>) = spec_write (rf_bytes ph f) off buf"
      "\<forall>x. \<not> in_pages (rf_pages ?f1) x \<longrightarrow> mem' x = ph_mem ph1 x"
    using write_in_place [OF g(4) fit] g(5) by auto
  have sz: "min (length buf) (if off < length (rf_pages f @ ps) * PAGE_SIZE
      then length (rf_pages f @ ps) * PAGE_SIZE - off else 0) = length buf"
    using fit by (cases buf) (auto simp del: length_append)
  have "rf_writeat ph f off buf = Some (ph1\<lparr>ph_mem := mem'\<rparr>,
      ?f1\<lparr>rf_len := max (rf_len f) (off + length buf)\<rparr>, Ok (length buf))"
    using g(1) m(1) assms(2) sz
    by (simp add: rf_writeat_def Let_def wadd_exact max_def not_less
        del: length_append distrib_right_numeral flip: n_def)
  with m(2-4) g(2,3,6) show ?thesis by auto
qed

section \<open>Truncating\<close>

lemma clear_pages:
  "foldl (\<lambda>m p. mem_store m p (replicate PAGE_SIZE 0)) mem ps x = (if in_pages ps x then 0 else mem x)"
proof (induction ps arbitrary: mem)
  case (Cons p ps)
  have "mem_store mem p (replicate PAGE_SIZE 0) x = (if p \<le> x \<and> x < p + PAGE_SIZE then 0 else mem x)"
    by (auto simp: mem_store_def)
  then show ?case by (simp only: foldl.simps Cons.IH) (auto simp: in_pages_def)
qed (simp add: in_pages_def)

lemma in_pages_drop:
  assumes "pages_ok pages" "i < length pages * PAGE_SIZE"
  shows "in_pages (drop t pages) (page_byte pages i) \<longleftrightarrow> t \<le> i div PAGE_SIZE"
proof -
  let ?k = "i div PAGE_SIZE"
  have k: "?k < length pages" using assms(2) by (rule page_index_less)
  have pd: "pages_ok (drop t pages)"
    using assms(1) by (auto simp: pages_ok_def distinct_drop dest: in_set_dropD)
  have "in_pages (drop t pages) (page_byte pages i) \<longleftrightarrow> pages ! ?k \<in> set (drop t pages)"
  proof
    assume "in_pages (drop t pages) (page_byte pages i)"
    moreover have "pages ! ?k mod PAGE_SIZE = 0" using assms(1) k by (simp add: pages_ok_def)
    ultimately show "pages ! ?k \<in> set (drop t pages)"
      using not_in_pages [OF pd, of "pages ! ?k" "i mod PAGE_SIZE"] by (auto simp: page_byte_def)
  next
    assume "pages ! ?k \<in> set (drop t pages)"
    then show "in_pages (drop t pages) (page_byte pages i)"
      unfolding in_pages_def page_byte_def by (intro bexI [of _ "pages ! ?k"]) auto
  qed
  also have "\<dots> \<longleftrightarrow> t \<le> ?k"
  proof
    assume "pages ! ?k \<in> set (drop t pages)"
    then obtain j where "j < length (drop t pages)" "pages ! ?k = drop t pages ! j"
      by (metis in_set_conv_nth)
    then have "t + j < length pages" "pages ! ?k = pages ! (t + j)" by auto
    then have "?k = t + j" using assms(1) k by (simp add: pages_ok_def nth_eq_iff_index_eq)
    then show "t \<le> ?k" by simp
  next
    assume "t \<le> ?k"
    then have "drop t pages ! (?k - t) = pages ! ?k" "?k - t < length (drop t pages)" using k by auto
    then show "pages ! ?k \<in> set (drop t pages)" by (metis nth_mem)
  qed
  finally show ?thesis .
qed

lemma div_ceil_page:
  "sz mod PAGE_SIZE = 0 \<Longrightarrow> div_ceil sz PAGE_SIZE * PAGE_SIZE = sz"
  "sz mod PAGE_SIZE \<noteq> 0 \<Longrightarrow> div_ceil sz PAGE_SIZE * PAGE_SIZE = sz + (PAGE_SIZE - sz mod PAGE_SIZE)"
proof -
  have e: "sz = sz div PAGE_SIZE * PAGE_SIZE + sz mod PAGE_SIZE" by simp
  show "sz mod PAGE_SIZE = 0 \<Longrightarrow> div_ceil sz PAGE_SIZE * PAGE_SIZE = sz"
    by (auto simp: div_ceil_def)
  have lt: "sz mod PAGE_SIZE < PAGE_SIZE" by simp
  assume "sz mod PAGE_SIZE \<noteq> 0"
  then have "div_ceil sz PAGE_SIZE = sz div PAGE_SIZE + 1" by (simp add: div_ceil_def)
  then have "div_ceil sz PAGE_SIZE * PAGE_SIZE = sz div PAGE_SIZE * PAGE_SIZE + PAGE_SIZE" by simp
  then show "div_ceil sz PAGE_SIZE * PAGE_SIZE = sz + (PAGE_SIZE - sz mod PAGE_SIZE)"
    using e lt by linarith
qed

lemma rf_clear_tail_spec:
  assumes "pages_ok pages"
  shows "i < length pages * PAGE_SIZE \<Longrightarrow>
      rf_clear_tail mem pages sz (page_byte pages i) = (if sz \<le> i then 0 else mem (page_byte pages i))"
    and "\<not> in_pages pages x \<Longrightarrow> rf_clear_tail mem pages sz x = mem x"
proof -
  let ?t = "div_ceil sz PAGE_SIZE"
  let ?m1 = "foldl (\<lambda>m p. mem_store m p (replicate PAGE_SIZE 0)) mem (drop ?t pages)"
  have last: "sz < length pages * PAGE_SIZE" "sz mod PAGE_SIZE + length (replicate (PAGE_SIZE - sz mod PAGE_SIZE) (0 :: u8)) \<le> PAGE_SIZE"
    if "sz div PAGE_SIZE < length pages"
    using that by (simp_all add: div_less_iff_less_mult)
  show "rf_clear_tail mem pages sz (page_byte pages i) = (if sz \<le> i then 0 else mem (page_byte pages i))"
    if i: "i < length pages * PAGE_SIZE"
  proof -
    have m1: "?m1 (page_byte pages i) = (if ?t * PAGE_SIZE \<le> i then 0 else mem (page_byte pages i))"
      using clear_pages [of mem "drop ?t pages" "page_byte pages i"] in_pages_drop [OF assms i, of ?t]
      by (simp add: less_eq_div_iff_mult_less_eq)
    show ?thesis
    proof (cases "sz mod PAGE_SIZE \<noteq> 0 \<and> sz div PAGE_SIZE < length pages")
      case True
      then show ?thesis
        using mem_store_chunk [OF assms last i, of ?m1] m1 div_ceil_page(2) [of sz]
        by (auto simp: rf_clear_tail_def Let_def page_byte_def)
    next
      case False
      have "?t * PAGE_SIZE \<le> i \<longleftrightarrow> sz \<le> i"
      proof (cases "sz mod PAGE_SIZE = 0")
        case True
        then show ?thesis by (simp only: div_ceil_page(1))
      next
        case nz: False
        then have "length pages * PAGE_SIZE \<le> sz" using False by (simp add: less_eq_div_iff_mult_less_eq not_less)
        then show ?thesis using i div_ceil_mult [of PAGE_SIZE sz] by simp
      qed
      then show ?thesis using False m1 by (auto simp: rf_clear_tail_def Let_def)
    qed
  qed
  show "rf_clear_tail mem pages sz x = mem x" if x: "\<not> in_pages pages x"
  proof -
    have "\<not> in_pages (drop ?t pages) x" using x by (auto simp: in_pages_def dest: in_set_dropD)
    then have "?m1 x = mem x" by (simp add: clear_pages)
    then show ?thesis
      using mem_store_other [OF assms last x, of ?m1]
      by (auto simp: rf_clear_tail_def Let_def page_byte_def)
  qed
qed

lemma rf_ok_extend:
  assumes "rf_ok ph f" "rf_len f \<le> n" "n \<le> length (rf_pages f) * PAGE_SIZE"
  shows "rf_ok ph (f\<lparr>rf_len := n\<rparr>)"
    and "rf_bytes ph (f\<lparr>rf_len := n\<rparr>) = rf_bytes ph f @ replicate (n - rf_len f) 0"
proof -
  show "rf_ok ph (f\<lparr>rf_len := n\<rparr>)" using assms by (auto simp: rf_ok_def)
  show "rf_bytes ph (f\<lparr>rf_len := n\<rparr>) = rf_bytes ph f @ replicate (n - rf_len f) 0"
  proof (rule nth_equalityI)
    fix i assume "i < length (rf_bytes ph (f\<lparr>rf_len := n\<rparr>))"
    then have i: "i < n" by simp
    show "rf_bytes ph (f\<lparr>rf_len := n\<rparr>) ! i = (rf_bytes ph f @ replicate (n - rf_len f) 0) ! i"
      using i nth_rf_bytes [of i "f\<lparr>rf_len := n\<rparr>" ph] nth_rf_bytes [of i f ph] assms
      by (auto simp: nth_append rf_ok_def)
  qed (use assms(2) in simp)
qed

lemma rf_clear_tail_ok:
  fixes sz :: usize
  assumes "rf_ok ph f"
  defines "n \<equiv> min sz (length (rf_pages f) * PAGE_SIZE)"
    and "ph1 \<equiv> ph\<lparr>ph_mem := rf_clear_tail (ph_mem ph) (rf_pages f) sz\<rparr>"
  shows "rf_ok ph1 (f\<lparr>rf_len := n\<rparr>)"
    and "rf_bytes ph1 (f\<lparr>rf_len := n\<rparr>) = take n (rf_bytes ph f) @ replicate (n - rf_len f) 0"
proof -
  have ok: "phys_ok ph" "pages_ok (rf_pages f)" "set (rf_pages f) \<inter> fa_free (ph_frames ph) = {}"
      "rf_len f \<le> length (rf_pages f) * PAGE_SIZE"
      "\<forall>i. rf_len f \<le> i \<and> i < length (rf_pages f) * PAGE_SIZE \<longrightarrow> ph_mem ph (page_byte (rf_pages f) i) = 0"
    using assms(1) by (auto simp: rf_ok_def)
  have "phys_ok ph1"
    unfolding ph1_def using rf_clear_tail_spec(2) [OF ok(2)] by (intro phys_ok_store [OF ok(1-3)]) simp
  moreover have byte: "ph_mem ph1 (page_byte (rf_pages f) i) = (if sz \<le> i then 0 else ph_mem ph (page_byte (rf_pages f) i))"
    if "i < length (rf_pages f) * PAGE_SIZE" for i
    using rf_clear_tail_spec(1) [OF ok(2) that] by (simp add: ph1_def)
  moreover have "ph_frames ph1 = ph_frames ph" by (simp add: ph1_def)
  ultimately show "rf_ok ph1 (f\<lparr>rf_len := n\<rparr>)"
    using assms(1) by (auto simp: rf_ok_def n_def)
  show "rf_bytes ph1 (f\<lparr>rf_len := n\<rparr>) = take n (rf_bytes ph f) @ replicate (n - rf_len f) 0"
  proof (rule nth_equalityI)
    fix i assume "i < length (rf_bytes ph1 (f\<lparr>rf_len := n\<rparr>))"
    then have i: "i < n" by simp
    then have il: "i < length (rf_pages f) * PAGE_SIZE" "\<not> sz \<le> i" by (auto simp: n_def)
    have "rf_bytes ph1 (f\<lparr>rf_len := n\<rparr>) ! i = ph_mem ph (page_byte (rf_pages f) i)"
      using byte [OF il(1)] il(2) nth_rf_bytes [of i "f\<lparr>rf_len := n\<rparr>" ph1] i by simp
    then show "rf_bytes ph1 (f\<lparr>rf_len := n\<rparr>) ! i = (take n (rf_bytes ph f) @ replicate (n - rf_len f) 0) ! i"
      using ok(5) [rule_format, of i] il(1) i nth_rf_bytes [of i f ph]
      by (cases "i < rf_len f") (auto simp: nth_append min_def)
  qed (simp add: min_def)
qed

lemma rf_truncate_spec:
  assumes "rf_ok ph f" "div_ceil sz PAGE_SIZE - length (rf_pages f) \<le> card (fa_free (ph_frames ph))"
  shows "\<exists>ph' f'. rf_truncate ph f sz = Some (ph', f', Ok ()) \<and> rf_ok ph' f' \<and>
    rf_bytes ph' f' = spec_truncate (rf_bytes ph f) sz"
proof -
  define n where "n = min sz (length (rf_pages f) * PAGE_SIZE)"
  define ph1 where "ph1 = ph\<lparr>ph_mem := rf_clear_tail (ph_mem ph) (rf_pages f) sz\<rparr>"
  define f1 where "f1 = f\<lparr>rf_len := n\<rparr>"
  have c: "rf_ok ph1 f1" "rf_bytes ph1 f1 = take n (rf_bytes ph f) @ replicate (n - rf_len f) 0"
    unfolding ph1_def f1_def n_def using rf_clear_tail_ok [OF assms(1)] by auto
  define k where "k = div_ceil sz PAGE_SIZE - length (rf_pages f)"
  have "k \<le> card (fa_free (ph_frames ph1))" using assms(2) by (simp add: k_def ph1_def)
  then obtain ph2 ps where g: "grow frame_alloc k ph1 (rf_pages f1) = Some (ph2, rf_pages f1 @ ps, True)"
      "length ps = k" "rf_ok ph2 (f1\<lparr>rf_pages := rf_pages f1 @ ps\<rparr>)"
      "rf_bytes ph2 (f1\<lparr>rf_pages := rf_pages f1 @ ps\<rparr>) = rf_bytes ph1 f1"
    using grow_file [OF c(1)] by blast
  let ?f2 = "f1\<lparr>rf_pages := rf_pages f1 @ ps\<rparr>"
  have "sz \<le> div_ceil sz PAGE_SIZE * PAGE_SIZE" by (rule div_ceil_mult) simp
  also have "\<dots> \<le> length (rf_pages ?f2) * PAGE_SIZE"
    using g(2) by (intro mult_le_mono1) (simp add: k_def f1_def)
  finally have fit: "sz \<le> length (rf_pages ?f2) * PAGE_SIZE" .
  have "rf_len ?f2 \<le> sz" by (simp add: f1_def n_def)
  note e = rf_ok_extend [OF g(3) this fit]
  have "rf_truncate ph f sz = Some (ph2, ?f2\<lparr>rf_len := sz\<rparr>, Ok ())"
    using g(1) by (simp add: rf_truncate_def Let_def f1_def flip: k_def ph1_def)
  moreover have "rf_bytes ph2 (?f2\<lparr>rf_len := sz\<rparr>) = spec_truncate (rf_bytes ph f) sz"
    unfolding e(2) g(4) c(2) using assms(1)
    by (auto simp: spec_truncate_def f1_def n_def min_def rf_ok_def replicate_add [symmetric] simp del: replicate_add)
  ultimately show ?thesis using e(1) by blast
qed

section \<open>RAM files meet the inode contract\<close>

text \<open>A file together with the memory it lives in; there is room up to an end offset when the
  allocator can supply the missing pages.\<close>

definition rf_write_state :: "phys \<times> ram_file \<Rightarrow> usize \<Rightarrow> u8 list \<Rightarrow> ((phys \<times> ram_file) \<times> usize res) run" where
  "rf_write_state s off buf = map_option (\<lambda>(ph, f, r). ((ph, f), r)) (rf_writeat (fst s) (snd s) off buf)"

definition rf_room :: "phys \<times> ram_file \<Rightarrow> usize \<Rightarrow> bool" where
  "rf_room s e \<longleftrightarrow> e < 2 ^ 64 \<and>
     div_ceil e PAGE_SIZE - length (rf_pages (snd s)) \<le> card (fa_free (ph_frames (fst s)))"

interpretation rfl: positional_file "\<lambda>s. rf_readat (fst s) (snd s)" rf_write_state
  "\<lambda>s. rf_bytes (fst s) (snd s)" rf_room "\<lambda>s. rf_ok (fst s) (snd s)"
proof
  fix s :: "phys \<times> ram_file" and off and buf
  assume ok: "rf_ok (fst s) (snd s)"
  show "rf_readat (fst s) (snd s) off buf = spec_read (rf_bytes (fst s) (snd s)) off buf"
    using rf_readat_spec [OF ok] by (simp add: spec_read_def)
  assume "rf_room s (off + length buf)"
  then obtain ph' f' where "rf_writeat (fst s) (snd s) off buf = Some (ph', f', Ok (length buf))" "rf_ok ph' f'"
      "rf_bytes ph' f' = spec_write (rf_bytes (fst s) (snd s)) off buf"
    using rf_writeat_spec [OF ok, of off buf] by (auto simp: rf_room_def)
  then show "\<exists>s'. rf_write_state s off buf = Some (s', Ok (length buf)) \<and> rf_ok (fst s') (snd s') \<and>
      rf_bytes (fst s') (snd s') = spec_write (rf_bytes (fst s) (snd s)) off buf"
    by (auto simp: rf_write_state_def)
qed

text \<open>Writing never uses up room that was promised.\<close>

interpretation rfr: roomy_file "\<lambda>s. rf_readat (fst s) (snd s)" rf_write_state
  "\<lambda>s. rf_bytes (fst s) (snd s)" rf_room "\<lambda>s. rf_ok (fst s) (snd s)"
proof
  show "rf_room s e'" if "rf_room s e" "e' \<le> e" for s e e'
  proof -
    have "div_ceil e' PAGE_SIZE \<le> div_ceil e PAGE_SIZE"
      using that(2) div_ceil_mult [of PAGE_SIZE e] by (simp add: div_ceil_le_iff)
    with that show ?thesis by (auto simp: rf_room_def)
  qed
  fix s s' :: "phys \<times> ram_file" and off buf e r
  assume ok: "rf_ok (fst s) (snd s)" and fits: "rf_room s (off + length buf)" and e: "rf_room s e"
    and w: "rf_write_state s off buf = Some (s', r)"
  have "length (rf_pages (snd s')) + card (fa_free (ph_frames (fst s'))) =
      length (rf_pages (snd s)) + card (fa_free (ph_frames (fst s)))"
    using rf_writeat_spec [OF ok, of off buf] fits w by (auto simp: rf_room_def rf_write_state_def)
  with e show "rf_room s' e" by (auto simp: rf_room_def)
qed

section \<open>Exhausted memory\<close>

lemma grow_exhausted:
  assumes "phys_ok ph" "set pages \<inter> fa_free (ph_frames ph) = {}" "distinct pages"
    and "card (fa_free (ph_frames ph)) < n"
  shows "\<exists>ph1 ps. grow frame_alloc n ph pages = Some (ph1, pages @ ps, False) \<and>
    length ps = card (fa_free (ph_frames ph))"
  using phl.grow_spec [OF assms(1-3), of n] assms(4) by auto

lemma read_past_pages:
  assumes "off < rf_len f" "length (rf_pages f) \<le> off div PAGE_SIZE"
  shows "rf_readat ph f off [b] = ([b], Panic)"
proof -
  have "off mod PAGE_SIZE < PAGE_SIZE" by simp
  then have "min (PAGE_SIZE - off mod PAGE_SIZE) 1 = 1" by simp
  moreover have "min (length [b]) (rf_len f - off) = 1" using assms(1) by simp
  moreover have "rf_read_loop (ph_mem ph) (rf_pages f) off 1 = None"
    using assms(2) \<open>min (PAGE_SIZE - off mod PAGE_SIZE) 1 = 1\<close>
    by (subst rf_read_loop.simps) (simp add: Let_def)
  ultimately show ?thesis using assms(1) by (simp add: rf_readat_def)
qed

section \<open>Properties\<close>

text \<open>C30: on a well-formed file, with frames for the missing pages, a write stores the whole
  buffer; the byte string of the file afterwards is the old one, extended with zeros up to
  the write, with the buffer laid over it.  Memory outside the file's pages is untouched and
  the file stays well formed.\<close>

theorem rf_writeat_correct:
  assumes "rf_ok ph f" "off + length buf < 2 ^ 64"
    and "div_ceil (off + length buf) PAGE_SIZE - length (rf_pages f) \<le> card (fa_free (ph_frames ph))"
  shows "\<exists>ph' f'. rf_writeat ph f off buf = Some (ph', f', Ok (length buf)) \<and> rf_ok ph' f' \<and>
    rf_bytes ph' f' = spec_write (rf_bytes ph f) off buf \<and>
    (\<forall>x. \<not> in_pages (rf_pages f') x \<longrightarrow> ph_mem ph' x = ph_mem ph x)"
  using rf_writeat_spec [OF assms] by blast

lemma demo_file_ok: "rf_ok \<lparr>ph_frames = demo_frames, ph_mem = \<lambda>_. 0\<rparr> (ram_file_new ''a'')"
  by (simp add: rf_ok_def phys_ok_def demo_frames_ok ram_file_new_def pages_ok_def)

lemma demo_file_bytes: "rf_bytes \<lparr>ph_frames = demo_frames, ph_mem = \<lambda>_. 0\<rparr> (ram_file_new ''a'') = []"
  by (simp add: rf_bytes_def ram_file_new_def)

lemma demo_file_room:
  "div_ceil e PAGE_SIZE \<le> 4 \<Longrightarrow> div_ceil e PAGE_SIZE - length (rf_pages (ram_file_new ''a'')) \<le>
     card (fa_free (ph_frames \<lparr>ph_frames = demo_frames, ph_mem = \<lambda>_. 0\<rparr>))"
  by (simp add: demo_frames_free ram_file_new_def)

theorem rf_writeat_correct_witness:
  "\<exists>ph' f'. rf_writeat \<lparr>ph_frames = demo_frames, ph_mem = \<lambda>_. 0\<rparr> (ram_file_new ''a'') 2 [7, 8] = Some (ph', f', Ok 2) \<and>
     rf_ok ph' f' \<and> rf_bytes ph' f' = [0, 0, 7, 8]"
proof -
  have two: "length [7, 8 :: u8] = 2" by simp
  have "spec_write [] 2 [7, 8] = [0, 0, 7, 8]"
    by (simp add: spec_write_def slice_set_def numeral_2_eq_2)
  moreover have "2 + 2 < (2 :: nat) ^ 64" "div_ceil (2 + 2) PAGE_SIZE \<le> 4" by (simp_all add: div_ceil_def)
  ultimately show ?thesis
    using rf_writeat_correct [OF demo_file_ok, of 2 "[7, 8]", unfolded two demo_file_bytes] demo_file_room by metis
qed

text \<open>Reading back a range just written returns the data, whatever was in the file and
  however the range lies across pages.\<close>

theorem rf_write_read_back:
  assumes "rf_ok ph f" "rf_room (ph, f) (off + length data)" "length buf = length data"
  shows "\<exists>ph' f'. rf_writeat ph f off data = Some (ph', f', Ok (length data)) \<and>
    rf_readat ph' f' off buf = (data, Ok (length data))"
proof -
  obtain s' where "rf_write_state (ph, f) off data = Some (s', Ok (length data))"
      "rf_readat (fst s') (snd s') off buf = (data, Ok (length data))"
    using rfl.write_read_back [of "(ph, f)" off data buf] assms by auto
  then show ?thesis by (cases s') (auto simp: rf_write_state_def)
qed

theorem rf_write_read_back_witness:
  "\<exists>ph' f'. rf_writeat \<lparr>ph_frames = demo_frames, ph_mem = \<lambda>_. 0\<rparr> (ram_file_new ''a'') 4095 [1, 2, 3] = Some (ph', f', Ok 3) \<and>
     rf_readat ph' f' 4095 [0, 0, 0] = ([1, 2, 3], Ok 3)"
proof -
  have three: "length [1, 2, 3 :: u8] = 3" "length [0, 0, 0 :: u8] = 3" by simp_all
  have "rf_room (\<lparr>ph_frames = demo_frames, ph_mem = \<lambda>_. 0\<rparr>, ram_file_new ''a'') (4095 + 3)"
    using demo_file_room [of "4095 + 3"] by (simp add: rf_room_def div_ceil_def)
  then show ?thesis
    using rf_write_read_back [OF demo_file_ok, of 4095 "[1, 2, 3]" "[0, 0, 0]", unfolded three] by blast
qed

text \<open>Truncation cuts the byte string or extends it with zeros, and keeps the file well
  formed, so bytes cut off never reappear.\<close>

theorem rf_truncate_correct:
  assumes "rf_ok ph f" "div_ceil sz PAGE_SIZE - length (rf_pages f) \<le> card (fa_free (ph_frames ph))"
  shows "\<exists>ph' f'. rf_truncate ph f sz = Some (ph', f', Ok ()) \<and> rf_ok ph' f' \<and>
    rf_bytes ph' f' = spec_truncate (rf_bytes ph f) sz"
  using rf_truncate_spec [OF assms] .

theorem rf_truncate_correct_witness:
  "\<exists>ph' f'. rf_truncate \<lparr>ph_frames = demo_frames, ph_mem = \<lambda>_. 0\<rparr> (ram_file_new ''a'') 3 = Some (ph', f', Ok ()) \<and>
     rf_ok ph' f' \<and> rf_bytes ph' f' = [0, 0, 0]"
proof -
  have "spec_truncate [] 3 = [0, 0, 0]" by (simp add: spec_truncate_def numeral_3_eq_3)
  moreover have "div_ceil 3 PAGE_SIZE \<le> 4" by (simp add: div_ceil_def)
  ultimately show ?thesis
    using rf_truncate_correct [OF demo_file_ok, of 3, unfolded demo_file_bytes] demo_file_room by metis
qed

text \<open>When memory runs out, extending a file by truncation reports \<open>ENOMEM\<close> but leaves the new
  length in place without pages behind it; reading the last byte of the file then panics.\<close>

theorem truncate_enomem_breaks_file:
  assumes "rf_ok ph f" "card (fa_free (ph_frames ph)) < div_ceil sz PAGE_SIZE - length (rf_pages f)"
  shows "\<exists>ph' f'. rf_truncate ph f sz = Some (ph', f', Err ENOMEM) \<and> \<not> rf_ok ph' f' \<and>
    rf_readat ph' f' (sz - 1) [b] = ([b], Panic)"
proof -
  let ?ph1 = "ph\<lparr>ph_mem := rf_clear_tail (ph_mem ph) (rf_pages f) sz\<rparr>"
  have ok: "phys_ok ?ph1" "set (rf_pages f) \<inter> fa_free (ph_frames ?ph1) = {}" "distinct (rf_pages f)"
    using rf_clear_tail_ok(1) [OF assms(1), of sz] by (auto simp: rf_ok_def pages_ok_def)
  have lt: "card (fa_free (ph_frames ?ph1)) < div_ceil sz PAGE_SIZE - length (rf_pages f)" using assms(2) by simp
  obtain ph2 ps where g:
      "grow frame_alloc (div_ceil sz PAGE_SIZE - length (rf_pages f)) ?ph1 (rf_pages f) = Some (ph2, rf_pages f @ ps, False)"
      "length ps = card (fa_free (ph_frames ph))"
    using grow_exhausted [OF ok lt] by auto
  let ?f' = "f\<lparr>rf_len := sz, rf_pages := rf_pages f @ ps\<rparr>"
  have tr: "rf_truncate ph f sz = Some (ph2, ?f', Err ENOMEM)"
    using g(1) by (simp add: rf_truncate_def Let_def)
  have short: "\<not> div_ceil sz PAGE_SIZE \<le> length (rf_pages ?f')" using assms(2) g(2) by simp
  then have past: "length (rf_pages ?f') * PAGE_SIZE < sz"
    by (subst (asm) div_ceil_le_iff) simp_all
  then have "length (rf_pages ?f') \<le> (sz - 1) div PAGE_SIZE"
    by (simp add: less_eq_div_iff_mult_less_eq)
  then have "rf_readat ph2 ?f' (sz - 1) [b] = ([b], Panic)"
    using past by (intro read_past_pages) simp_all
  moreover have "\<not> rf_ok ph2 ?f'" using past by (simp add: rf_ok_def)
  ultimately show ?thesis using tr by blast
qed

theorem truncate_enomem_breaks_file_witness:
  "\<exists>ph' f'. rf_truncate \<lparr>ph_frames = demo_frames, ph_mem = \<lambda>_. 0\<rparr> (ram_file_new ''a'') 20480 = Some (ph', f', Err ENOMEM) \<and>
     rf_readat ph' f' 20479 [0] = ([0], Panic)"
proof -
  have "card (fa_free (ph_frames \<lparr>ph_frames = demo_frames, ph_mem = \<lambda>_. 0\<rparr>)) <
      div_ceil 20480 PAGE_SIZE - length (rf_pages (ram_file_new ''a''))"
    by (simp add: demo_frames_free div_ceil_def ram_file_new_def)
  moreover have "(20480 :: nat) - 1 = 20479" by simp
  ultimately show ?thesis
    using truncate_enomem_breaks_file [OF demo_file_ok, of 20480 0] by metis
qed

text \<open>A write far past the end that memory cannot cover takes every free frame, stores
  nothing, reports 0 bytes written, and still moves the length to the offset: reading the
  last byte then panics.\<close>

theorem sparse_write_breaks_file:
  assumes "rf_ok ph f" "fa_free (ph_frames ph) \<noteq> {}" "off + length buf < 2 ^ 64" "rf_len f < off"
    and "(length (rf_pages f) + card (fa_free (ph_frames ph))) * PAGE_SIZE < off"
  shows "\<exists>ph' f'. rf_writeat ph f off buf = Some (ph', f', Ok 0) \<and> rf_len f' = off \<and>
    rf_readat ph' f' (off - 1) [b] = ([b], Panic)"
proof -
  let ?n = "div_ceil (off + length buf) PAGE_SIZE - length (rf_pages f)" and ?k = "card (fa_free (ph_frames ph))"
  have pos: "?k > 0" using assms(2) by (simp add: card_gt_0_iff)
  have "\<not> off + length buf \<le> (length (rf_pages f) + ?k) * PAGE_SIZE" using assms(5) by linarith
  then have "\<not> div_ceil (off + length buf) PAGE_SIZE \<le> length (rf_pages f) + ?k"
    by (subst div_ceil_le_iff) simp_all
  then have lt: "?k < ?n" by linarith
  have ok: "phys_ok ph" "set (rf_pages f) \<inter> fa_free (ph_frames ph) = {}" "distinct (rf_pages f)"
    using assms(1) by (auto simp: rf_ok_def pages_ok_def)
  obtain ph1 ps where g: "grow frame_alloc ?n ph (rf_pages f) = Some (ph1, rf_pages f @ ps, False)" "length ps = ?k"
    using grow_exhausted [OF ok lt] by blast
  let ?f' = "f\<lparr>rf_pages := rf_pages f @ ps, rf_len := off\<rparr>"
  have le: "length (rf_pages f @ ps) * PAGE_SIZE < off" using assms(5) g(2) by simp
  have stop: "rf_write_loop (ph_mem ph1) (rf_pages f @ ps) off [] = (ph_mem ph1, off)"
    by (subst rf_write_loop.simps) simp
  have "rf_writeat ph f off buf = Some (ph1\<lparr>ph_mem := ph_mem ph1\<rparr>, ?f', Ok 0)"
    using g assms(2) le stop assms(3,4) by (simp add: rf_writeat_def Let_def wadd_exact del: distrib_right_numeral)
  moreover have "length (rf_pages ?f') \<le> (off - 1) div PAGE_SIZE"
    using le by (simp add: less_eq_div_iff_mult_less_eq)
  then have "rf_readat (ph1\<lparr>ph_mem := ph_mem ph1\<rparr>) ?f' (off - 1) [b] = ([b], Panic)"
    using assms(4) by (intro read_past_pages) simp_all
  ultimately show ?thesis
    by (intro exI [of _ "ph1\<lparr>ph_mem := ph_mem ph1\<rparr>"] exI [of _ ?f']) simp
qed

theorem sparse_write_breaks_file_witness:
  "\<exists>ph' f'. rf_writeat \<lparr>ph_frames = demo_frames, ph_mem = \<lambda>_. 0\<rparr> (ram_file_new ''a'') 40960 [1] = Some (ph', f', Ok 0) \<and>
     rf_len f' = 40960 \<and> rf_readat ph' f' 40959 [0] = ([0], Panic)"
proof -
  have "fa_free (ph_frames \<lparr>ph_frames = demo_frames, ph_mem = \<lambda>_. 0\<rparr>) \<noteq> {}"
    "40960 + length [1 :: u8] < 2 ^ 64" "rf_len (ram_file_new ''a'') < 40960"
    "(length (rf_pages (ram_file_new ''a'')) +
      card (fa_free (ph_frames \<lparr>ph_frames = demo_frames, ph_mem = \<lambda>_. 0\<rparr>))) * PAGE_SIZE < 40960"
    by (simp_all add: demo_frames_free ram_file_new_def)
  moreover have "(40960 :: nat) - 1 = 40959" by simp
  ultimately show ?thesis
    using sparse_write_breaks_file [OF demo_file_ok, of 40960 "[1]" 0] by metis
qed

end
