(* ===== verification/RamDir.thy ===== *)
theory RamDir
  imports RamFile
begin

text \<open>
  Directories of the RAM file system, \<open>RamDir\<close> and \<open>RamLink\<close> in \<open>filesystem/ramfs/src/lib.rs\<close>.

  The shared \<open>RamDirInner\<close> and \<open>RamFileInner\<close> objects live in a store and are named by their
  index; a directory is a vector of entries.  The lemmas say what each operation does to
  lookups and listings, and where names can become ambiguous.
\<close>

section \<open>The store\<close>

text \<open>An inode handle (\<open>Arc<dyn INodeInterface>\<close>) and a directory entry (\<open>FileContainer\<close>).\<close>

datatype inode = IFile nat | IDir nat | ILink string inode

datatype container = CFile string nat | CDir string nat | CLink string inode

record ram_fs =
  fs_dirs :: "(string \<times> container list) list"
  fs_files :: "ram_file list"

definition ram_fs_new :: ram_fs where
  "ram_fs_new = \<lparr>fs_dirs = [([], [])], fs_files = []\<rparr>"

definition root_dir :: inode where
  "root_dir = IDir 0"

fun to_inode :: "container \<Rightarrow> inode" where
  "to_inode (CFile name i) = IFile i"
| "to_inode (CDir name i) = IDir i"
| "to_inode (CLink name target) = ILink name target"

fun filename :: "container \<Rightarrow> string" where
  "filename (CFile name i) = name"
| "filename (CDir name i) = name"
| "filename (CLink name target) = name"

abbreviation children :: "ram_fs \<Rightarrow> nat \<Rightarrow> container list" where
  "children fs d \<equiv> snd (fs_dirs fs ! d)"

definition set_children :: "ram_fs \<Rightarrow> nat \<Rightarrow> container list \<Rightarrow> ram_fs" where
  "set_children fs d cs = fs\<lparr>fs_dirs := (fs_dirs fs)[d := (fst (fs_dirs fs ! d), cs)]\<rparr>"

definition add_dir :: "ram_fs \<Rightarrow> nat \<Rightarrow> string \<Rightarrow> ram_fs" where
  "add_dir fs d name =
     (let fs' = set_children fs d (children fs d @ [CDir name (length (fs_dirs fs))])
      in fs'\<lparr>fs_dirs := fs_dirs fs' @ [(name, [])]\<rparr>)"

definition rd_mkdir :: "ram_fs \<Rightarrow> nat \<Rightarrow> string \<Rightarrow> ram_fs \<times> unit res" where
  "rd_mkdir fs d name =
     (case find (\<lambda>x. filename x = name) (children fs d) of
        Some _ \<Rightarrow> (fs, Err EEXIST)
      | None \<Rightarrow> (add_dir fs d name, Ok ()))"

definition rd_lookup :: "ram_fs \<Rightarrow> nat \<Rightarrow> string \<Rightarrow> inode res" where
  "rd_lookup fs d name =
     (case find (\<lambda>x. filename x = name) (children fs d) of
        Some x \<Rightarrow> Ok (to_inode x)
      | None \<Rightarrow> Err ENOENT)"

definition rd_create :: "ram_fs \<Rightarrow> nat \<Rightarrow> string \<Rightarrow> file_type \<Rightarrow> ram_fs \<times> unit res" where
  "rd_create fs d name ty =
     (if ty = FtDirectory then (add_dir fs d name, Ok ())
      else if ty = FtFile
      then (let fs' = set_children fs d (children fs d @ [CFile name (length (fs_files fs))])
            in fs'\<lparr>fs_files := fs_files fs' @ [ram_file_new name]\<rparr>, Ok ())
      else (fs, Panic))"

definition extract_children :: "ram_fs \<Rightarrow> nat \<Rightarrow> (container \<Rightarrow> bool) \<Rightarrow> ram_fs \<times> unit res" where
  "extract_children fs d P =
     (set_children fs d (filter (\<lambda>x. \<not> P x) (children fs d)),
      if length (filter P (children fs d)) > 0 then Ok () else Err ENOENT)"

definition rd_rmdir :: "ram_fs \<Rightarrow> nat \<Rightarrow> string \<Rightarrow> ram_fs \<times> unit res" where
  "rd_rmdir fs d name =
     extract_children fs d (\<lambda>x. case x of CDir n i \<Rightarrow> n = name | _ \<Rightarrow> False)"

definition rd_remove :: "ram_fs \<Rightarrow> nat \<Rightarrow> string \<Rightarrow> ram_fs \<times> unit res" where
  "rd_remove fs d name =
     extract_children fs d (\<lambda>x. case x of CFile n i \<Rightarrow> n = name | CDir n i \<Rightarrow> False | CLink n t \<Rightarrow> n = name)"

definition rd_unlink :: "ram_fs \<Rightarrow> nat \<Rightarrow> string \<Rightarrow> ram_fs \<times> unit res" where
  "rd_unlink fs d name = rd_remove fs d name"

definition rd_read_dir :: "ram_fs \<Rightarrow> nat \<Rightarrow> dir_entry list" where
  "rd_read_dir fs d =
     map (\<lambda>x. case x of
         CFile n i \<Rightarrow> \<lparr>de_filename = n, de_len = rf_len (fs_files fs ! i), de_file_type = FtFile\<rparr>
       | CDir n i \<Rightarrow> \<lparr>de_filename = n, de_len = 0, de_file_type = FtDirectory\<rparr>
       | CLink n t \<Rightarrow> \<lparr>de_filename = n, de_len = 0, de_file_type = FtLink\<rparr>)
       (children fs d)"

definition rd_link :: "ram_fs \<Rightarrow> nat \<Rightarrow> string \<Rightarrow> inode \<Rightarrow> ram_fs \<times> unit res" where
  "rd_link fs d name src =
     (case find (\<lambda>x. filename x = name) (children fs d) of
        Some _ \<Rightarrow> (fs, Err EEXIST)
      | None \<Rightarrow> (set_children fs d (children fs d @ [CLink name src]), Ok ()))"

text \<open>The operations as inodes see them: files and links keep the defaults of \<open>INodeInterface\<close>
  for the directory operations, and links pass reads, writes and truncations on.\<close>

fun inode_lookup :: "ram_fs \<Rightarrow> inode \<Rightarrow> string \<Rightarrow> inode res" where
  "inode_lookup fs (IDir d) name = rd_lookup fs d name"
| "inode_lookup fs _ name = Err ENOENT"

fun inode_create :: "ram_fs \<Rightarrow> inode \<Rightarrow> string \<Rightarrow> file_type \<Rightarrow> ram_fs \<times> unit res" where
  "inode_create fs (IDir d) name ty = rd_create fs d name ty"
| "inode_create fs _ name ty = (fs, Err ENOTDIR)"

fun link_target :: "inode \<Rightarrow> inode" where
  "link_target (ILink name t) = link_target t"
| "link_target i = i"

fun inode_readat :: "phys \<Rightarrow> ram_fs \<Rightarrow> inode \<Rightarrow> usize \<Rightarrow> u8 list \<Rightarrow> u8 list \<times> usize res" where
  "inode_readat ph fs (IFile i) off buf = rf_readat ph (fs_files fs ! i) off buf"
| "inode_readat ph fs (ILink n t) off buf = inode_readat ph fs t off buf"
| "inode_readat ph fs (IDir d) off buf = (buf, Err ENOENT)"

fun inode_writeat :: "phys \<Rightarrow> ram_fs \<Rightarrow> inode \<Rightarrow> usize \<Rightarrow> u8 list \<Rightarrow> (phys \<times> ram_fs \<times> usize res) run" where
  "inode_writeat ph fs (IFile i) off buf =
     map_option (\<lambda>(ph, f, r). (ph, fs\<lparr>fs_files := (fs_files fs)[i := f]\<rparr>, r)) (rf_writeat ph (fs_files fs ! i) off buf)"
| "inode_writeat ph fs (ILink n t) off buf = inode_writeat ph fs t off buf"
| "inode_writeat ph fs (IDir d) off buf = Some (ph, fs, Err ENOENT)"

fun inode_truncate :: "phys \<Rightarrow> ram_fs \<Rightarrow> inode \<Rightarrow> usize \<Rightarrow> (phys \<times> ram_fs \<times> unit res) run" where
  "inode_truncate ph fs (IFile i) sz =
     map_option (\<lambda>(ph, f, r). (ph, fs\<lparr>fs_files := (fs_files fs)[i := f]\<rparr>, r)) (rf_truncate ph (fs_files fs ! i) sz)"
| "inode_truncate ph fs (ILink n t) sz = inode_truncate ph fs t sz"
| "inode_truncate ph fs (IDir d) sz = Some (ph, fs, Err EPERM)"

section \<open>Well-formedness\<close>

fun inode_valid :: "ram_fs \<Rightarrow> inode \<Rightarrow> bool" where
  "inode_valid fs (IFile i) \<longleftrightarrow> i < length (fs_files fs)"
| "inode_valid fs (IDir d) \<longleftrightarrow> d < length (fs_dirs fs)"
| "inode_valid fs (ILink n t) \<longleftrightarrow> inode_valid fs t"

definition fs_ok :: "ram_fs \<Rightarrow> bool" where
  "fs_ok fs \<longleftrightarrow> fs_dirs fs \<noteq> [] \<and>
     (\<forall>d < length (fs_dirs fs). \<forall>c \<in> set (children fs d). inode_valid fs (to_inode c))"

definition names_unique :: "ram_fs \<Rightarrow> nat \<Rightarrow> bool" where
  "names_unique fs d \<longleftrightarrow> distinct (map filename (children fs d))"

lemma children_set [simp]:
  "d < length (fs_dirs fs) \<Longrightarrow> children (set_children fs d cs) e = (if e = d then cs else children fs e)"
  by (simp add: set_children_def nth_list_update)

lemma set_children_simps [simp]:
  "length (fs_dirs (set_children fs d cs)) = length (fs_dirs fs)"
  "fs_files (set_children fs d cs) = fs_files fs"
  by (simp_all add: set_children_def)

lemma inode_valid_mono:
  "inode_valid fs i \<Longrightarrow> length (fs_files fs) \<le> length (fs_files fs') \<Longrightarrow>
   length (fs_dirs fs) \<le> length (fs_dirs fs') \<Longrightarrow> inode_valid fs' i"
  by (induction i) auto

lemma fs_ok_set_children:
  assumes "fs_ok fs" "d < length (fs_dirs fs)" "\<forall>c \<in> set cs. inode_valid fs (to_inode c)"
  shows "fs_ok (set_children fs d cs)"
  unfolding fs_ok_def
proof (intro conjI allI impI ballI)
  show "fs_dirs (set_children fs d cs) \<noteq> []" using assms(1) by (auto simp: fs_ok_def set_children_def)
  fix e c
  assume "e < length (fs_dirs (set_children fs d cs))" "c \<in> set (children (set_children fs d cs) e)"
  then have "inode_valid fs (to_inode c)" using assms by (auto simp: fs_ok_def split: if_splits)
  then show "inode_valid (set_children fs d cs) (to_inode c)" by (rule inode_valid_mono) simp_all
qed

lemma add_dir_simps [simp]:
  "d < length (fs_dirs fs) \<Longrightarrow> e < length (fs_dirs fs) \<Longrightarrow> children (add_dir fs d name) e =
     (if e = d then children fs d @ [CDir name (length (fs_dirs fs))] else children fs e)"
  "children (add_dir fs d name) (length (fs_dirs fs)) = []"
  "length (fs_dirs (add_dir fs d name)) = Suc (length (fs_dirs fs))"
  "fs_files (add_dir fs d name) = fs_files fs"
proof -
  show "children (add_dir fs d name) e =
      (if e = d then children fs d @ [CDir name (length (fs_dirs fs))] else children fs e)"
    if "d < length (fs_dirs fs)" "e < length (fs_dirs fs)"
    using that by (simp add: add_dir_def Let_def nth_append)
qed (simp_all add: add_dir_def Let_def nth_append)

lemma fs_ok_add_dir:
  assumes "fs_ok fs" "d < length (fs_dirs fs)"
  shows "fs_ok (add_dir fs d name)"
  unfolding fs_ok_def
proof (intro conjI allI impI ballI)
  show "fs_dirs (add_dir fs d name) \<noteq> []" by (simp add: add_dir_def Let_def)
  fix e c
  assume e: "e < length (fs_dirs (add_dir fs d name))" "c \<in> set (children (add_dir fs d name) e)"
  show "inode_valid (add_dir fs d name) (to_inode c)"
  proof (cases "e < length (fs_dirs fs)")
    case True
    with e(2) assms(2) have "c = CDir name (length (fs_dirs fs)) \<or> c \<in> set (children fs e)"
      by (auto split: if_splits)
    then show ?thesis
    proof
      assume "c \<in> set (children fs e)"
      then have "inode_valid fs (to_inode c)" using True assms(1) by (auto simp: fs_ok_def)
      then show ?thesis by (rule inode_valid_mono) simp_all
    qed simp
  next
    case False
    then have "e = length (fs_dirs fs)" using e(1) by simp
    with e(2) show ?thesis by simp
  qed
qed

lemma rd_create_file_simps:
  fixes name :: string
  assumes "d < length (fs_dirs fs)"
  defines "fs' \<equiv> fst (rd_create fs d name FtFile)"
  shows "e < length (fs_dirs fs) \<Longrightarrow> children fs' e =
      (if e = d then children fs d @ [CFile name (length (fs_files fs))] else children fs e)"
    and "fs_files fs' = fs_files fs @ [ram_file_new name]"
    and "length (fs_dirs fs') = length (fs_dirs fs)"
  using assms(1) by (simp_all add: fs'_def rd_create_def Let_def set_children_def nth_list_update)

lemma fs_ok_create_file:
  assumes "fs_ok fs" "d < length (fs_dirs fs)"
  shows "fs_ok (fst (rd_create fs d name FtFile))"
  unfolding fs_ok_def
proof (intro conjI allI impI ballI)
  let ?fs' = "fst (rd_create fs d name FtFile)"
  note sm = rd_create_file_simps [OF assms(2), where name = name]
  show "fs_dirs ?fs' \<noteq> []" using assms(2) sm(3) by (metis length_0_conv not_less_zero)
  fix e c
  assume "e < length (fs_dirs ?fs')" "c \<in> set (children ?fs' e)"
  then have e: "e < length (fs_dirs fs)" "c = CFile name (length (fs_files fs)) \<or> c \<in> set (children fs e)"
    using sm(1) [of e] sm(3) by (auto split: if_splits)
  from e(2) show "inode_valid ?fs' (to_inode c)"
  proof
    assume "c \<in> set (children fs e)"
    then have "inode_valid fs (to_inode c)" using e(1) assms(1) by (auto simp: fs_ok_def)
    then show ?thesis by (rule inode_valid_mono) (simp_all add: sm(2,3))
  qed (simp add: sm(2))
qed

lemma fs_ok_extract:
  "fs_ok fs \<Longrightarrow> d < length (fs_dirs fs) \<Longrightarrow> fs_ok (fst (extract_children fs d P))"
  unfolding extract_children_def fst_conv
  by (rule fs_ok_set_children) (auto simp: fs_ok_def)

text \<open>Every directory operation keeps the store well formed.\<close>

lemma fs_ok_ops:
  assumes "fs_ok fs" "d < length (fs_dirs fs)"
  shows "fs_ok (fst (rd_mkdir fs d name))" "fs_ok (fst (rd_create fs d name ty))"
    "fs_ok (fst (rd_rmdir fs d name))" "fs_ok (fst (rd_remove fs d name))"
    "inode_valid fs src \<Longrightarrow> fs_ok (fst (rd_link fs d name src))"
proof -
  show "fs_ok (fst (rd_mkdir fs d name))"
    using fs_ok_add_dir [OF assms] assms(1) by (simp add: rd_mkdir_def split: option.split)
  show "fs_ok (fst (rd_create fs d name ty))"
    using fs_ok_add_dir [OF assms] fs_ok_create_file [OF assms] assms(1)
    by (cases ty) (simp_all add: rd_create_def)
  show "fs_ok (fst (rd_rmdir fs d name))" "fs_ok (fst (rd_remove fs d name))"
    using fs_ok_extract [OF assms] by (simp_all add: rd_rmdir_def rd_remove_def)
  show "fs_ok (fst (rd_link fs d name src))" if "inode_valid fs src"
  proof (cases "find (\<lambda>x. filename x = name) (children fs d)")
    case None
    have "\<forall>c \<in> set (children fs d @ [CLink name src]). inode_valid fs (to_inode c)"
      using assms that by (auto simp: fs_ok_def)
    then show ?thesis using None fs_ok_set_children [OF assms] by (simp add: rd_link_def)
  qed (simp add: rd_link_def assms(1))
qed

lemma find_append: "find P (xs @ ys) = (case find P xs of None \<Rightarrow> find P ys | Some x \<Rightarrow> Some x)"
  by (induction xs) auto

lemma find_filename_None: "find (\<lambda>x. filename x = name) cs = None \<longleftrightarrow> name \<notin> filename ` set cs"
  by (auto simp: find_None_iff)

lemma find_filter_other:
  "(\<And>x. P x \<Longrightarrow> \<not> Q x) \<Longrightarrow> find P (filter (\<lambda>x. \<not> Q x) cs) = find P cs"
  by (induction cs) auto

section \<open>Properties\<close>

text \<open>In a directory whose names are unique, \<open>mkdir\<close> fails with \<open>EEXIST\<close> exactly when the name is
  taken and changes nothing then; otherwise the name resolves to a new empty directory, other
  names resolve as before, and names stay unique.\<close>

theorem mkdir_correct:
  assumes "fs_ok fs" "d < length (fs_dirs fs)" "names_unique fs d"
  shows "case rd_mkdir fs d name of
      (fs', Err e) \<Rightarrow> e = EEXIST \<and> fs' = fs \<and> rd_lookup fs d name \<noteq> Err ENOENT
    | (fs', Ok _) \<Rightarrow> rd_lookup fs d name = Err ENOENT \<and> fs_ok fs' \<and> names_unique fs' d \<and>
        rd_lookup fs' d name = Ok (IDir (length (fs_dirs fs))) \<and>
        rd_read_dir fs' (length (fs_dirs fs)) = [] \<and>
        (\<forall>n. n \<noteq> name \<longrightarrow> rd_lookup fs' d n = rd_lookup fs d n)
    | (fs', Panic) \<Rightarrow> False"
proof (cases "find (\<lambda>x. filename x = name) (children fs d)")
  case None
  then have new: "name \<notin> filename ` set (children fs d)" by (simp add: find_filename_None)
  have "rd_mkdir fs d name = (add_dir fs d name, Ok ())" using None by (simp add: rd_mkdir_def)
  moreover have "names_unique (add_dir fs d name) d"
    using assms(2,3) new by (auto simp: names_unique_def)
  ultimately show ?thesis
    using None assms(2) fs_ok_add_dir [OF assms(1,2)]
    by (auto simp: rd_lookup_def rd_read_dir_def find_append split: option.split)
next
  case (Some x)
  then show ?thesis by (simp add: rd_mkdir_def rd_lookup_def)
qed

lemma ram_fs_new_ok: "fs_ok ram_fs_new" "names_unique ram_fs_new 0"
  by (simp_all add: ram_fs_new_def fs_ok_def names_unique_def)

theorem mkdir_correct_witness:
  "\<exists>fs'. rd_mkdir ram_fs_new 0 ''tmp'' = (fs', Ok ()) \<and> fs_ok fs' \<and> rd_lookup fs' 0 ''tmp'' = Ok (IDir 1)"
proof -
  have "rd_mkdir ram_fs_new 0 ''tmp'' = (add_dir ram_fs_new 0 ''tmp'', Ok ())"
    by (simp add: rd_mkdir_def ram_fs_new_def)
  then show ?thesis
    using mkdir_correct [OF ram_fs_new_ok(1) _ ram_fs_new_ok(2), of "''tmp''"]
    by (simp add: ram_fs_new_def)
qed

text \<open>\<open>create\<close> never refuses a name that exists.  The name keeps resolving to the old entry, a
  second entry with the same name appears in listings, and names are no longer unique.\<close>

theorem create_duplicates:
  assumes "d < length (fs_dirs fs)" "rd_lookup fs d name = Ok old"
  shows "\<exists>fs'. rd_create fs d name FtFile = (fs', Ok ()) \<and> rd_lookup fs' d name = Ok old \<and>
    \<not> names_unique fs' d \<and>
    map de_filename (rd_read_dir fs' d) = map de_filename (rd_read_dir fs d) @ [name]"
proof -
  let ?fs' = "fst (rd_create fs d name FtFile)"
  obtain x where x: "find (\<lambda>x. filename x = name) (children fs d) = Some x" "old = to_inode x"
    using assms(2) by (auto simp: rd_lookup_def split: option.splits)
  then have mem: "name \<in> filename ` set (children fs d)"
    using find_filename_None [of name "children fs d"] by auto
  have ch: "children ?fs' d = children fs d @ [CFile name (length (fs_files fs))]"
    using rd_create_file_simps(1) [OF assms(1,1)] by simp
  have dn: "map de_filename (rd_read_dir g e) = map filename (children g e)" for g e
    by (auto simp: rd_read_dir_def split: container.split)
  have "rd_create fs d name FtFile = (?fs', Ok ())" by (simp add: rd_create_def Let_def)
  moreover have "rd_lookup ?fs' d name = Ok old" using x by (simp add: rd_lookup_def ch find_append)
  moreover have "\<not> names_unique ?fs' d" using mem by (simp add: names_unique_def ch)
  ultimately show ?thesis by (intro exI [of _ ?fs']) (simp add: dn ch)
qed

theorem create_duplicates_witness:
  "\<exists>fs fs'. rd_create ram_fs_new 0 ''a'' FtFile = (fs, Ok ()) \<and> rd_create fs 0 ''a'' FtFile = (fs', Ok ()) \<and>
     map de_filename (rd_read_dir fs' 0) = [''a'', ''a'']"
proof -
  let ?fs = "fst (rd_create ram_fs_new 0 ''a'' FtFile)"
  have fs: "rd_create ram_fs_new 0 ''a'' FtFile = (?fs, Ok ())" by (simp add: rd_create_def Let_def)
  have "0 < length (fs_dirs ?fs)" "rd_lookup ?fs 0 ''a'' = Ok (IFile 0)"
       "map de_filename (rd_read_dir ?fs 0) = [''a'']"
    by (simp_all add: rd_create_def ram_fs_new_def Let_def set_children_def rd_lookup_def rd_read_dir_def)
  then show ?thesis using fs create_duplicates [of 0 ?fs "''a''" "IFile 0"] by auto
qed

text \<open>\<open>unlink\<close> removes every file and link entry of the name and no directory; it reports
  \<open>ENOENT\<close> exactly when there was none, and leaves other names alone.\<close>

theorem unlink_correct:
  assumes "d < length (fs_dirs fs)"
  shows "case rd_unlink fs d name of (fs', r) \<Rightarrow>
    (r = (if \<exists>c \<in> set (children fs d). filename c = name \<and> (\<forall>i. c \<noteq> CDir name i) then Ok () else Err ENOENT)) \<and>
    (\<forall>c \<in> set (children fs' d). filename c = name \<longrightarrow> (\<exists>i. c = CDir name i)) \<and>
    (\<forall>n. n \<noteq> name \<longrightarrow> rd_lookup fs' d n = rd_lookup fs d n)"
proof -
  let ?Q = "\<lambda>x. case x of CFile n i \<Rightarrow> n = name | CDir n i \<Rightarrow> False | CLink n t \<Rightarrow> n = name"
  have Q: "?Q c \<longleftrightarrow> filename c = name \<and> (\<forall>i. c \<noteq> CDir name i)" for c by (cases c) auto
  have "rd_lookup (set_children fs d (filter (\<lambda>x. \<not> ?Q x) (children fs d))) d n = rd_lookup fs d n" if "n \<noteq> name" for n
    using find_filter_other [of "\<lambda>x. filename x = n" ?Q "children fs d"] that assms
    by (auto simp: rd_lookup_def Q)
  moreover have "\<exists>i. c = CDir name i" if "\<not> ?Q c" "filename c = name" for c
    using that by (cases c) auto
  ultimately show ?thesis
    using assms by (auto simp: rd_unlink_def rd_remove_def extract_children_def Q filter_empty_conv)
qed

theorem unlink_correct_witness:
  "\<exists>fs'. rd_unlink (fst (rd_create ram_fs_new 0 ''a'' FtFile)) 0 ''a'' = (fs', Ok ()) \<and> rd_lookup fs' 0 ''b'' = Err ENOENT"
proof -
  let ?fs = "fst (rd_create ram_fs_new 0 ''a'' FtFile)"
  have "0 < length (fs_dirs ?fs)" "children ?fs 0 = [CFile ''a'' 0]" "rd_lookup ?fs 0 ''b'' = Err ENOENT"
    by (simp_all add: rd_create_def ram_fs_new_def Let_def set_children_def rd_lookup_def)
  then show ?thesis using unlink_correct [of 0 ?fs "''a''"] by (auto split: prod.splits)
qed

end
