(* ===== verification/Pipes.thy ===== *)
theory Pipes
  imports Prelude
begin

unbundle bit_operations_syntax

text \<open>
  Byte channels: pipes (\<open>filesystem/fs/src/pipe.rs\<close>), socket pairs
  (\<open>kernel/src/user/socket_pair.rs\<close>) and the futures that retry a read or write until it no
  longer reports \<open>EWOULDBLOCK\<close> (\<open>filesystem/fs/src/lib.rs\<close>).

  Both channels are byte queues; the locale \<open>byte_channel\<close> states their shared contract and
  derives the FIFO law for every interleaving of reads and writes.  The lemmas also settle
  when a blocking operation can complete and what \<open>poll\<close> promises.
\<close>

section \<open>Poll events and futures\<close>

type_synonym poll_event = "16 word"

abbreviation POLLIN :: poll_event where "POLLIN \<equiv> 0x001"
abbreviation POLLOUT :: poll_event where "POLLOUT \<equiv> 0x004"
abbreviation POLLERR :: poll_event where "POLLERR \<equiv> 0x008"

text \<open>\<open>bitflags\<close>: \<open>a.contains(b)\<close>.\<close>

definition contains :: "poll_event \<Rightarrow> poll_event \<Rightarrow> bool" where
  "contains a b \<longleftrightarrow> a AND b = b"

datatype 'a poll = Ready 'a | Pending

text \<open>\<open>WaitBlockingRead\<close> and \<open>WaitBlockingWrite\<close>: one poll, from what the file's \<open>readat\<close> or
  \<open>writeat\<close> returned.\<close>

fun wait_blocking_poll :: "'a res \<Rightarrow> 'a res poll" where
  "wait_blocking_poll (Ok n) = Ready (Ok n)"
| "wait_blocking_poll (Err e) = (if e = EWOULDBLOCK then Pending else Ready (Err e))"
| "wait_blocking_poll Panic = Ready Panic"

section \<open>Pipes\<close>

abbreviation PIPE_BUFFER_SIZE :: usize where "PIPE_BUFFER_SIZE \<equiv> 0x10000"

text \<open>The queue shared by the two ends, and the number of live senders.\<close>

record pipe =
  pp_queue :: "u8 list"
  pp_senders :: nat

definition create_pipe :: pipe where
  "create_pipe = \<lparr>pp_queue = [], pp_senders = 1\<rparr>"

definition pipe_writeat :: "pipe \<Rightarrow> u8 list \<Rightarrow> pipe \<times> usize res" where
  "pipe_writeat p buffer =
     (if buffer = [] then (p, Ok 0)
      else if length buffer \<le> 16
      then (p\<lparr>pp_queue := pp_queue p @ buffer\<rparr>, Ok (length buffer))
      else if length (pp_queue p) + length buffer \<le> PIPE_BUFFER_SIZE
      then (p\<lparr>pp_queue := pp_queue p @ buffer\<rparr>, Ok (length buffer))
      else (p, Err EWOULDBLOCK))"

definition pipe_sender_poll :: "pipe \<Rightarrow> poll_event \<Rightarrow> poll_event" where
  "pipe_sender_poll p events =
     (if contains events POLLOUT \<and> length (pp_queue p) \<le> PIPE_BUFFER_SIZE then POLLOUT else 0)"

text \<open>\<open>readat\<close> overwrites the first bytes of the caller's buffer.\<close>

definition pipe_readat :: "pipe \<Rightarrow> u8 list \<Rightarrow> pipe \<times> u8 list \<times> usize res" where
  "pipe_readat p buffer =
     (if buffer = [] then (p, buffer, Ok 0)
      else let available = length (pp_queue p); requested = length buffer
           in if available > 0
              then let rlen = min available requested
                   in (p\<lparr>pp_queue := drop rlen (pp_queue p)\<rparr>,
                       slice_set buffer 0 (take rlen (pp_queue p)), Ok rlen)
              else if pp_senders p > 0 then (p, buffer, Err EWOULDBLOCK)
              else (p, buffer, Ok 0))"

definition pipe_receiver_poll :: "pipe \<Rightarrow> poll_event \<Rightarrow> poll_event" where
  "pipe_receiver_poll p events =
     (let queue_len = length (pp_queue p);
          sender_alive = pp_senders p > 0;
          res = 0;
          res = (if contains events POLLIN
                 then if queue_len > 0 then res OR POLLIN
                      else if \<not> sender_alive then res OR POLLERR else res
                 else res);
          res = (if contains events POLLERR \<and> queue_len = 0 \<and> \<not> sender_alive
                 then res OR POLLERR else res)
      in res)"

section \<open>Socket pairs\<close>

type_synonym socket_pair = "u8 list"

definition sp_writeat :: "socket_pair \<Rightarrow> u8 list \<Rightarrow> socket_pair \<times> usize res" where
  "sp_writeat q buffer =
     (if length q > 0x50000 then (q, Err EWOULDBLOCK)
      else (q @ buffer, Ok (length buffer)))"

definition sp_readat :: "socket_pair \<Rightarrow> u8 list \<Rightarrow> socket_pair \<times> u8 list \<times> usize res" where
  "sp_readat q buffer =
     (let rlen = min (length q) (length buffer)
      in (drop rlen q, slice_set buffer 0 (take rlen q),
          if rlen = 0 then Err EWOULDBLOCK else Ok rlen))"

definition sp_poll :: "socket_pair \<Rightarrow> poll_event \<Rightarrow> poll_event" where
  "sp_poll q events =
     (let res = (if contains events POLLOUT \<and> length q \<le> 0x50000 then POLLOUT else 0)
      in if contains events POLLIN \<and> length q > 0 then res OR POLLIN else res)"

section \<open>The contract of a byte channel\<close>

text \<open>A read reports how many bytes it moved into the front of the buffer.\<close>

datatype io_op = Write "u8 list" | Read "u8 list"

fun bytes_read :: "u8 list \<times> usize res \<Rightarrow> u8 list" where
  "bytes_read (buffer, Ok n) = take n buffer"
| "bytes_read (buffer, _) = []"

fun bytes_written :: "u8 list \<Rightarrow> usize res \<Rightarrow> u8 list" where
  "bytes_written buffer (Ok n) = take n buffer"
| "bytes_written buffer _ = []"

text \<open>A sequence of operations with the bytes accepted and the bytes handed out.\<close>

fun run_ops ::
  "('q \<Rightarrow> u8 list \<Rightarrow> 'q \<times> usize res) \<Rightarrow> ('q \<Rightarrow> u8 list \<Rightarrow> 'q \<times> u8 list \<times> usize res)
   \<Rightarrow> 'q \<Rightarrow> io_op list \<Rightarrow> 'q \<times> u8 list \<times> u8 list" where
  "run_ops wr rd q [] = (q, [], [])"
| "run_ops wr rd q (Write b # ops) =
     (let (q', r) = wr q b; (q'', acc, out) = run_ops wr rd q' ops
      in (q'', bytes_written b r @ acc, out))"
| "run_ops wr rd q (Read b # ops) =
     (let (q', br) = rd q b; (q'', acc, out) = run_ops wr rd q' ops
      in (q'', acc, bytes_read br @ out))"

locale byte_channel =
  fixes wr :: "'q \<Rightarrow> u8 list \<Rightarrow> 'q \<times> usize res"
    and rd :: "'q \<Rightarrow> u8 list \<Rightarrow> 'q \<times> u8 list \<times> usize res"
    and queued :: "'q \<Rightarrow> u8 list"
  assumes write_appends: "wr q b = (q', r) \<Longrightarrow> queued q' = queued q @ bytes_written b r"
    and write_whole: "wr q b = (q', Ok n) \<Longrightarrow> n = length b"
    and read_takes: "rd q b = (q', b', r) \<Longrightarrow>
          queued q = bytes_read (b', r) @ queued q' \<and> length b' = length b"
    and read_most: "rd q b = (q', b', Ok n) \<Longrightarrow> n = min (length (queued q)) (length b)"
begin

lemma fifo:
  "run_ops wr rd q ops = (q', acc, out) \<Longrightarrow> queued q @ acc = out @ queued q'"
proof (induction ops arbitrary: q acc out)
  case (Cons op ops)
  show ?case
  proof (cases op)
    case (Write b)
    obtain q1 r where w: "wr q b = (q1, r)" by fastforce
    obtain acc1 where "run_ops wr rd q1 ops = (q', acc1, out)" "acc = bytes_written b r @ acc1"
      using Cons.prems by (auto simp: Write w split: prod.splits)
    then show ?thesis using Cons.IH write_appends [OF w] by fastforce
  next
    case (Read b)
    obtain q1 b1 r where rr: "rd q b = (q1, b1, r)" by (metis prod_cases3)
    obtain out1 where "run_ops wr rd q1 ops = (q', acc, out1)" "out = bytes_read (b1, r) @ out1"
      using Cons.prems by (auto simp: Read rr split: prod.splits)
    then show ?thesis using Cons.IH read_takes [OF rr] by fastforce
  qed
qed simp

lemma write_then_read:
  assumes "queued q = []" "wr q b = (q1, Ok n)" "b \<noteq> []" "length b \<le> length c" "rd q1 c = (q2, c', Ok m)"
  shows "m = length b \<and> take m c' = b \<and> queued q2 = []"
proof -
  have n: "n = length b" using write_whole assms(2) by blast
  then have q1: "queued q1 = b" using write_appends [OF assms(2)] assms(1) by simp
  have m: "m = length b" using read_most [OF assms(5)] q1 assms(4) by simp
  have "queued q1 = take m c' @ queued q2" "length c' = length c" using read_takes [OF assms(5)] by auto
  with q1 m assms(4) show ?thesis by (metis append_eq_conv_conj append.right_neutral length_take min.absorb2 take_all_iff order_refl append_Nil2 same_append_eq)
qed

end

interpretation ppc: byte_channel pipe_writeat pipe_readat pp_queue
  by unfold_locales
    (auto simp: pipe_writeat_def pipe_readat_def Let_def slice_set_def min_def split: if_splits)

interpretation spc: byte_channel sp_writeat sp_readat "\<lambda>q. q"
  by unfold_locales
    (auto simp: sp_writeat_def sp_readat_def Let_def slice_set_def min_def split: if_splits)

section \<open>Properties\<close>

text \<open>C32: whatever reads and writes are interleaved on a fresh pipe, the bytes handed to
  readers followed by the bytes still queued are exactly the bytes accepted from writers, in
  order: nothing is lost, repeated or reordered.\<close>

theorem pipe_fifo:
  assumes "run_ops pipe_writeat pipe_readat create_pipe ops = (p, acc, out)"
  shows "acc = out @ pp_queue p"
  using ppc.fifo [OF assms] by (simp add: create_pipe_def)

theorem pipe_fifo_witness:
  "\<exists>p acc out. run_ops pipe_writeat pipe_readat create_pipe [Write [1, 2, 3], Read [0, 0], Write [4]] = (p, acc, out) \<and>
     acc = out @ pp_queue p \<and> out = [1, 2]"
proof -
  have r: "run_ops pipe_writeat pipe_readat create_pipe [Write [1, 2, 3], Read [0, 0], Write [4]] =
      (\<lparr>pp_queue = [3, 4], pp_senders = 1\<rparr>, [1, 2, 3, 4], [1, 2])"
    by (simp add: create_pipe_def pipe_writeat_def pipe_readat_def slice_set_def)
  show ?thesis using r pipe_fifo [OF r] by blast
qed

text \<open>A blocking write to a pipe can complete in some state of the pipe exactly when it has
  at most \<open>PIPE_BUFFER_SIZE\<close> bytes; a longer one is retried for ever, even on an empty pipe.\<close>

theorem pipe_write_completes_iff:
  "(\<exists>p. wait_blocking_poll (snd (pipe_writeat p b)) \<noteq> Pending) \<longleftrightarrow> length b \<le> PIPE_BUFFER_SIZE"
proof
  assume "\<exists>p. wait_blocking_poll (snd (pipe_writeat p b)) \<noteq> Pending"
  then show "length b \<le> PIPE_BUFFER_SIZE" by (auto simp: pipe_writeat_def split: if_splits)
next
  assume "length b \<le> PIPE_BUFFER_SIZE"
  then have "wait_blocking_poll (snd (pipe_writeat create_pipe b)) \<noteq> Pending"
    by (auto simp: pipe_writeat_def create_pipe_def)
  then show "\<exists>p. wait_blocking_poll (snd (pipe_writeat p b)) \<noteq> Pending" by blast
qed

text \<open>A blocking read into a non-empty buffer waits exactly while the pipe is empty and a
  sender is alive; it returns 0, the end of file, exactly when the pipe is empty and no
  sender is left, and otherwise at least one byte.\<close>

theorem pipe_read_outcome:
  assumes "buffer \<noteq> []"
  shows "wait_blocking_poll (snd (snd (pipe_readat p buffer))) =
    (if pp_queue p = [] then if pp_senders p > 0 then Pending else Ready (Ok 0)
     else Ready (Ok (min (length (pp_queue p)) (length buffer))))"
  using assms by (simp add: pipe_readat_def Let_def)

theorem pipe_read_outcome_witness:
  "wait_blocking_poll (snd (snd (pipe_readat \<lparr>pp_queue = [7, 8, 9], pp_senders = 0\<rparr> [0, 0]))) = Ready (Ok 2)"
  using pipe_read_outcome [of "[0, 0]" "\<lparr>pp_queue = [7, 8, 9], pp_senders = 0\<rparr>"] by simp

text \<open>Readiness.  The receiver reports \<open>POLLIN\<close> exactly when a read would return data, but
  the sender reports \<open>POLLOUT\<close> also when a write of more than 16 bytes would block.\<close>

theorem pipe_poll_readiness:
  "(contains (pipe_receiver_poll p POLLIN) POLLIN \<longleftrightarrow> pp_queue p \<noteq> []) \<and>
   (\<exists>p b. contains (pipe_sender_poll p POLLOUT) POLLOUT \<and> snd (pipe_writeat p b) = Err EWOULDBLOCK)"
proof
  show "contains (pipe_receiver_poll p POLLIN) POLLIN \<longleftrightarrow> pp_queue p \<noteq> []"
    by (simp add: pipe_receiver_poll_def contains_def Let_def)
  let ?p = "\<lparr>pp_queue = replicate 65536 0, pp_senders = 1\<rparr>" and ?b = "replicate 17 (0 :: u8)"
  have "contains (pipe_sender_poll ?p POLLOUT) POLLOUT"
    by (simp add: pipe_sender_poll_def contains_def)
  moreover have "snd (pipe_writeat ?p ?b) = Err EWOULDBLOCK"
    by (simp add: pipe_writeat_def)
  ultimately show "\<exists>p b. contains (pipe_sender_poll p POLLOUT) POLLOUT \<and> snd (pipe_writeat p b) = Err EWOULDBLOCK"
    by blast
qed

text \<open>Both descriptors of a socket pair are the same queue: bytes written are returned by the
  next large enough read, through whichever descriptor it is made, also the writer's own.\<close>

theorem socket_pair_echo:
  assumes "b \<noteq> []" "length b \<le> length c"
  shows "\<exists>q1 c'. sp_writeat [] b = (q1, Ok (length b)) \<and>
    sp_readat q1 c = ([], c', Ok (length b)) \<and> take (length b) c' = b"
  using assms by (auto simp: sp_writeat_def sp_readat_def slice_set_def Let_def)

theorem socket_pair_echo_witness:
  "\<exists>q1 c'. sp_writeat [] [5, 6] = (q1, Ok 2) \<and> sp_readat q1 [0, 0, 0] = ([], c', Ok 2) \<and> take 2 c' = [5, 6]"
  using socket_pair_echo [of "[5, 6]" "[0, 0, 0]"] by (simp add: numeral_2_eq_2)

end
