(* ===== verification/Paths.thy ===== *)
theory Paths
  imports Prelude "HOL-Library.Sublist"
begin

text \<open>
  Paths and the mount table: \<open>filesystem/fs/src/pathbuf.rs\<close> and \<open>filesystem/fs/src/dentry.rs\<close>.

  A \<open>PathBuf\<close> is the list of its components.  The lemmas show that \<open>join\<close> normalises (no empty,
  \<open>.\<close> or \<open>..\<close> component survives), that printing a normalised path and parsing it again is the
  identity, that joining a relative path in two steps is joining it at once, and that mount
  lookup finds the latest mount above a path and splits the path there.
\<close>

section \<open>Paths (\<open>PathBuf\<close>)\<close>

type_synonym path_buf = "string list"

text \<open>\<open>str::split("/")\<close>: always at least one piece.\<close>

fun split_slash :: "string \<Rightarrow> string list" where
  "split_slash [] = [[]]"
| "split_slash (c # cs) =
     (if c = CHR ''/'' then [] # split_slash cs
      else case split_slash cs of x # xs \<Rightarrow> (c # x) # xs | [] \<Rightarrow> [[c]])"

text \<open>\<open>Vec::pop\<close> on an empty vector does nothing.\<close>

definition join_step :: "path_buf \<Rightarrow> string \<Rightarrow> path_buf" where
  "join_step pb x =
     (if x = ''.'' \<or> x = [] then pb else if x = ''..'' then butlast pb else pb @ [x])"

definition path_join :: "path_buf \<Rightarrow> string \<Rightarrow> path_buf" where
  "path_join self p =
     foldl join_step (if prefix ''/'' p then [] else self) (split_slash p)"

definition path_from :: "string \<Rightarrow> path_buf" where
  "path_from s = path_join [] s"

fun join_slash :: "string list \<Rightarrow> string" where
  "join_slash [] = []"
| "join_slash [x] = x"
| "join_slash (x # y # xs) = x @ CHR ''/'' # join_slash (y # xs)"

definition path_print :: "path_buf \<Rightarrow> string" where
  "path_print self = ''/'' @ join_slash self"

definition path_filename :: "path_buf \<Rightarrow> string" where
  "path_filename self = (if self = [] then ''/'' else last self)"

definition path_dir :: "path_buf \<Rightarrow> path_buf" where
  "path_dir self = butlast self"

definition path_levels :: "path_buf \<Rightarrow> usize" where
  "path_levels self = length self"

definition path_starts_with :: "path_buf \<Rightarrow> path_buf \<Rightarrow> bool" where
  "path_starts_with self target \<longleftrightarrow> prefix target self"

definition path_trim_start :: "path_buf \<Rightarrow> path_buf \<Rightarrow> path_buf" where
  "path_trim_start self target =
     (if path_starts_with self target then drop (length target) self else self)"

section \<open>The mount table\<close>

text \<open>\<open>'fs\<close> stands for a mounted file system with its root node (\<open>DEntryNode\<close>).\<close>

type_synonym 'fs mounts = "(path_buf \<times> 'fs) list"

definition get_mounted :: "'fs mounts \<Rightarrow> path_buf \<Rightarrow> ('fs \<times> path_buf) run" where
  "get_mounted mounted path =
     map_option (\<lambda>(mp, fs). (fs, path_trim_start path mp))
       (find (\<lambda>x. path_starts_with path (fst x)) (rev mounted))"

definition mount_fs :: "'fs mounts \<Rightarrow> 'fs \<Rightarrow> string \<Rightarrow> 'fs mounts" where
  "mount_fs mounted fs path = mounted @ [(path_from path, fs)]"

definition umount :: "'fs mounts \<Rightarrow> path_buf \<Rightarrow> 'fs mounts res" where
  "umount mounted path = Ok (filter (\<lambda>x. fst x \<noteq> path) mounted)"

section \<open>Normalised paths\<close>

definition component_ok :: "string \<Rightarrow> bool" where
  "component_ok x \<longleftrightarrow> x \<noteq> [] \<and> x \<noteq> ''.'' \<and> x \<noteq> ''..'' \<and> CHR ''/'' \<notin> set x"

definition path_ok :: "path_buf \<Rightarrow> bool" where
  "path_ok p \<longleftrightarrow> list_all component_ok p"

lemma split_slash_neq_Nil [simp]: "split_slash s \<noteq> []"
  by (induction s) (auto split: list.splits)

lemma split_slash_no_slash: "x \<in> set (split_slash s) \<Longrightarrow> CHR ''/'' \<notin> set x"
  by (induction s arbitrary: x) (auto split: list.splits if_splits)

lemma join_step_ok: "path_ok pb \<Longrightarrow> CHR ''/'' \<notin> set x \<Longrightarrow> path_ok (join_step pb x)"
  by (auto simp: join_step_def path_ok_def component_ok_def list_all_iff dest: in_set_butlastD)

lemma foldl_join_ok:
  "path_ok pb \<Longrightarrow> \<forall>x \<in> set xs. CHR ''/'' \<notin> set x \<Longrightarrow> path_ok (foldl join_step pb xs)"
  by (induction xs arbitrary: pb) (simp_all add: join_step_ok)

lemma path_join_ok: "path_ok self \<Longrightarrow> path_ok (path_join self p)"
  unfolding path_join_def using split_slash_no_slash
  by (intro foldl_join_ok) (auto simp: path_ok_def)

lemma split_slash_single: "CHR ''/'' \<notin> set x \<Longrightarrow> split_slash x = [x]"
  by (induction x) auto

lemma split_slash_append:
  "CHR ''/'' \<notin> set x \<Longrightarrow> split_slash (x @ CHR ''/'' # s) = x # split_slash s"
  by (induction x) auto

lemma split_join_slash:
  "path_ok p \<Longrightarrow> p \<noteq> [] \<Longrightarrow> split_slash (join_slash p) = p"
  by (induction p rule: join_slash.induct)
    (simp_all add: path_ok_def component_ok_def split_slash_single split_slash_append)

lemma foldl_join_ok_append: "path_ok p \<Longrightarrow> foldl join_step pb p = pb @ p"
  by (induction p arbitrary: pb) (simp_all add: path_ok_def component_ok_def join_step_def)

lemma foldl_split_append:
  "foldl join_step pb (split_slash (a @ CHR ''/'' # b)) = foldl join_step (foldl join_step pb (split_slash a)) (split_slash b)"
proof (induction a arbitrary: pb)
  case (Cons c cs)
  obtain x xs where x: "split_slash cs = x # xs" by (cases "split_slash cs") auto
  have "split_slash (cs @ CHR ''/'' # b) = split_slash cs @ split_slash b" for cs
  proof (induction cs)
    case (Cons d ds)
    then show ?case by (cases "split_slash ds") auto
  qed simp
  then show ?case by (simp del: split_slash.simps flip: append_Cons)
qed (simp add: join_step_def)

section \<open>The mount-table contract\<close>

text \<open>What path resolution relies on: a mounted file system answers for every path below its
  mount point with the rest of the path, and leaves other paths alone.\<close>

locale mount_table =
  fixes lookup :: "'m \<Rightarrow> path_buf \<Rightarrow> ('fs \<times> path_buf) run"
    and add :: "'m \<Rightarrow> 'fs \<Rightarrow> path_buf \<Rightarrow> 'm"
  assumes lookup_under: "lookup (add m fs mp) (mp @ rest) = Some (fs, rest)"
    and lookup_other: "\<not> prefix mp p \<Longrightarrow> lookup (add m fs mp) p = lookup m p"
begin

lemma rooted_total: "lookup (foldl (\<lambda>m (fs, mp). add m fs mp) (add m root []) ms) p \<noteq> None"
proof (induction ms rule: rev_induct)
  case Nil
  show ?case using lookup_under [of m root "[]" p] by simp
next
  case (snoc x ms)
  obtain fs mp where x: "x = (fs, mp)" by (cases x)
  show ?case
  proof (cases "prefix mp p")
    case True
    then show ?thesis by (auto simp: x prefix_def lookup_under)
  next
    case False
    then show ?thesis using snoc by (simp add: x lookup_other)
  qed
qed

lemma shadowing: "lookup (add (add m fs1 mp1) fs2 mp2) (mp2 @ rest) = Some (fs2, rest)"
  by (rule lookup_under)

end

interpretation mtl: mount_table get_mounted "\<lambda>m fs mp. m @ [(mp, fs)]"
  by unfold_locales
    (simp_all add: get_mounted_def path_starts_with_def path_trim_start_def)

lemma get_mounted_None_iff:
  "get_mounted mounted p = None \<longleftrightarrow> (\<forall>x \<in> set mounted. \<not> prefix (fst x) p)"
  by (auto simp: get_mounted_def path_starts_with_def find_None_iff)

section \<open>Properties\<close>

text \<open>C37: joining onto a normalised path gives a normalised path, and printing a normalised
  path and parsing it back gives the same path.\<close>

theorem path_roundtrip:
  assumes "path_ok p"
  shows "path_ok (path_join p s) \<and> path_from (path_print p) = p"
proof
  show "path_ok (path_join p s)" using assms by (rule path_join_ok)
  show "path_from (path_print p) = p"
  proof (cases "p = []")
    case True
    then show ?thesis by (simp add: path_from_def path_print_def path_join_def join_step_def)
  next
    case False
    have "split_slash (path_print p) = [] # p"
      using split_join_slash [OF assms False] by (simp add: path_print_def)
    then show ?thesis
      using foldl_join_ok_append [OF assms, of "[]"]
      by (simp add: path_from_def path_join_def join_step_def)
  qed
qed

theorem path_roundtrip_witness:
  "path_join [''home'', ''user''] ''../x/./y'' = [''home'', ''x'', ''y''] \<and>
   path_ok (path_join [''home'', ''user''] ''../x/./y'') \<and>
   path_from (path_print [''home'', ''user'']) = [''home'', ''user'']"
proof -
  have "path_ok [''home'', ''user'']" by (simp add: path_ok_def component_ok_def)
  note r = path_roundtrip [OF this, of "''../x/./y''"]
  have "path_join [''home'', ''user''] ''../x/./y'' = [''home'', ''x'', ''y'']"
    by (simp add: path_join_def join_step_def)
  with r show ?thesis by blast
qed

text \<open>Resolving \<open>a/b\<close> from a directory is resolving \<open>a\<close> and then the relative path \<open>b\<close> from
  there; an absolute path ignores the directory.\<close>

theorem path_join_compose:
  "if prefix ''/'' b then path_join self b = path_join other b
   else path_join self (a @ ''/'' @ b) =
     (if a = [] then path_join [] b else path_join (path_join self a) b)"
proof -
  have "path_join self (a @ ''/'' @ b) = (if a = [] then path_join [] b else path_join (path_join self a) b)"
    if "\<not> prefix ''/'' b"
    using that by (cases a) (simp_all add: path_join_def foldl_split_append [of _ "_ # _", simplified] join_step_def)
  then show ?thesis by (simp add: path_join_def)
qed

text \<open>Mounting a file system makes every path below the mount point resolve into it with
  the mount point stripped, leaves the other paths as they were, and unmounting a mount point
  that was not in use before restores the table.\<close>

theorem mount_lookup:
  assumes "path_from s \<notin> fst ` set m"
  shows "get_mounted (mount_fs m fs s) p =
      (if prefix (path_from s) p then Some (fs, drop (length (path_from s)) p) else get_mounted m p) \<and>
    umount (mount_fs m fs s) (path_from s) = Ok m"
proof
  have "get_mounted (mount_fs m fs s) (path_from s @ rest) = Some (fs, rest)" for rest
    unfolding mount_fs_def by (rule mtl.lookup_under)
  moreover have "get_mounted (mount_fs m fs s) p = get_mounted m p" if "\<not> prefix (path_from s) p"
    unfolding mount_fs_def using that by (rule mtl.lookup_other)
  ultimately show "get_mounted (mount_fs m fs s) p =
      (if prefix (path_from s) p then Some (fs, drop (length (path_from s)) p) else get_mounted m p)"
    by (auto simp: prefix_def)
  show "umount (mount_fs m fs s) (path_from s) = Ok m"
    using assms by (force simp: umount_def mount_fs_def filter_id_conv)
qed

theorem mount_lookup_witness:
  "get_mounted (mount_fs [([], ''ext4'')] ''procfs'' ''/proc'') [''proc'', ''mounts''] = Some (''procfs'', [''mounts'']) \<and>
   get_mounted (mount_fs [([], ''ext4'')] ''procfs'' ''/proc'') [''etc''] = get_mounted [([], ''ext4'')] [''etc''] \<and>
   umount (mount_fs [([], ''ext4'')] ''procfs'' ''/proc'') [''proc''] = Ok [([], ''ext4'')]"
proof -
  have p: "path_from ''/proc'' = [''proc'']" by (simp add: path_from_def path_join_def join_step_def)
  show ?thesis
    using mount_lookup [of "''/proc''" "[([], ''ext4'')]" "''procfs''" "[''proc'', ''mounts'']"]
      mount_lookup [of "''/proc''" "[([], ''ext4'')]" "''procfs''" "[''etc'']"]
    by (simp add: p)
qed

text \<open>Path lookup cannot panic while a file system is mounted at the root, whatever else
  is mounted after it; once the root is unmounted, every path outside the other mount points
  panics.\<close>

theorem get_mounted_panics_iff:
  "get_mounted (foldl (\<lambda>m (fs, s). mount_fs m fs s) (mount_fs [] root ''/'') ms) p \<noteq> None \<and>
   (\<exists>m'. umount (mount_fs m root ''/'') [] = Ok m' \<and>
     (get_mounted m' p = None \<longleftrightarrow> (\<forall>x \<in> set m. fst x = [] \<or> \<not> prefix (fst x) p)))"
proof
  have root: "path_from ''/'' = []" by (simp add: path_from_def path_join_def join_step_def)
  have "foldl (\<lambda>m (fs, s). mount_fs m fs s) m0 ms =
        foldl (\<lambda>m (fs, mp). m @ [(mp, fs)]) m0 (map (\<lambda>(fs, s). (fs, path_from s)) ms)" for m0
    by (induction ms arbitrary: m0) (auto simp: mount_fs_def)
  then show "get_mounted (foldl (\<lambda>m (fs, s). mount_fs m fs s) (mount_fs [] root ''/'') ms) p \<noteq> None"
    using mtl.rooted_total [of "[]" root "map (\<lambda>(fs, s). (fs, path_from s)) ms" p] by (simp add: mount_fs_def root)
  show "\<exists>m'. umount (mount_fs m root ''/'') [] = Ok m' \<and>
     (get_mounted m' p = None \<longleftrightarrow> (\<forall>x \<in> set m. fst x = [] \<or> \<not> prefix (fst x) p))"
    by (fastforce simp: umount_def mount_fs_def get_mounted_None_iff root)
qed

theorem get_mounted_panics_witness:
  "get_mounted (foldl (\<lambda>m (fs, s). mount_fs m fs s) (mount_fs [] ''ext4'' ''/'') [(''procfs'', ''/proc'')]) [''etc''] \<noteq> None \<and>
   umount (mount_fs [([''proc''], ''procfs'')] ''ext4'' ''/'') [] = Ok [([''proc''], ''procfs'')] \<and>
   get_mounted [([''proc''], ''procfs'')] [''etc''] = None"
proof -
  have root: "path_from ''/'' = []" by (simp add: path_from_def path_join_def join_step_def)
  have u: "umount (mount_fs [([''proc''], ''procfs'')] ''ext4'' ''/'') [] = Ok [([''proc''], ''procfs'')]"
    by (simp add: umount_def mount_fs_def root)
  show ?thesis
    using u get_mounted_panics_iff [of "''ext4''" "[(''procfs'', ''/proc'')]" "[''etc'']" "[([''proc''], ''procfs'')]"]
    by simp
qed

end
