(* ===== verification/OpenFile.thy ===== *)
theory OpenFile
  imports RamDir Pipes Paths
begin

unbundle bit_operations_syntax

text \<open>
  Open files, \<open>File\<close> in \<open>filesystem/fs/src/file.rs\<close>: an inode with a path, a cursor and flags.

  The inode operations are arguments, so that the same definitions serve every file system;
  the lemmas about reading and writing through the cursor hold for every inode that meets the
  \<open>positional_file\<close> contract and are used here for RAM files.
\<close>

section \<open>The open file\<close>

record 'n open_file =
  of_inner :: 'n
  of_path :: path_buf
  of_offset :: usize
  of_flags :: open_flags

definition new_dev :: "'n \<Rightarrow> 'n open_file" where
  "new_dev inner = \<lparr>of_inner = inner, of_path = [], of_offset = 0, of_flags = O_RDWR\<rparr>"

text \<open>\<open>File::open\<close>: the mount is found, the directory part is walked by lookups, with \<open>O_CREAT\<close>
  the last component is created in any case, and then looked up.  \<open>lookup\<close> and \<open>create\<close> are the
  inode's, on a file system state.\<close>

fun walk :: "('s \<Rightarrow> 'n \<Rightarrow> string \<Rightarrow> 'n res) \<Rightarrow> 's \<Rightarrow> 'n \<Rightarrow> string list \<Rightarrow> 'n res" where
  "walk lookup s node [] = Ok node"
| "walk lookup s node (name # names) = res_bind (lookup s node name) (\<lambda>n. walk lookup s n names)"

definition file_open ::
  "('s \<Rightarrow> 'n \<Rightarrow> string \<Rightarrow> 'n res) \<Rightarrow> ('s \<Rightarrow> 'n \<Rightarrow> string \<Rightarrow> file_type \<Rightarrow> 's \<times> unit res)
   \<Rightarrow> 'n mounts \<Rightarrow> 's \<Rightarrow> path_buf \<Rightarrow> open_flags \<Rightarrow> 's \<times> 'n open_file res" where
  "file_open lookup create mounted s pb flags =
     (case get_mounted mounted pb of
        None \<Rightarrow> (s, Panic)
      | Some (node, path) \<Rightarrow>
          (let finish = (\<lambda>n. Ok \<lparr>of_inner = n, of_path = pb, of_offset = 0, of_flags = flags\<rparr>)
           in if path_levels path > 0
              then case walk lookup s node (path_dir path) of
                     Err e \<Rightarrow> (s, Err e)
                   | Panic \<Rightarrow> (s, Panic)
                   | Ok dir \<Rightarrow>
                       if flags_contain flags O_CREAT
                       then case create s dir (path_filename path)
                                   (if flags_contain flags O_DIRECTORY then FtDirectory else FtFile) of
                              (s', Ok _) \<Rightarrow> (s', res_bind (lookup s' dir (path_filename path)) finish)
                            | (s', Err e) \<Rightarrow> (s', Err e)
                            | (s', Panic) \<Rightarrow> (s', Panic)
                       else (s, res_bind (lookup s dir (path_filename path)) finish)
              else (s, finish node)))"

definition check_writeable :: "'n open_file \<Rightarrow> unit res" where
  "check_writeable f =
     (if flags_contain (of_flags f) O_RDWR \<or> flags_contain (of_flags f) O_WRONLY then Ok () else Err EPERM)"

text \<open>Reads and writes: \<open>rd\<close> and \<open>wr\<close> are the inode's \<open>readat\<close> and \<open>writeat\<close> on the inode state \<open>'s\<close>.\<close>

definition advance :: "'n open_file \<Rightarrow> usize res \<Rightarrow> 'n open_file" where
  "advance f r = (case r of Ok x \<Rightarrow> f\<lparr>of_offset := wadd (of_offset f) x\<rparr> | _ \<Rightarrow> f)"

definition file_read ::
  "('s \<Rightarrow> usize \<Rightarrow> u8 list \<Rightarrow> 's \<times> u8 list \<times> usize res) \<Rightarrow> 's \<Rightarrow> 'n open_file \<Rightarrow> u8 list
   \<Rightarrow> 's \<times> 'n open_file \<times> u8 list \<times> usize res" where
  "file_read rd s f buffer = (let (s', b, r) = rd s (of_offset f) buffer in (s', advance f r, b, r))"

definition file_writeat ::
  "('s \<Rightarrow> usize \<Rightarrow> u8 list \<Rightarrow> ('s \<times> usize res) run) \<Rightarrow> 's \<Rightarrow> 'n open_file \<Rightarrow> usize \<Rightarrow> u8 list
   \<Rightarrow> ('s \<times> usize res) run" where
  "file_writeat wr s f offset buffer =
     (case check_writeable f of
        Ok _ \<Rightarrow> if length buffer = 0 then Some (s, Ok 0) else wr s offset buffer
      | Err e \<Rightarrow> Some (s, Err e)
      | Panic \<Rightarrow> None)"

definition file_write ::
  "('s \<Rightarrow> usize \<Rightarrow> u8 list \<Rightarrow> ('s \<times> usize res) run) \<Rightarrow> 's \<Rightarrow> 'n open_file \<Rightarrow> u8 list
   \<Rightarrow> ('s \<times> 'n open_file \<times> usize res) run" where
  "file_write wr s f buffer =
     (case check_writeable f of
        Ok _ \<Rightarrow>
          if length buffer = 0 then Some (s, f, Ok 0)
          else map_option (\<lambda>(s', r). (s', advance f r, r)) (wr s (of_offset f) buffer)
      | Err e \<Rightarrow> Some (s, f, Err e)
      | Panic \<Rightarrow> None)"

text \<open>One poll of the asynchronous variants.  \<open>async_write\<close> has its permission check commented
  out.\<close>

definition file_async_read ::
  "('s \<Rightarrow> usize \<Rightarrow> u8 list \<Rightarrow> 's \<times> u8 list \<times> usize res) \<Rightarrow> 's \<Rightarrow> 'n open_file \<Rightarrow> u8 list
   \<Rightarrow> 's \<times> ('n open_file \<times> u8 list \<times> usize res) poll" where
  "file_async_read rd s f buffer =
     (let (s', b, r) = rd s (of_offset f) buffer
      in if flags_contain (of_flags f) O_NONBLOCK then (s', Ready (advance f r, b, r))
         else case wait_blocking_poll r of
                Pending \<Rightarrow> (s', Pending)
              | Ready r \<Rightarrow> (s', Ready (advance f r, b, r)))"

definition file_async_write ::
  "('s \<Rightarrow> usize \<Rightarrow> u8 list \<Rightarrow> ('s \<times> usize res) run) \<Rightarrow> 's \<Rightarrow> 'n open_file \<Rightarrow> u8 list
   \<Rightarrow> ('s \<times> ('n open_file \<times> usize res) poll) run" where
  "file_async_write wr s f buffer =
     (if length buffer = 0 then Some (s, Ready (f, Ok 0))
      else map_option (\<lambda>(s', r).
             case wait_blocking_poll r of
               Pending \<Rightarrow> (s', Pending)
             | Ready r \<Rightarrow> (s', Ready (advance f r, r))) (wr s (of_offset f) buffer))"

datatype seek_from = SET usize | CURRENT int | END int

text \<open>\<open>as isize\<close> and \<open>isize\<close> addition, which wraps at 64 bits.\<close>

definition as_isize :: "usize \<Rightarrow> int" where
  "as_isize n = sint (word_of_nat n :: u64)"

definition isize_add :: "int \<Rightarrow> int \<Rightarrow> int" where
  "isize_add a b = sint (word_of_int (a + b) :: u64)"

text \<open>\<open>stat_size\<close> is what the inode's \<open>stat\<close> reports, or its error.\<close>

definition file_seek :: "usize res \<Rightarrow> 'n open_file \<Rightarrow> seek_from \<Rightarrow> 'n open_file \<times> usize res" where
  "file_seek stat_size f seek =
     (case stat_size of
        Err e \<Rightarrow> (f, Err e)
      | Panic \<Rightarrow> (f, Panic)
      | Ok sz \<Rightarrow>
          (let new_off = (case seek of
                            SET off \<Rightarrow> as_isize off
                          | CURRENT off \<Rightarrow> isize_add (as_isize (of_offset f)) off
                          | END off \<Rightarrow> isize_add (as_isize sz) off);
               new_off = (if new_off < 0 then 0 else new_off)
           in (f\<lparr>of_offset := nat new_off\<rparr>, Ok (nat new_off))))"

section \<open>Directory listing (\<open>getdents\<close>)\<close>

text \<open>\<open>size_of::<Dirent64>()\<close> is 24: the 19 bytes of its fields padded to the alignment of
  \<open>u64\<close>.  The entry written is given by its length and name; the other fields are 0 or repeat
  the length.\<close>

abbreviation DIRENT64_SIZE :: usize where "DIRENT64_SIZE \<equiv> 24"

type_synonym dirent = "usize \<times> string"

fun getdents_loop ::
  "usize \<Rightarrow> (nat \<times> string) list \<Rightarrow> usize \<Rightarrow> usize \<Rightarrow> nat \<Rightarrow> dirent list \<times> usize \<times> nat" where
  "getdents_loop len [] processed used finished = ([], used, finished)"
| "getdents_loop len ((i, name) # xs) processed used finished =
     (let processed = processed + 1
      in if processed > 50 then ([], used, finished)
         else let current_len = DIRENT64_SIZE + length name + 1
              in if len - used < current_len then ([], used, finished)
                 else let (out, used', fin') = getdents_loop len xs processed (used + current_len) (i + 1)
                      in ((current_len, name) # out, used', fin'))"

definition file_getdents ::
  "dir_entry list res \<Rightarrow> 'n open_file \<Rightarrow> usize \<Rightarrow> 'n open_file \<times> dirent list \<times> usize" where
  "file_getdents read_dir f len =
     (case read_dir of
        Ok entries \<Rightarrow>
          (let names = enumerate 0 (map de_filename entries);
               (out, used, finished) = getdents_loop len (drop (of_offset f) names) 0 0 0
           in (f\<lparr>of_offset := finished\<rparr>, out, used))
      | _ \<Rightarrow> (f, [], 0))"

section \<open>Reading and writing through the cursor\<close>

abbreviation writable :: "'n open_file \<Rightarrow> bool" where
  "writable f \<equiv> check_writeable f = Ok ()"

lemma check_writeable_offset [simp]: "check_writeable (f\<lparr>of_offset := x\<rparr>) = check_writeable f"
  by (simp add: check_writeable_def)

text \<open>A sequence of writes of non-empty chunks.\<close>

fun write_chunks ::
  "('s \<Rightarrow> usize \<Rightarrow> u8 list \<Rightarrow> ('s \<times> usize res) run) \<Rightarrow> 's \<Rightarrow> 'n open_file \<Rightarrow> u8 list list
   \<Rightarrow> ('s \<times> 'n open_file) run" where
  "write_chunks wr s f [] = Some (s, f)"
| "write_chunks wr s f (c # cs) =
     Option.bind (file_write wr s f c) (\<lambda>(s', f', r). write_chunks wr s' f' cs)"

context roomy_file
begin

lemma write_chunks_content:
  assumes "inv s" "writable f" "room s (of_offset f + length (concat cs))"
    "of_offset f + length (concat cs) < 2 ^ 64" "[] \<notin> set cs" "cs \<noteq> []"
  shows "\<exists>s'. write_chunks writeat s f cs = Some (s', f\<lparr>of_offset := of_offset f + length (concat cs)\<rparr>) \<and>
    inv s' \<and> content s' = spec_write (content s) (of_offset f) (concat cs)"
  using assms
proof (induction cs arbitrary: s f)
  case (Cons c cs)
  have c: "c \<noteq> []" using Cons.prems(5) by auto
  have room_c: "room s (of_offset f + length c)"
    using room_down [OF Cons.prems(3)] by simp
  obtain s1 where s1: "writeat s (of_offset f) c = Some (s1, Ok (length c))" "inv s1"
      "content s1 = spec_write (content s) (of_offset f) c"
    using write_content [OF Cons.prems(1) room_c] by blast
  let ?f1 = "f\<lparr>of_offset := of_offset f + length c\<rparr>"
  have step: "file_write writeat s f c = Some (s1, ?f1, Ok (length c))"
    using c s1(1) Cons.prems(2,4) by (simp add: file_write_def advance_def wadd_exact)
  show ?case
  proof (cases "cs = []")
    case True
    then show ?thesis using step s1 by simp
  next
    case False
    have "room s1 (of_offset ?f1 + length (concat cs))"
      using room_keep [OF Cons.prems(1) room_c _ s1(1)] Cons.prems(3) by (simp add: add.assoc)
    then obtain s2 where s2: "write_chunks writeat s1 ?f1 cs =
        Some (s2, ?f1\<lparr>of_offset := of_offset ?f1 + length (concat cs)\<rparr>)" "inv s2"
        "content s2 = spec_write (content s1) (of_offset ?f1) (concat cs)"
      using Cons.IH [of s1 ?f1] s1(2) Cons.prems False by (auto simp: add.assoc)
    then show ?thesis
      using step s1(3) spec_write_append [of "content s" "of_offset f" c "concat cs"] by (simp add: add.assoc)
  qed
qed simp

lemma write_seek_read:
  assumes "inv s" "writable f" "room s (of_offset f + length data)" "of_offset f + length data < 2 ^ 63"
    "data \<noteq> []" "length buf = length data"
  shows "\<exists>s' f'. file_write writeat s f data = Some (s', f', Ok (length data)) \<and>
    file_read (\<lambda>s off b. (s, readat s off b)) s' (fst (file_seek (Ok sz) f' (SET (of_offset f)))) buf =
      (s', f', data, Ok (length data))"
proof -
  obtain s' where s': "writeat s (of_offset f) data = Some (s', Ok (length data))"
      "readat s' (of_offset f) buf = (data, Ok (length data))"
    using write_read_back [OF assms(1,3,6)] by blast
  let ?f' = "f\<lparr>of_offset := of_offset f + length data\<rparr>"
  have w: "file_write writeat s f data = Some (s', ?f', Ok (length data))"
    using s'(1) assms(2,4,5) by (simp add: file_write_def advance_def wadd_exact)
  have "as_isize (of_offset f) = int (of_offset f)"
  proof -
    have "of_offset f < 2 ^ 63" using assms(4) by linarith
    then have "unat (word_of_nat (of_offset f) :: u64) = of_offset f" by (simp add: unat_u64_of_nat)
    then have "sint (word_of_nat (of_offset f) :: u64) = int (of_offset f)"
      using \<open>of_offset f < 2 ^ 63\<close> by (simp add: signed_of_nat signed_take_bit_int_eq_self)
    then show ?thesis by (simp add: as_isize_def)
  qed
  then have "fst (file_seek (Ok sz) ?f' (SET (of_offset f))) = f\<lparr>of_offset := of_offset f\<rparr>"
    by (simp add: file_seek_def)
  then have "file_read (\<lambda>s off b. (s, readat s off b)) s' (fst (file_seek (Ok sz) ?f' (SET (of_offset f)))) buf =
      (s', ?f', data, Ok (length data))"
    using s'(2) assms(4) by (simp add: file_read_def advance_def wadd_exact)
  with w show ?thesis by blast
qed

end

section \<open>Listing\<close>

definition fits :: "usize \<Rightarrow> string list \<Rightarrow> bool" where
  "fits len names \<longleftrightarrow> (\<forall>n \<in> set names. DIRENT64_SIZE + length n + 1 \<le> len)"

lemma getdents_loop_prefix:
  "getdents_loop len (enumerate k ns) p used fin = (out, used', fin') \<Longrightarrow>
   \<exists>m \<le> length ns. map snd out = take m ns \<and> fin' = (if m = 0 then fin else k + m) \<and>
     (m = 0 \<longrightarrow> used' = used) \<and> (m > 0 \<longrightarrow> used' > used)"
proof (induction ns arbitrary: k p used fin out used' fin')
  case (Cons n ns)
  let ?l = "DIRENT64_SIZE + length n + 1"
  show ?case
  proof (cases "p + 1 > 50 \<or> len - used < ?l")
    case True
    with Cons.prems have "out = []" "used' = used" "fin' = fin"
      by (auto simp: Let_def split: if_splits)
    then show ?thesis by (intro exI [of _ 0]) simp
  next
    case False
    obtain out1 where o: "getdents_loop len (enumerate (Suc k) ns) (p + 1) (used + ?l) (k + 1) = (out1, used', fin')"
        "out = (?l, n) # out1"
      using Cons.prems False by (auto simp: Let_def split: prod.splits)
    obtain m where "m \<le> length ns" "map snd out1 = take m ns" "fin' = (if m = 0 then k + 1 else Suc k + m)"
        "used' \<ge> used + ?l"
      using Cons.IH [OF o(1)] by (metis le_refl less_imp_le not_gr_zero)
    then show ?thesis by (intro exI [of _ "Suc m"]) (auto simp: o(2))
  qed
qed simp

lemma getdents_loop_progress:
  assumes "ns \<noteq> []" "fits len ns" "getdents_loop len (enumerate k ns) 0 0 0 = (out, used', fin')"
  shows "out \<noteq> []"
proof -
  obtain n ns' where ns: "ns = n # ns'" using assms(1) by (cases ns) auto
  have "\<not> len < DIRENT64_SIZE + length n + 1" using assms(2) by (auto simp: fits_def ns)
  then show ?thesis using assms(3) by (auto simp: ns Let_def split: prod.splits)
qed

text \<open>A caller that lists until a call returns 0 bytes.\<close>

fun list_all_dents :: "nat \<Rightarrow> dir_entry list \<Rightarrow> 'n open_file \<Rightarrow> usize \<Rightarrow> ('n open_file \<times> string list) option" where
  "list_all_dents 0 entries f len = None"
| "list_all_dents (Suc fuel) entries f len =
     (let (f', out, used) = file_getdents (Ok entries) f len
      in if used = 0 then Some (f', [])
         else map_option (\<lambda>(f'', names). (f'', map snd out @ names)) (list_all_dents fuel entries f' len))"

lemma drop_enumerate: "drop k (enumerate 0 xs) = enumerate k (drop k xs)"
  by (cases "k \<le> length xs") (simp_all add: enumerate_eq_zip drop_zip)

lemma list_all_dents_run:
  "fits len (map de_filename entries) \<Longrightarrow> of_offset f \<le> length entries \<Longrightarrow>
   length entries - of_offset f < fuel \<Longrightarrow>
   list_all_dents fuel entries f len =
     Some (f\<lparr>of_offset := 0\<rparr>, drop (of_offset f) (map de_filename entries))"
proof (induction fuel arbitrary: f)
  case (Suc fuel)
  let ?ns = "drop (of_offset f) (map de_filename entries)"
  obtain out used fin where l: "getdents_loop len (enumerate (of_offset f) ?ns) 0 0 0 = (out, used, fin)"
    by (metis prod_cases3)
  then obtain m where m: "m \<le> length ?ns" "map snd out = take m ?ns" "fin = (if m = 0 then 0 else of_offset f + m)"
      "m = 0 \<longrightarrow> used = 0" "m > 0 \<longrightarrow> used > 0"
    using getdents_loop_prefix [OF l] by auto
  have g: "file_getdents (Ok entries) f len = (f\<lparr>of_offset := fin\<rparr>, out, used)"
    using l by (simp add: file_getdents_def drop_enumerate)
  show ?case
  proof (cases "?ns = []")
    case True
    then have "m = 0" using m(1) by simp
    with g m True show ?thesis by simp
  next
    case False
    have "set ?ns \<subseteq> set (map de_filename entries)" by (rule set_drop_subset)
    then have "fits len ?ns" using Suc.prems(1) unfolding fits_def by blast
    then have "out \<noteq> []" using getdents_loop_progress [OF False _ l] by blast
    then have pos: "m > 0" using m(2) by (cases "m = 0") auto
    have "list_all_dents fuel entries (f\<lparr>of_offset := of_offset f + m\<rparr>) len =
        Some (f\<lparr>of_offset := 0\<rparr>, drop (of_offset f + m) (map de_filename entries))"
      using Suc.IH [of "f\<lparr>of_offset := of_offset f + m\<rparr>"] Suc.prems m(1) pos by simp
    moreover have "take m ?ns @ drop (of_offset f + m) (map de_filename entries) = ?ns"
      by (metis add.commute append_take_drop_id drop_drop)
    ultimately show ?thesis using g m pos by (simp add: Let_def)
  qed
qed simp

section \<open>Properties\<close>

definition rf_read_state :: "phys \<times> ram_file \<Rightarrow> usize \<Rightarrow> u8 list \<Rightarrow> (phys \<times> ram_file) \<times> u8 list \<times> usize res" where
  "rf_read_state s off buf = (s, rf_readat (fst s) (snd s) off buf)"

abbreviation demo_open :: "inode open_file" where
  "demo_open \<equiv> \<lparr>of_inner = IFile 0, of_path = [], of_offset = 0, of_flags = O_RDWR\<rparr>"

abbreviation demo_phys :: phys where
  "demo_phys \<equiv> \<lparr>ph_frames = demo_frames, ph_mem = \<lambda>_. 0\<rparr>"

text \<open>Writing a RAM file chunk by chunk through an open file's cursor, with memory for it
  all, leaves the same bytes as one write of all the chunks together, and the cursor at its end.\<close>

theorem ram_cursor_writes:
  assumes "rf_ok ph f" "check_writeable fd = Ok ()" "rf_room (ph, f) (of_offset fd + length (concat cs))"
    "of_offset fd + length (concat cs) < 2 ^ 64" "[] \<notin> set cs" "cs \<noteq> []"
  shows "\<exists>ph' f'. write_chunks rf_write_state (ph, f) fd cs =
      Some ((ph', f'), fd\<lparr>of_offset := of_offset fd + length (concat cs)\<rparr>) \<and>
    rf_ok ph' f' \<and> rf_bytes ph' f' = spec_write (rf_bytes ph f) (of_offset fd) (concat cs)"
  using rfr.write_chunks_content [of "(ph, f)" fd cs] assms by auto

theorem ram_cursor_writes_witness:
  "\<exists>ph' f'. write_chunks rf_write_state (demo_phys, ram_file_new ''a'') demo_open [[1], [2, 3]] =
      Some ((ph', f'), demo_open\<lparr>of_offset := 3\<rparr>) \<and> rf_bytes ph' f' = [1, 2, 3]"
proof -
  have "rf_room (demo_phys, ram_file_new ''a'') 3"
    using demo_file_room [of 3] by (simp add: rf_room_def div_ceil_def)
  moreover have "check_writeable demo_open = Ok ()" by (simp add: check_writeable_def flags_contain_def)
  moreover have "spec_write [] 0 [1, 2, 3] = [1, 2, 3]" by (simp add: spec_write_def slice_set_def)
  ultimately show ?thesis
    using ram_cursor_writes [OF demo_file_ok, of demo_open "[[1], [2, 3]]", unfolded demo_file_bytes]
    by (simp add: numeral_3_eq_3) blast
qed

text \<open>Seeking back to where a write through the cursor began and reading as many bytes
  returns what was written and restores the cursor.\<close>

theorem ram_write_seek_read:
  assumes "rf_ok ph f" "check_writeable fd = Ok ()" "rf_room (ph, f) (of_offset fd + length data)"
    "of_offset fd + length data < 2 ^ 63" "data \<noteq> []" "length buf = length data"
  shows "\<exists>ph' f' fd'. file_write rf_write_state (ph, f) fd data = Some ((ph', f'), fd', Ok (length data)) \<and>
    file_read rf_read_state (ph', f')
      (fst (file_seek (Ok (rf_len f')) fd' (SET (of_offset fd)))) buf = ((ph', f'), fd', data, Ok (length data))"
proof -
  obtain s' fd' where "file_write rf_write_state (ph, f) fd data = Some (s', fd', Ok (length data))"
      "\<And>sz. file_read rf_read_state s' (fst (file_seek (Ok sz) fd' (SET (of_offset fd)))) buf =
         (s', fd', data, Ok (length data))"
    unfolding rf_read_state_def using rfr.write_seek_read [of "(ph, f)" fd data buf] assms by (auto simp: file_seek_def)
  then show ?thesis by (cases s') blast
qed

theorem ram_write_seek_read_witness:
  "\<exists>ph' f' fd'. file_write rf_write_state (demo_phys, ram_file_new ''a'') demo_open [5, 6] = Some ((ph', f'), fd', Ok 2) \<and>
     file_read rf_read_state (ph', f')
       (fst (file_seek (Ok (rf_len f')) fd' (SET 0))) [0, 0] = ((ph', f'), fd', [5, 6], Ok 2)"
proof -
  have "rf_room (demo_phys, ram_file_new ''a'') 2"
    using demo_file_room [of 2] by (simp add: rf_room_def div_ceil_def)
  moreover have "check_writeable demo_open = Ok ()" by (simp add: check_writeable_def flags_contain_def)
  moreover have two: "length [5, 6 :: u8] = 2" "length [0, 0 :: u8] = 2"
    "of_offset demo_open + 2 = 2" "of_offset demo_open = 0" by simp_all
  ultimately show ?thesis
    using ram_write_seek_read [OF demo_file_ok, of demo_open "[5, 6]" "[0, 0]", unfolded two add_0] by simp
qed

text \<open>A file opened read-only refuses a synchronous write with \<open>EPERM\<close> and keeps its state,
  while the asynchronous write that the \<open>write\<close> system call uses goes through to the inode.\<close>

theorem read_only_write:
  assumes "of_flags fd = O_RDONLY" "buf \<noteq> []" "wr s (of_offset fd) buf = Some (s', Ok n)"
  shows "file_write wr s fd buf = Some (s, fd, Err EPERM) \<and>
    file_async_write wr s fd buf = Some (s', Ready (advance fd (Ok n), Ok n))"
  using assms by (simp add: file_write_def file_async_write_def check_writeable_def flags_contain_def)

theorem read_only_write_witness:
  "\<exists>s'. file_write rf_write_state (demo_phys, ram_file_new ''a'') (demo_open\<lparr>of_flags := O_RDONLY\<rparr>) [9] =
       Some ((demo_phys, ram_file_new ''a''), demo_open\<lparr>of_flags := O_RDONLY\<rparr>, Err EPERM) \<and>
     file_async_write rf_write_state (demo_phys, ram_file_new ''a'') (demo_open\<lparr>of_flags := O_RDONLY\<rparr>) [9] =
       Some (s', Ready (demo_open\<lparr>of_flags := O_RDONLY, of_offset := 1\<rparr>, Ok 1))"
proof -
  have "rf_room (demo_phys, ram_file_new ''a'') 1"
    using demo_file_room [of 1] by (simp add: rf_room_def div_ceil_def)
  then obtain s' where "rf_write_state (demo_phys, ram_file_new ''a'') 0 [9] = Some (s', Ok 1)"
    using rfl.write_content [of "(demo_phys, ram_file_new ''a'')" 0 "[9]"] demo_file_ok by auto
  then show ?thesis
    using read_only_write [of "demo_open\<lparr>of_flags := O_RDONLY\<rparr>" "[9]" rf_write_state
        "(demo_phys, ram_file_new ''a'')" s' 1]
    by (auto simp: advance_def wadd_def)
qed

text \<open>A caller that repeats \<open>getdents\<close> with a buffer large enough for each single entry until it
  returns 0 gets every name of the directory exactly once, in order, however many calls that
  takes, and the cursor is back at the start.\<close>

theorem getdents_lists_all:
  assumes "fits len (map de_filename entries)" "of_offset fd = 0" "length entries < fuel"
  shows "list_all_dents fuel entries fd len = Some (fd, map de_filename entries)"
  using list_all_dents_run [OF assms(1), of fd fuel] assms(2,3) by simp

theorem getdents_lists_all_witness:
  "list_all_dents 4 (map (\<lambda>n. \<lparr>de_filename = n, de_len = 0, de_file_type = FtFile\<rparr>) [''a'', ''bc'', ''d'']) demo_open 30 =
     Some (demo_open, [''a'', ''bc'', ''d''])"
proof -
  let ?es = "map (\<lambda>n. \<lparr>de_filename = n, de_len = 0, de_file_type = FtFile\<rparr>) [''a'', ''bc'', ''d'']"
  have "fits 30 (map de_filename ?es)" "length ?es < 4" by (simp_all add: fits_def)
  then show ?thesis using getdents_lists_all [of 30 ?es demo_open 4] by simp
qed

end
