(* ===== verification/FdTable.thy ===== *)
theory FdTable
  imports OpenFile
begin

unbundle bit_operations_syntax

text \<open>
  The descriptor table of a process (\<open>kernel/src/tasks/filetable.rs\<close> and the descriptor methods
  of \<open>UserTask\<close> in \<open>kernel/src/tasks/task.rs\<close>) and the system calls on descriptors
  (\<open>kernel/src/syscall/fd.rs\<close>, \<open>sys_prlimit64\<close> in \<open>kernel/src/syscall/sys.rs\<close>).

  \<^item> A descriptor holds an \<open>Arc<File>\<close>, and duplicated descriptors share one \<open>File\<close> with its
    cursor.  The files are a heap \<open>open_files\<close>, an \<open>Arc<File>\<close> is an index into it, and
    \<open>files_ok\<close> states that every index in use is allocated, which \<open>Arc\<close> guarantees.
  \<^item> \<open>rlimits\<close> has eight entries from its creation on, so the constant indices 3, 4 and 7 are in
    range; \<open>files_ok\<close> keeps that.
  \<^item> \<open>inode_ops\<close> is the trait \<open>INodeInterface\<close>: the methods of an inode, on a state \<open>'s\<close> that holds
    every file system.  A string argument is what \<open>get_cstr\<close> makes of the user pointer, \<open>None\<close> when
    it is not a string.  The system calls return the new state of the process and the file
    systems with their result.
\<close>

section \<open>The table\<close>

abbreviation FILE_MAX :: usize where "FILE_MAX \<equiv> 255"

record 'n fd_state =
  open_files :: "'n open_file list"
  fd_table :: "nat option list"
  rlimits :: "usize list"
  curr_dir :: nat

definition file_table_new :: "nat \<Rightarrow> nat option list" where
  "file_table_new tty = slice_set (replicate FILE_MAX None) 0 (replicate 3 (Some tty))"

definition rlimits_new :: "usize list" where
  "rlimits_new = (replicate 8 0)[7 := FILE_MAX, 4 := 2 ^ 64 - 1]"

abbreviation nofile :: "('n, 'm) fd_state_scheme \<Rightarrow> usize" where
  "nofile st \<equiv> rlimits st ! 7"

text \<open>The file an \<open>Arc\<close> points to, writing through it, and \<open>Arc::new\<close>.\<close>

abbreviation deref :: "('n, 'm) fd_state_scheme \<Rightarrow> nat \<Rightarrow> 'n open_file" where
  "deref st h \<equiv> open_files st ! h"

abbreviation put_file :: "('n, 'm) fd_state_scheme \<Rightarrow> nat \<Rightarrow> 'n open_file \<Rightarrow> ('n, 'm) fd_state_scheme" where
  "put_file st h f \<equiv> st\<lparr>open_files := (open_files st)[h := f]\<rparr>"

definition arc_new :: "('n, 'm) fd_state_scheme \<Rightarrow> 'n open_file \<Rightarrow> ('n, 'm) fd_state_scheme \<times> nat" where
  "arc_new st f = (st\<lparr>open_files := open_files st @ [f]\<rparr>, length (open_files st))"

definition get_fd :: "('n, 'm) fd_state_scheme \<Rightarrow> usize \<Rightarrow> nat option run" where
  "get_fd st index = (if index \<ge> nofile st then Some None else vec_get (fd_table st) index)"

definition set_fd :: "('n, 'm) fd_state_scheme \<Rightarrow> usize \<Rightarrow> nat \<Rightarrow> ('n, 'm) fd_state_scheme run" where
  "set_fd st index h =
     (if index \<ge> nofile st then Some st
      else if index < length (fd_table st) then Some (st\<lparr>fd_table := (fd_table st)[index := Some h]\<rparr>)
      else None)"

definition clear_fd :: "('n, 'm) fd_state_scheme \<Rightarrow> usize \<Rightarrow> ('n, 'm) fd_state_scheme" where
  "clear_fd st index =
     (if index \<ge> length (fd_table st) then st else st\<lparr>fd_table := (fd_table st)[index := None]\<rparr>)"

definition alloc_fd :: "('n, 'm) fd_state_scheme \<Rightarrow> ('n, 'm) fd_state_scheme \<times> usize option" where
  "alloc_fd st =
     (let index = map_option fst
            (find (\<lambda>(i, x). x = None \<and> i < nofile st) (enumerate 0 (fd_table st)))
      in if index = None \<and> length (fd_table st) < nofile st
         then (st\<lparr>fd_table := fd_table st @ [None]\<rparr>, Some (length (fd_table st)))
         else (st, index))"

abbreviation AT_CWD :: int where "AT_CWD \<equiv> - 100"

definition fd_resolve :: "('n, 'm) fd_state_scheme \<Rightarrow> int \<Rightarrow> string \<Rightarrow> path_buf res" where
  "fd_resolve st fd fname =
     (if prefix ''/'' fname then Ok (path_from fname)
      else res_bind
        (if fd = AT_CWD then Ok (curr_dir st)
         else (let i = nat (fd mod 2 ^ 64)
               in case (if i < length (fd_table st) then fd_table st ! i else None) of
                    Some h \<Rightarrow> Ok h
                  | None \<Rightarrow> Err EBADF))
        (\<lambda>parent. Ok (path_join (of_path (deref st parent)) fname)))"

section \<open>Inodes\<close>

record ('s, 'n) inode_ops =
  io_lookup :: "'s \<Rightarrow> 'n \<Rightarrow> string \<Rightarrow> 'n res"
  io_create :: "'s \<Rightarrow> 'n \<Rightarrow> string \<Rightarrow> file_type \<Rightarrow> 's \<times> unit res"
  io_remove :: "'s \<Rightarrow> 'n \<Rightarrow> string \<Rightarrow> 's \<times> unit res"
  io_readat :: "'s \<Rightarrow> 'n \<Rightarrow> usize \<Rightarrow> u8 list \<Rightarrow> 's \<times> u8 list \<times> usize res"
  io_writeat :: "'s \<Rightarrow> 'n \<Rightarrow> usize \<Rightarrow> u8 list \<Rightarrow> ('s \<times> usize res) run"
  io_truncate :: "'s \<Rightarrow> 'n \<Rightarrow> usize \<Rightarrow> ('s \<times> unit res) run"
  io_size :: "'s \<Rightarrow> 'n \<Rightarrow> usize res"
  io_type :: "'s \<Rightarrow> 'n \<Rightarrow> file_type res"
  io_read_dir :: "'s \<Rightarrow> 'n \<Rightarrow> dir_entry list res"
  io_ioctl :: "'s \<Rightarrow> 'n \<Rightarrow> usize \<Rightarrow> usize \<Rightarrow> 's \<times> usize res"
  io_poll :: "'s \<Rightarrow> 'n \<Rightarrow> poll_event \<Rightarrow> poll_event res"

text \<open>\<open>fd_open\<close> and \<open>File::remove_self\<close>, on the mount table \<open>mt\<close>.\<close>

definition open_path ::
  "('s, 'n) inode_ops \<Rightarrow> 'n mounts \<Rightarrow> 's \<Rightarrow> path_buf \<Rightarrow> open_flags \<Rightarrow> 's \<times> 'n open_file res" where
  "open_path ops mt s path flags = file_open (io_lookup ops) (io_create ops) mt s path flags"

definition fd_open ::
  "('s, 'n) inode_ops \<Rightarrow> 'n mounts \<Rightarrow> 's \<Rightarrow> ('n, 'm) fd_state_scheme \<Rightarrow> int \<Rightarrow> string \<Rightarrow> open_flags
   \<Rightarrow> 's \<times> 'n open_file res" where
  "fd_open ops mt s st fd fname flags =
     (case fd_resolve st fd fname of
        Ok path \<Rightarrow> open_path ops mt s path flags
      | Err e \<Rightarrow> (s, Err e)
      | Panic \<Rightarrow> (s, Panic))"

definition remove_self ::
  "('s, 'n) inode_ops \<Rightarrow> 'n mounts \<Rightarrow> 's \<Rightarrow> 'n open_file \<Rightarrow> 's \<times> unit res" where
  "remove_self ops mt s f =
     (case open_path ops mt s (path_dir (of_path f)) O_DIRECTORY of
        (s', Ok dir) \<Rightarrow> io_remove ops s' (of_inner dir) (path_filename (of_path f))
      | (s', Err e) \<Rightarrow> (s', Err e)
      | (s', Panic) \<Rightarrow> (s', Panic))"

section \<open>System calls on descriptors\<close>

text \<open>\<open>self.task.get_fd(fd).ok_or(e)?\<close>.\<close>

definition fetch :: "('n, 'm) fd_state_scheme \<Rightarrow> usize \<Rightarrow> errno \<Rightarrow> nat res" where
  "fetch st fd e = (case get_fd st fd of None \<Rightarrow> Panic | Some None \<Rightarrow> Err e | Some (Some h) \<Rightarrow> Ok h)"

text \<open>\<open>let fd = self.task.alloc_fd().ok_or(e)?; self.task.set_fd(fd, file)\<close>.\<close>

definition install :: "('n, 'm) fd_state_scheme \<Rightarrow> 'n open_file \<Rightarrow> errno \<Rightarrow> ('n, 'm) fd_state_scheme \<times> usize res" where
  "install st f e =
     (case alloc_fd st of
        (st, None) \<Rightarrow> (st, Err e)
      | (st, Some fd) \<Rightarrow>
          (let (st, h) = arc_new st f
           in case set_fd st fd h of None \<Rightarrow> (st, Panic) | Some st \<Rightarrow> (st, Ok fd)))"

definition sys_dup3 :: "('n, 'm) fd_state_scheme \<Rightarrow> usize \<Rightarrow> usize \<Rightarrow> ('n, 'm) fd_state_scheme \<times> usize res" where
  "sys_dup3 st fd_src fd_dst =
     (case fetch st fd_src EBADF of
        Ok file \<Rightarrow> (case set_fd st fd_dst file of None \<Rightarrow> (st, Panic) | Some st \<Rightarrow> (st, Ok fd_dst))
      | Err e \<Rightarrow> (st, Err e)
      | Panic \<Rightarrow> (st, Panic))"

definition sys_dup :: "('n, 'm) fd_state_scheme \<Rightarrow> usize \<Rightarrow> ('n, 'm) fd_state_scheme \<times> usize res" where
  "sys_dup st fd =
     (case alloc_fd st of
        (st, None) \<Rightarrow> (st, Err EMFILE)
      | (st, Some fd_dst) \<Rightarrow> sys_dup3 st fd fd_dst)"

definition sys_close :: "('n, 'm) fd_state_scheme \<Rightarrow> usize \<Rightarrow> ('n, 'm) fd_state_scheme \<times> usize res" where
  "sys_close st fd = (clear_fd st fd, Ok 0)"

text \<open>\<open>read\<close> and \<open>write\<close> on a descriptor, one poll of the future.\<close>

definition sys_read ::
  "('s, 'n) inode_ops \<Rightarrow> 's \<Rightarrow> ('n, 'm) fd_state_scheme \<Rightarrow> usize \<Rightarrow> u8 list
   \<Rightarrow> 's \<times> ('n, 'm) fd_state_scheme \<times> (u8 list \<times> usize res) poll" where
  "sys_read ops s st fd buffer =
     (case fetch st fd EBADF of
        Ok h \<Rightarrow>
          (case file_async_read (\<lambda>s. io_readat ops s (of_inner (deref st h))) s (deref st h) buffer of
             (s, Pending) \<Rightarrow> (s, st, Pending)
           | (s, Ready (f, b, r)) \<Rightarrow> (s, put_file st h f, Ready (b, r)))
      | Err e \<Rightarrow> (s, st, Ready (buffer, Err e))
      | Panic \<Rightarrow> (s, st, Ready (buffer, Panic)))"

definition sys_write ::
  "('s, 'n) inode_ops \<Rightarrow> 's \<Rightarrow> ('n, 'm) fd_state_scheme \<Rightarrow> usize \<Rightarrow> u8 list
   \<Rightarrow> 's \<times> ('n, 'm) fd_state_scheme \<times> usize res poll" where
  "sys_write ops s st fd buffer =
     (case fetch st fd EBADF of
        Ok h \<Rightarrow>
          (case file_async_write (\<lambda>s. io_writeat ops s (of_inner (deref st h))) s (deref st h) buffer of
             None \<Rightarrow> (s, st, Ready Panic)
           | Some (s, Pending) \<Rightarrow> (s, st, Pending)
           | Some (s, Ready (f, r)) \<Rightarrow> (s, put_file st h f, Ready r))
      | Err e \<Rightarrow> (s, st, Ready (Err e))
      | Panic \<Rightarrow> (s, st, Ready Panic))"

text \<open>The vectored variants use the synchronous operations, buffer by buffer; the buffers of an
  \<open>iov\<close> are taken to be disjoint.\<close>

fun readv_loop ::
  "('s \<Rightarrow> usize \<Rightarrow> u8 list \<Rightarrow> 's \<times> u8 list \<times> usize res) \<Rightarrow> 's \<Rightarrow> 'n open_file \<Rightarrow> u8 list list \<Rightarrow> usize
   \<Rightarrow> 's \<times> 'n open_file \<times> u8 list list \<times> usize res" where
  "readv_loop rd s f [] rsize = (s, f, [], Ok rsize)"
| "readv_loop rd s f (io # iov) rsize =
     (case file_read rd s f io of
        (s, f, b, Ok n) \<Rightarrow>
          (let (s, f, bs, r) = readv_loop rd s f iov (wadd rsize n) in (s, f, b # bs, r))
      | (s, f, b, Err e) \<Rightarrow> (s, f, b # iov, Err e)
      | (s, f, b, Panic) \<Rightarrow> (s, f, b # iov, Panic))"

definition sys_readv ::
  "('s, 'n) inode_ops \<Rightarrow> 's \<Rightarrow> ('n, 'm) fd_state_scheme \<Rightarrow> usize \<Rightarrow> u8 list list
   \<Rightarrow> 's \<times> ('n, 'm) fd_state_scheme \<times> u8 list list \<times> usize res" where
  "sys_readv ops s st fd iov =
     (case fetch st fd EBADF of
        Ok h \<Rightarrow>
          (let (s, f, bs, r) = readv_loop (\<lambda>s. io_readat ops s (of_inner (deref st h))) s (deref st h) iov 0
           in (s, put_file st h f, bs, r))
      | Err e \<Rightarrow> (s, st, iov, Err e)
      | Panic \<Rightarrow> (s, st, iov, Panic))"

fun writev_loop ::
  "('s \<Rightarrow> usize \<Rightarrow> u8 list \<Rightarrow> ('s \<times> usize res) run) \<Rightarrow> 's \<Rightarrow> 'n open_file \<Rightarrow> u8 list list \<Rightarrow> usize
   \<Rightarrow> 's \<times> 'n open_file \<times> usize res" where
  "writev_loop wr s f [] wsize = (s, f, Ok wsize)"
| "writev_loop wr s f (io # iov) wsize =
     (case file_write wr s f io of
        None \<Rightarrow> (s, f, Panic)
      | Some (s, f, Ok n) \<Rightarrow> writev_loop wr s f iov (wadd wsize n)
      | Some (s, f, Err e) \<Rightarrow> (s, f, Err e)
      | Some (s, f, Panic) \<Rightarrow> (s, f, Panic))"

definition sys_writev ::
  "('s, 'n) inode_ops \<Rightarrow> 's \<Rightarrow> ('n, 'm) fd_state_scheme \<Rightarrow> usize \<Rightarrow> u8 list list
   \<Rightarrow> 's \<times> ('n, 'm) fd_state_scheme \<times> usize res" where
  "sys_writev ops s st fd iov =
     (case fetch st fd EBADF of
        Ok h \<Rightarrow>
          (let (s, f, r) = writev_loop (\<lambda>s. io_writeat ops s (of_inner (deref st h))) s (deref st h) iov 0
           in (s, put_file st h f, r))
      | Err e \<Rightarrow> (s, st, Err e)
      | Panic \<Rightarrow> (s, st, Panic))"

definition sys_pread ::
  "('s, 'n) inode_ops \<Rightarrow> 's \<Rightarrow> ('n, 'm) fd_state_scheme \<Rightarrow> usize \<Rightarrow> u8 list \<Rightarrow> usize
   \<Rightarrow> 's \<times> u8 list \<times> usize res" where
  "sys_pread ops s st fd buffer offset =
     (case fetch st fd EBADF of
        Ok h \<Rightarrow> io_readat ops s (of_inner (deref st h)) offset buffer
      | Err e \<Rightarrow> (s, buffer, Err e)
      | Panic \<Rightarrow> (s, buffer, Panic))"

definition sys_pwrite ::
  "('s, 'n) inode_ops \<Rightarrow> 's \<Rightarrow> ('n, 'm) fd_state_scheme \<Rightarrow> usize \<Rightarrow> u8 list \<Rightarrow> usize \<Rightarrow> ('s \<times> usize res) run" where
  "sys_pwrite ops s st fd buffer offset =
     (case fetch st fd EBADF of
        Ok h \<Rightarrow> file_writeat (\<lambda>s. io_writeat ops s (of_inner (deref st h))) s (deref st h) offset buffer
      | Err e \<Rightarrow> Some (s, Err e)
      | Panic \<Rightarrow> None)"

definition sys_lseek ::
  "('s, 'n) inode_ops \<Rightarrow> 's \<Rightarrow> ('n, 'm) fd_state_scheme \<Rightarrow> usize \<Rightarrow> usize \<Rightarrow> usize
   \<Rightarrow> ('n, 'm) fd_state_scheme \<times> usize res" where
  "sys_lseek ops s st fd offset whence =
     (let seek_from = (if whence = 0 then Some (SET offset)
                       else if whence = 1 then Some (CURRENT (as_isize offset))
                       else if whence = 2 then Some (END (as_isize offset))
                       else None)
      in case seek_from of
           None \<Rightarrow> (st, Err EINVAL)
         | Some sf \<Rightarrow>
             (case fetch st fd EBADF of
                Ok h \<Rightarrow> (let (f, r) = file_seek (io_size ops s (of_inner (deref st h))) (deref st h) sf
                         in (put_file st h f, r))
              | Err e \<Rightarrow> (st, Err e)
              | Panic \<Rightarrow> (st, Panic)))"

text \<open>Opening.  \<open>lift_fs\<close> adds the process to a result on the file systems.\<close>

abbreviation OPEN_FLAGS_ALL :: open_flags where "OPEN_FLAGS_ALL \<equiv> 8388547"

definition from_bits_truncate :: "usize \<Rightarrow> open_flags" where
  "from_bits_truncate flags = word_of_nat flags AND OPEN_FLAGS_ALL"

definition lift_fs :: "'p \<Rightarrow> 's \<times> 'a res \<Rightarrow> ('s \<times> 'p) \<times> 'a res" where
  "lift_fs st m = (case m of (s, r) \<Rightarrow> ((s, st), r))"

definition lift_st :: "'s \<Rightarrow> 'p \<times> 'a res \<Rightarrow> ('s \<times> 'p) \<times> 'a res" where
  "lift_st s m = (case m of (st, r) \<Rightarrow> ((s, st), r))"

definition cstr :: "string option \<Rightarrow> string res" where
  "cstr p = (case p of None \<Rightarrow> Err EINVAL | Some x \<Rightarrow> Ok x)"

definition sys_openat ::
  "('s, 'n) inode_ops \<Rightarrow> 'n mounts \<Rightarrow> 's \<Rightarrow> ('n, 'm) fd_state_scheme \<Rightarrow> int \<Rightarrow> string option option \<Rightarrow> usize
   \<Rightarrow> ('s \<times> ('n, 'm) fd_state_scheme) \<times> usize res" where
  "sys_openat ops mt s st dir_fd fname flags =
     (let flags = from_bits_truncate flags
      in sbind ((s, st), case fname of Some p \<Rightarrow> cstr p | None \<Rightarrow> Ok '''') (\<lambda>(s, st) fname.
         sbind (lift_fs st (fd_open ops mt s st dir_fd fname flags)) (\<lambda>(s, st) file.
         lift_st s (install st file EMFILE))))"

definition sys_faccess_at ::
  "('s, 'n) inode_ops \<Rightarrow> 'n mounts \<Rightarrow> 's \<Rightarrow> ('n, 'm) fd_state_scheme \<Rightarrow> int \<Rightarrow> string option option \<Rightarrow> usize
   \<Rightarrow> 's \<times> usize res" where
  "sys_faccess_at ops mt s st dir_fd fname flags =
     (let flags = from_bits_truncate flags
      in sbind (s, case fname of Some p \<Rightarrow> cstr p | None \<Rightarrow> Ok '''') (\<lambda>s fname.
         sbind (fd_open ops mt s st dir_fd fname flags) (\<lambda>s file. (s, Ok 0))))"

fun mkdir_loop ::
  "('s, 'n) inode_ops \<Rightarrow> 'n mounts \<Rightarrow> string list \<Rightarrow> 's \<Rightarrow> ('n, 'm) fd_state_scheme \<Rightarrow> int
   \<Rightarrow> ('s \<times> ('n, 'm) fd_state_scheme) \<times> usize res" where
  "mkdir_loop ops mt [] s st current_fd = ((s, st), Ok 0)"
| "mkdir_loop ops mt (name # comps) s st current_fd =
     sbind (lift_fs st (fd_open ops mt s st current_fd name (O_DIRECTORY OR O_CREAT))) (\<lambda>(s, st) file.
     sbind (lift_st s (install st file EMFILE)) (\<lambda>(s, st) new_fd.
     mkdir_loop ops mt comps s st (as_isize new_fd)))"

definition sys_mkdir_at ::
  "('s, 'n) inode_ops \<Rightarrow> 'n mounts \<Rightarrow> 's \<Rightarrow> ('n, 'm) fd_state_scheme \<Rightarrow> int \<Rightarrow> string option
   \<Rightarrow> ('s \<times> ('n, 'm) fd_state_scheme) \<times> usize res" where
  "sys_mkdir_at ops mt s st dir_fd path =
     sbind ((s, st), cstr path) (\<lambda>(s, st) path_str.
       (let comps = filter (\<lambda>x. x \<noteq> []) (split_slash path_str)
        in if comps = [] then ((s, st), Err EEXIST)
           else if prefix ''/'' path_str then
             sbind (lift_fs st (fd_open ops mt s st AT_CWD ''/'' O_DIRECTORY)) (\<lambda>(s, st) root_file.
             sbind (lift_st s (install st root_file EMFILE)) (\<lambda>(s, st) root_fd.
             mkdir_loop ops mt comps s st (as_isize root_fd)))
           else mkdir_loop ops mt comps s st dir_fd))"

definition sys_unlinkat ::
  "('s, 'n) inode_ops \<Rightarrow> 'n mounts \<Rightarrow> 's \<Rightarrow> ('n, 'm) fd_state_scheme \<Rightarrow> int \<Rightarrow> string option \<Rightarrow> usize
   \<Rightarrow> 's \<times> usize res" where
  "sys_unlinkat ops mt s st dir_fd path flags =
     sbind (s, cstr path) (\<lambda>s path.
     sbind (fd_open ops mt s st dir_fd path (from_bits_truncate flags)) (\<lambda>s file.
     sbind (remove_self ops mt s file) (\<lambda>s _. (s, Ok 0))))"

text \<open>\<open>renameat2\<close> copies: the file types other than file and directory panic.\<close>

definition rename_copy ::
  "('s, 'n) inode_ops \<Rightarrow> 's \<Rightarrow> 'n open_file \<Rightarrow> 'n open_file \<Rightarrow> 's \<times> usize res" where
  "rename_copy ops s old_file new_file =
     sbind (s, io_size ops s (of_inner old_file)) (\<lambda>s file_size.
       (case file_read (\<lambda>s. io_readat ops s (of_inner old_file)) s old_file (replicate file_size 0) of
          (s, _, buffer, r) \<Rightarrow>
     sbind (s, r) (\<lambda>s _.
     sbind (of_run s (map_option (\<lambda>(s, _, r). (s, r))
              (file_write (\<lambda>s. io_writeat ops s (of_inner new_file)) s new_file buffer))) (\<lambda>s _.
     sbind (of_run s (io_truncate ops s (of_inner new_file) (length buffer))) (\<lambda>s _. (s, Ok 0))))))"

definition sys_renameat2 ::
  "('s, 'n) inode_ops \<Rightarrow> 'n mounts \<Rightarrow> 's \<Rightarrow> ('n, 'm) fd_state_scheme \<Rightarrow> int \<Rightarrow> string option \<Rightarrow> int \<Rightarrow> string option
   \<Rightarrow> usize \<Rightarrow> 's \<times> usize res" where
  "sys_renameat2 ops mt s st olddir_fd oldpath newdir_fd newpath flags =
     (let flags = from_bits_truncate flags
      in sbind (s, cstr oldpath) (\<lambda>s old_path.
         sbind (fd_open ops mt s st olddir_fd old_path flags) (\<lambda>s old_file.
         sbind (s, io_type ops s (of_inner old_file)) (\<lambda>s old_file_type.
         sbind (s, cstr newpath) (\<lambda>s new_path.
           (case old_file_type of
              FtFile \<Rightarrow>
                sbind (fd_open ops mt s st newdir_fd new_path (O_CREAT OR flags)) (\<lambda>s new_file.
                rename_copy ops s old_file new_file)
            | FtDirectory \<Rightarrow>
                sbind (fd_open ops mt s st newdir_fd new_path (O_CREAT OR O_DIRECTORY OR flags)) (\<lambda>s _. (s, Ok 0))
            | _ \<Rightarrow> (s, Panic)))))))"

text \<open>\<open>pipe2\<close>, given the two ends; the second component is what has been stored in \<open>fds\<close>.\<close>

definition sys_pipe2 ::
  "('n, 'm) fd_state_scheme \<Rightarrow> 'n \<Rightarrow> 'n \<Rightarrow> ('n, 'm) fd_state_scheme \<times> usize list \<times> usize res" where
  "sys_pipe2 st rx tx =
     (case install st (new_dev rx) ENFILE of
        (st, Ok rx_fd) \<Rightarrow>
          (case install st (new_dev tx) ENFILE of
             (st, Ok tx_fd) \<Rightarrow> (st, [rx_fd mod 2 ^ 32, tx_fd mod 2 ^ 32], Ok 0)
           | (st, Err e) \<Rightarrow> (st, [rx_fd mod 2 ^ 32], Err e)
           | (st, Panic) \<Rightarrow> (st, [rx_fd mod 2 ^ 32], Panic))
      | (st, Err e) \<Rightarrow> (st, [], Err e)
      | (st, Panic) \<Rightarrow> (st, [], Panic))"

datatype fcntl_cmd = DUPFD | GETFD | SETFD | GETFL | SETFL | GETLK | SETLK | SETLKW | DUPFDCLOEXEC

definition fcntl_from_usize :: "usize \<Rightarrow> fcntl_cmd option" where
  "fcntl_from_usize cmd =
     (if cmd < 8 then Some ([DUPFD, GETFD, SETFD, GETFL, SETFL, GETLK, SETLK, SETLKW] ! cmd)
      else if cmd = 0x406 then Some DUPFDCLOEXEC else None)"

definition sys_fcntl ::
  "('n, 'm) fd_state_scheme \<Rightarrow> usize \<Rightarrow> usize \<Rightarrow> usize \<Rightarrow> ('n, 'm) fd_state_scheme \<times> usize res" where
  "sys_fcntl st fd cmd arg =
     (case fcntl_from_usize cmd of
        None \<Rightarrow> (st, Err EINVAL)
      | Some cmd \<Rightarrow>
          sbind (st, fetch st fd EBADF) (\<lambda>st file.
            (case cmd of
               DUPFD \<Rightarrow> sys_dup st fd
             | DUPFDCLOEXEC \<Rightarrow> sys_dup st fd
             | GETFD \<Rightarrow> (st, Ok 1)
             | GETFL \<Rightarrow> (st, Ok (unat (of_flags (deref st file))))
             | SETFL \<Rightarrow>
                 (let st = put_file st file ((deref st file)\<lparr>of_flags := from_bits_truncate arg\<rparr>)
                  in of_run st (map_option (\<lambda>st. (st, Ok 0)) (set_fd st fd file)))
             | _ \<Rightarrow> (st, Ok 0))))"

text \<open>\<open>getdents64\<close>; \<open>elapsed\<close> is the time between its two clock readings.\<close>

definition sys_getdents64 ::
  "('s, 'n) inode_ops \<Rightarrow> 's \<Rightarrow> ('n, 'm) fd_state_scheme \<Rightarrow> usize \<Rightarrow> usize \<Rightarrow> usize
   \<Rightarrow> ('n, 'm) fd_state_scheme \<times> dirent list \<times> usize res" where
  "sys_getdents64 ops s st elapsed fd len =
     (case get_fd st fd of
        Some (Some h) \<Rightarrow>
          if elapsed > 5000000000 then (st, [], Ok 0)
          else (let (f, out, used) = file_getdents (io_read_dir ops s (of_inner (deref st h))) (deref st h) len
                in (put_file st h f, out, Ok used))
      | _ \<Rightarrow> (st, [], Panic))"

definition sys_ioctl ::
  "('s, 'n) inode_ops \<Rightarrow> 's \<Rightarrow> ('n, 'm) fd_state_scheme \<Rightarrow> usize \<Rightarrow> usize \<Rightarrow> usize \<Rightarrow> 's \<times> usize res" where
  "sys_ioctl ops s st fd request arg1 =
     sbind (s, fetch st fd EINVAL) (\<lambda>s h.
       (case io_ioctl ops s (of_inner (deref st h)) request arg1 of
          (s, Err _) \<Rightarrow> (s, Err ENOTTY)
        | m \<Rightarrow> m))"

definition file_read_fd ::
  "('s, 'n) inode_ops \<Rightarrow> 's \<Rightarrow> ('n, 'm) fd_state_scheme \<Rightarrow> nat \<Rightarrow> u8 list
   \<Rightarrow> ('s \<times> ('n, 'm) fd_state_scheme) \<times> u8 list \<times> usize res" where
  "file_read_fd ops s st h buffer =
     (let (s, f, b, r) = file_read (\<lambda>s. io_readat ops s (of_inner (deref st h))) s (deref st h) buffer
      in ((s, put_file st h f), b, r))"

definition file_write_fd ::
  "('s, 'n) inode_ops \<Rightarrow> 's \<Rightarrow> ('n, 'm) fd_state_scheme \<Rightarrow> nat \<Rightarrow> u8 list
   \<Rightarrow> ('s \<times> ('n, 'm) fd_state_scheme) \<times> usize res" where
  "file_write_fd ops s st h buffer =
     (case file_write (\<lambda>s. io_writeat ops s (of_inner (deref st h))) s (deref st h) buffer of
        None \<Rightarrow> ((s, st), Panic)
      | Some (s, f, r) \<Rightarrow> ((s, put_file st h f), r))"

definition sys_sendfile ::
  "('s, 'n) inode_ops \<Rightarrow> 's \<Rightarrow> ('n, 'm) fd_state_scheme \<Rightarrow> usize \<Rightarrow> usize \<Rightarrow> usize \<Rightarrow> usize
   \<Rightarrow> ('s \<times> ('n, 'm) fd_state_scheme) \<times> usize res" where
  "sys_sendfile ops s st out_fd in_fd offset count =
     sbind ((s, st), fetch st out_fd EINVAL) (\<lambda>(s, st) out_file.
     sbind ((s, st), fetch st in_fd EINVAL) (\<lambda>(s, st) in_file.
     sbind (if offset \<noteq> 0 then ((s, st), Ok offset)
            else (let (f, r) = file_seek (io_size ops s (of_inner (deref st in_file))) (deref st in_file) (CURRENT 0)
                  in ((s, put_file st in_file f), r))) (\<lambda>(s, st) curr_off.
     sbind ((s, st), io_size ops s (of_inner (deref st in_file))) (\<lambda>(s, st) file_size.
       (let rlen = min (wsub file_size curr_off) count;
            zeros = replicate rlen 0
        in if offset = 0 then
             (case file_read_fd ops s st in_file zeros of
                ((s, st), buffer, r) \<Rightarrow>
                  sbind ((s, st), r) (\<lambda>(s, st) _.
                    (case set_fd st in_fd in_file of
                       None \<Rightarrow> ((s, st), Panic)
                     | Some st \<Rightarrow> file_write_fd ops s st out_file buffer)))
           else
             (case io_readat ops s (of_inner (deref st in_file)) offset zeros of
                (s, buffer, r) \<Rightarrow>
                  sbind ((s, st), r) (\<lambda>(s, st) _. file_write_fd ops s st out_file buffer)))))))"

text \<open>\<open>copy_file_range\<close>: the offsets in user memory, when given, come back updated.\<close>

definition sys_copy_file_range ::
  "('s, 'n) inode_ops \<Rightarrow> 's \<Rightarrow> ('n, 'm) fd_state_scheme \<Rightarrow> usize \<Rightarrow> usize option \<Rightarrow> usize \<Rightarrow> usize option \<Rightarrow> usize \<Rightarrow> usize
   \<Rightarrow> (('s \<times> ('n, 'm) fd_state_scheme) \<times> usize option \<times> usize option) \<times> usize res" where
  "sys_copy_file_range ops s st fd_in off_in fd_out off_out len flags =
     (if flags \<noteq> 0 then (((s, st), off_in, off_out), Panic)
      else
     sbind (((s, st), off_in, off_out), fetch st fd_in EBADF) (\<lambda>((s, st), off_in, off_out) in_file.
     sbind (((s, st), off_in, off_out), fetch st fd_out EBADF) (\<lambda>((s, st), off_in, off_out) out_file.
       (let zeros = replicate len 0;
            (m, buffer) = (case off_in of
               Some i \<Rightarrow>
                 (let (s, b, r) = io_readat ops s (of_inner (deref st in_file)) i zeros
                  in ((((s, st), (case r of Ok n \<Rightarrow> Some (wadd i n) | _ \<Rightarrow> Some i), off_out), r), b))
             | None \<Rightarrow>
                 (let (p, b, r) = file_read_fd ops s st in_file zeros in (((p, off_in, off_out), r), b)))
        in sbind m (\<lambda>((s, st), off_in, off_out) rsize.
             if rsize = 0 then (((s, st), off_in, off_out), Ok 0)
             else if rsize > len then (((s, st), off_in, off_out), Panic)
             else (case off_out of
                     Some i \<Rightarrow>
                       (case file_writeat (\<lambda>s. io_writeat ops s (of_inner (deref st out_file))) s
                               (deref st out_file) i (take rsize buffer) of
                          None \<Rightarrow> (((s, st), off_in, off_out), Panic)
                        | Some (s, Ok n) \<Rightarrow> (((s, st), off_in, Some (wadd i n)), Ok rsize)
                        | Some (s, Err e) \<Rightarrow> (((s, st), off_in, off_out), Err e)
                        | Some (s, Panic) \<Rightarrow> (((s, st), off_in, off_out), Panic))
                   | None \<Rightarrow>
                       (case file_write_fd ops s st out_file (take rsize buffer) of
                          (p, Ok _) \<Rightarrow> ((p, off_in, off_out), Ok rsize)
                        | (p, Err e) \<Rightarrow> ((p, off_in, off_out), Err e)
                        | (p, Panic) \<Rightarrow> ((p, off_in, off_out), Panic))))))))"

definition sys_ftruncate ::
  "('s, 'n) inode_ops \<Rightarrow> 's \<Rightarrow> ('n, 'm) fd_state_scheme \<Rightarrow> usize \<Rightarrow> usize \<Rightarrow> 's \<times> usize res" where
  "sys_ftruncate ops s st fd len =
     (if fd = 2 ^ 64 - 1 then (s, Err EPERM)
      else sbind (s, fetch st fd EINVAL) (\<lambda>s h.
           sbind (of_run s (io_truncate ops s (of_inner (deref st h)) len)) (\<lambda>s _. (s, Ok 0))))"

definition sys_truncate ::
  "('s, 'n) inode_ops \<Rightarrow> 'n mounts \<Rightarrow> 's \<Rightarrow> string option \<Rightarrow> usize \<Rightarrow> 's \<times> usize res" where
  "sys_truncate ops mt s pathname len =
     sbind (s, cstr pathname) (\<lambda>s pathname.
     sbind (open_path ops mt s (path_from pathname) O_WRONLY) (\<lambda>s file.
     sbind (of_run s (io_truncate ops s (of_inner file) len)) (\<lambda>s _. (s, Ok 0))))"

definition sys_fsync :: "('n, 'm) fd_state_scheme \<Rightarrow> usize \<Rightarrow> usize res" where
  "sys_fsync st fd = res_bind (fetch st fd EBADF) (\<lambda>_. Ok 0)"

definition sys_flock :: "('n, 'm) fd_state_scheme \<Rightarrow> usize \<Rightarrow> usize \<Rightarrow> usize res" where
  "sys_flock st fd operation =
     res_bind (fetch st fd EBADF) (\<lambda>_.
       (let base_op = (word_of_nat operation :: u64) AND NOT 4
        in if base_op = 1 \<or> base_op = 2 \<or> base_op = 8 then Ok 0 else Err EINVAL))"

text \<open>\<open>prlimit64\<close>: \<open>new_limit\<close> is the \<open>max\<close> field of the new limit when the pointer is valid,
  \<open>want_old\<close> whether the old-limit pointer is, and the last component of the result the value
  stored there (in both fields).\<close>

definition sys_prlimit64 ::
  "('n, 'm) fd_state_scheme \<Rightarrow> usize \<Rightarrow> usize option \<Rightarrow> bool \<Rightarrow> ('n, 'm) fd_state_scheme \<times> usize option \<times> usize res" where
  "sys_prlimit64 st resource new_limit want_old =
     (if resource = 3 \<or> resource = 4 \<or> resource = 7 then
        (let st = (case new_limit of Some m \<Rightarrow> st\<lparr>rlimits := (rlimits st)[resource := m]\<rparr> | None \<Rightarrow> st)
         in (st, if want_old then Some (rlimits st ! resource) else None, Ok 0))
      else (st, None, Ok 0))"

section \<open>The table as a map\<close>

text \<open>What a process sees: the open file of each descriptor.\<close>

definition fd_view :: "('n, 'm) fd_state_scheme \<Rightarrow> nat \<Rightarrow> nat option" where
  "fd_view st i = (if i < nofile st \<and> i < length (fd_table st) then fd_table st ! i else None)"

definition free_fds :: "('n, 'm) fd_state_scheme \<Rightarrow> nat set" where
  "free_fds st = {i. i < nofile st \<and> fd_view st i = None}"

definition files_ok :: "('n, 'm) fd_state_scheme \<Rightarrow> bool" where
  "files_ok st \<longleftrightarrow> length (rlimits st) = 8 \<and> curr_dir st < length (open_files st) \<and>
     (\<forall>h. Some h \<in> set (fd_table st) \<longrightarrow> h < length (open_files st))"

lemma finite_free_fds [simp]: "finite (free_fds st)"
  by (simp add: free_fds_def)

lemma get_fd_view: "fd_view st fd = Some h \<Longrightarrow> get_fd st fd = Some (Some h)"
  by (auto simp: fd_view_def get_fd_def vec_get_def split: if_splits)

lemma fetch_view: "fd_view st fd = Some h \<Longrightarrow> fetch st fd e = Ok h"
  by (simp add: fetch_def get_fd_view)

lemma get_fd_panic_iff: "get_fd st fd = None \<longleftrightarrow> length (fd_table st) \<le> fd \<and> fd < nofile st"
  by (auto simp: get_fd_def vec_get_def)

lemma fd_view_open_files [simp]:
  "fd_view (st\<lparr>open_files := x\<rparr>) = fd_view st" "free_fds (st\<lparr>open_files := x\<rparr>) = free_fds st"
  by (auto simp: fd_view_def free_fds_def fun_eq_iff)

text \<open>The contract of a descriptor allocator: a call gives the lowest descriptor that is free and
  below the limit, ready to be filled, and nothing when every one is in use.\<close>

locale descriptor_table =
  fixes view :: "'t \<Rightarrow> nat \<Rightarrow> nat option"
    and limit :: "'t \<Rightarrow> nat"
    and alloc :: "'t \<Rightarrow> 't \<times> nat option"
    and put :: "'t \<Rightarrow> nat \<Rightarrow> nat \<Rightarrow> 't option"
    and slot :: "'t \<Rightarrow> nat \<Rightarrow> bool"
  assumes alloc_view: "view (fst (alloc t)) = view t" "limit (fst (alloc t)) = limit t"
    and alloc_lowest: "snd (alloc t) = Some i \<Longrightarrow> i < limit t \<and> view t i = None \<and> slot (fst (alloc t)) i"
      "snd (alloc t) = Some i \<Longrightarrow> j < i \<Longrightarrow> view t j \<noteq> None"
    and alloc_full: "snd (alloc t) = None \<Longrightarrow> j < limit t \<Longrightarrow> view t j \<noteq> None"
    and put_view: "slot t i \<Longrightarrow> i < limit t \<Longrightarrow>
      \<exists>t'. put t i h = Some t' \<and> view t' = (view t)(i := Some h) \<and> limit t' = limit t"
begin

definition free :: "'t \<Rightarrow> nat set" where
  "free t = {i. i < limit t \<and> view t i = None}"

lemma alloc_Min: "snd (alloc t) = (if free t = {} then None else Some (Min (free t)))"
proof (cases "snd (alloc t)")
  case None
  then show ?thesis using alloc_full [OF None] by (auto simp: free_def)
next
  case (Some i)
  have "i \<in> free t" using alloc_lowest(1) [OF Some] by (simp add: free_def)
  moreover have "i \<le> j" if "j \<in> free t" for j
    using that alloc_lowest(2) [OF Some, of j] by (auto simp: free_def not_le [symmetric])
  moreover have "finite (free t)" by (simp add: free_def)
  ultimately have "Min (free t) = i" by (intro Min_eqI) auto
  then show ?thesis using Some \<open>i \<in> free t\<close> by auto
qed

lemma alloc_put:
  assumes "snd (alloc t) = Some i"
  shows "\<exists>t'. put (fst (alloc t)) i h = Some t' \<and> view t' = (view t)(i := Some h) \<and> limit t' = limit t \<and>
    free t' = free t - {i}"
proof -
  have i: "i < limit (fst (alloc t))" "slot (fst (alloc t)) i"
    using alloc_lowest(1) [OF assms] by (simp_all add: alloc_view)
  obtain t' where "put (fst (alloc t)) i h = Some t'" "view t' = (view t)(i := Some h)" "limit t' = limit t"
    using put_view [OF i(2) i(1), of h] by (auto simp: alloc_view)
  then show ?thesis by (auto simp: free_def split: if_splits)
qed

end

lemma alloc_fd_cases:
  obtains (found) i where "alloc_fd st = (st, Some i)" "i < nofile st" "i < length (fd_table st)"
      "fd_table st ! i = None" "\<forall>j<i. j < nofile st \<longrightarrow> fd_table st ! j \<noteq> None"
    | (grow) "alloc_fd st = (st\<lparr>fd_table := fd_table st @ [None]\<rparr>, Some (length (fd_table st)))"
      "length (fd_table st) < nofile st" "\<forall>j<length (fd_table st). fd_table st ! j \<noteq> None"
    | (full) "alloc_fd st = (st, None)" "nofile st \<le> length (fd_table st)"
      "\<forall>j<nofile st. fd_table st ! j \<noteq> None"
proof -
  let ?f = "find (\<lambda>(i, x). x = None \<and> i < nofile st) (enumerate 0 (fd_table st))"
  show ?thesis
  proof (cases ?f)
    case None
    then have n: "\<forall>j<length (fd_table st). j < nofile st \<longrightarrow> fd_table st ! j \<noteq> None"
      by (fastforce simp: find_None_iff in_set_enumerate_eq)
    show ?thesis
    proof (cases "length (fd_table st) < nofile st")
      case True
      then show ?thesis using grow None n by (simp add: alloc_fd_def)
    next
      case False
      then show ?thesis using full None n by (simp add: alloc_fd_def)
    qed
  next
    case (Some p)
    then obtain k where "k < length (fd_table st)" "p = (k, fd_table st ! k)" "fd_table st ! k = None" "k < nofile st"
        "\<forall>j<k. \<not> (fd_table st ! j = None \<and> j < nofile st)"
      by (auto simp: find_Some_iff nth_enumerate_eq)
    then show ?thesis using found Some by (auto simp: alloc_fd_def)
  qed
qed

interpretation fdt: descriptor_table fd_view "\<lambda>st. nofile st" alloc_fd set_fd
  "\<lambda>st i. i < length (fd_table st)"
proof (unfold_locales, goal_cases)
  case (1 t) then show ?case
    by (cases t rule: alloc_fd_cases) (auto simp: fd_view_def fun_eq_iff nth_append)
next
  case (2 t) then show ?case by (cases t rule: alloc_fd_cases) auto
next
  case (3 t i) then show ?case by (cases t rule: alloc_fd_cases) (auto simp: fd_view_def)
next
  case (4 t i j) then show ?case by (cases t rule: alloc_fd_cases) (auto simp: fd_view_def)
next
  case (5 t j) then show ?case by (cases t rule: alloc_fd_cases) (auto simp: fd_view_def)
next
  case (6 t i h) then show ?case by (auto simp: set_fd_def fd_view_def fun_eq_iff)
qed

lemma fdt_free [simp]: "fdt.free = free_fds"
  by (simp add: fdt.free_def free_fds_def fun_eq_iff)

section \<open>The RAM file system as inodes\<close>

text \<open>The default methods of \<open>INodeInterface\<close>, and the RAM file system behind the same interface.\<close>

definition default_ops :: "('s, 'n) inode_ops" where
  "default_ops = \<lparr>io_lookup = \<lambda>s n name. Err ENOENT, io_create = \<lambda>s n name ty. (s, Err ENOTDIR),
     io_remove = \<lambda>s n name. (s, Err ENOENT), io_readat = \<lambda>s n off buf. (s, buf, Err ENOENT),
     io_writeat = \<lambda>s n off buf. Some (s, Err ENOENT), io_truncate = \<lambda>s n sz. Some (s, Err EPERM),
     io_size = \<lambda>s n. Err EPERM, io_type = \<lambda>s n. Err EPERM, io_read_dir = \<lambda>s n. Err EPERM,
     io_ioctl = \<lambda>s n c a. (s, Err EPERM), io_poll = \<lambda>s n ev. Err EPERM\<rparr>"

definition ram_ops :: "(phys \<times> ram_fs, inode) inode_ops" where
  "ram_ops = default_ops\<lparr>
     io_lookup := \<lambda>(ph, fs) n name. inode_lookup fs n name,
     io_create := \<lambda>(ph, fs) n name ty. (case inode_create fs n name ty of (fs, r) \<Rightarrow> ((ph, fs), r)),
     io_remove := \<lambda>(ph, fs) n name.
       (case n of IDir d \<Rightarrow> (case rd_remove fs d name of (fs, r) \<Rightarrow> ((ph, fs), r))
        | _ \<Rightarrow> io_remove default_ops (ph, fs) n name),
     io_readat := \<lambda>(ph, fs) n off buf. (case inode_readat ph fs n off buf of (b, r) \<Rightarrow> ((ph, fs), b, r)),
     io_writeat := \<lambda>(ph, fs) n off buf. map_option (\<lambda>(ph, fs, r). ((ph, fs), r)) (inode_writeat ph fs n off buf),
     io_truncate := \<lambda>(ph, fs) n sz. map_option (\<lambda>(ph, fs, r). ((ph, fs), r)) (inode_truncate ph fs n sz),
     io_size := \<lambda>(ph, fs) n. (case n of IFile i \<Rightarrow> Ok (rf_len (fs_files fs ! i)) | IDir d \<Rightarrow> Ok 0 | ILink _ _ \<Rightarrow> Ok 3),
     io_type := \<lambda>(ph, fs) n. (case n of IFile i \<Rightarrow> Ok FtFile | IDir d \<Rightarrow> Ok FtDirectory | ILink _ _ \<Rightarrow> Ok FtLink),
     io_read_dir := \<lambda>(ph, fs) n.
       (case n of IDir d \<Rightarrow> Ok (rd_read_dir fs d) | _ \<Rightarrow> io_read_dir default_ops (ph, fs) n)\<rparr>"

section \<open>Installing files\<close>

lemma lift_fs_Ok [run_simps]: "lift_fs st m = (p, Ok x) \<longleftrightarrow> m = (fst p, Ok x) \<and> snd p = st"
  by (cases m; cases p) (auto simp: lift_fs_def)

lemma lift_st_Ok [run_simps]: "lift_st s m = (p, Ok x) \<longleftrightarrow> m = (snd p, Ok x) \<and> fst p = s"
  by (cases m; cases p) (auto simp: lift_st_def)

lemma alloc_fd_keeps: "open_files (fst (alloc_fd st)) = open_files st" "curr_dir (fst (alloc_fd st)) = curr_dir st"
  "rlimits (fst (alloc_fd st)) = rlimits st"
  by (simp_all add: alloc_fd_def Let_def split: option.splits)

lemma install_full: "free_fds st = {} \<Longrightarrow> install st f e = (fst (alloc_fd st), Err e)"
  using fdt.alloc_Min [of st] by (auto simp: install_def split: prod.splits)

lemma install_lowest:
  assumes "free_fds st \<noteq> {}"
  shows "\<exists>st'. install st f e = (st', Ok (Min (free_fds st))) \<and>
    fd_view st' = (fd_view st)(Min (free_fds st) := Some (length (open_files st))) \<and>
    open_files st' = open_files st @ [f] \<and> nofile st' = nofile st \<and> free_fds st' = free_fds st - {Min (free_fds st)}"
proof -
  let ?i = "Min (free_fds st)" and ?h = "length (open_files st)"
  have sn: "snd (alloc_fd st) = Some ?i" using fdt.alloc_Min [of st] assms by simp
  then obtain st1 where a: "alloc_fd st = (st1, Some ?i)" by (metis prod.collapse)
  have of1: "open_files st1 = open_files st" using alloc_fd_keeps(1) [of st] a by simp
  obtain st2 where st2: "set_fd st1 ?i ?h = Some st2" "fd_view st2 = (fd_view st)(?i := Some ?h)"
      "nofile st2 = nofile st" "free_fds st2 = free_fds st - {?i}"
    using fdt.alloc_put [OF sn, of ?h] a by auto
  have "set_fd (st1\<lparr>open_files := open_files st @ [f]\<rparr>) ?i ?h = Some (st2\<lparr>open_files := open_files st @ [f]\<rparr>)"
    using st2(1) by (auto simp: set_fd_def split: if_splits)
  then have "install st f e = (st2\<lparr>open_files := open_files st @ [f]\<rparr>, Ok ?i)"
    by (simp add: install_def arc_new_def a of1)
  with st2 show ?thesis by simp
qed

lemma install_Ok_free: "install st f e = (st', Ok fd) \<Longrightarrow> free_fds st \<noteq> {}"
  using install_full [of st f e] by auto

definition open_count :: "('n, 'm) fd_state_scheme \<Rightarrow> nat" where
  "open_count st = card (dom (fd_view st))"

lemma finite_open [simp]: "finite (dom (fd_view st))"
  by (rule finite_subset [of _ "{..<nofile st}"]) (auto simp: fd_view_def split: if_splits)

lemma install_count: "install st f e = (st', Ok fd) \<Longrightarrow> open_count st' = open_count st + 1"
proof -
  assume a: "install st f e = (st', Ok fd)"
  let ?i = "Min (free_fds st)"
  have v: "fd_view st' = (fd_view st)(?i := Some (length (open_files st)))"
    using install_lowest [OF install_Ok_free [OF a], of f e] a by auto
  have "?i \<in> free_fds st" using install_Ok_free [OF a] by (intro Min_in) auto
  then have "fd_view st ?i = None" by (simp add: free_fds_def)
  then have "?i \<notin> dom (fd_view st)" by auto
  moreover have "dom (fd_view st') = insert ?i (dom (fd_view st))" by (auto simp: v)
  ultimately show ?thesis by (simp add: open_count_def)
qed

lemma mkdir_loop_count:
  "mkdir_loop ops mt comps s st fd = ((s', st'), Ok r) \<Longrightarrow> open_count st' = open_count st + length comps"
proof (induction comps arbitrary: s st fd)
  case (Cons name comps)
  then obtain s1 fl st1 new_fd where
    "install st fl EMFILE = (st1, Ok new_fd)" "mkdir_loop ops mt comps s1 st1 (as_isize new_fd) = ((s', st'), Ok r)"
    by (auto simp: run_simps)
  then show ?case using Cons.IH install_count by fastforce
qed simp

lemma alloc_fd_ok: "files_ok st \<Longrightarrow> files_ok (fst (alloc_fd st))"
  by (cases st rule: alloc_fd_cases) (auto simp: files_ok_def)

lemma set_fd_ok: "files_ok st \<Longrightarrow> h < length (open_files st) \<Longrightarrow> set_fd st i h = Some st' \<Longrightarrow> files_ok st'"
  by (auto simp: files_ok_def set_fd_def split: if_splits dest!: set_update_subset_insert [THEN subsetD])

lemma clear_fd_ok: "files_ok st \<Longrightarrow> files_ok (clear_fd st i)"
  by (auto simp: files_ok_def clear_fd_def dest!: set_update_subset_insert [THEN subsetD])

lemma get_fd_ok: "files_ok st \<Longrightarrow> get_fd st i = Some (Some h) \<Longrightarrow> h < length (open_files st)"
  by (auto simp: files_ok_def get_fd_def vec_get_def split: if_splits) (metis nth_mem)

lemma install_ok:
  assumes "files_ok st"
  shows "files_ok (fst (install st f e))"
proof -
  obtain st1 r where a: "alloc_fd st = (st1, r)" by (cases "alloc_fd st")
  have "files_ok st1" using alloc_fd_ok [OF assms] a by simp
  then have "files_ok (st1\<lparr>open_files := open_files st1 @ [f]\<rparr>)" by (auto simp: files_ok_def dest: less_SucI)
  then show ?thesis
    using \<open>files_ok st1\<close> set_fd_ok [of "st1\<lparr>open_files := open_files st1 @ [f]\<rparr>"]
    by (auto simp: install_def arc_new_def a split: option.splits)
qed

section \<open>Properties\<close>

abbreviation demo_limits :: "usize \<Rightarrow> usize list" where
  "demo_limits n \<equiv> [0, 0, 0, 0, 0, 0, 0, n]"

abbreviation demo_root :: "inode open_file" where
  "demo_root \<equiv> \<lparr>of_inner = IDir 0, of_path = [], of_offset = 0, of_flags = O_DIRECTORY\<rparr>"

abbreviation demo_fds :: "usize \<Rightarrow> inode fd_state" where
  "demo_fds n \<equiv> \<lparr>open_files = [demo_root], fd_table = [Some 0, None, None], rlimits = demo_limits n, curr_dir = 0\<rparr>"

lemma demo_free: "n \<le> 3 \<Longrightarrow> free_fds (demo_fds n) = {1..<n}"
  by (auto simp: free_fds_def fd_view_def nth_Cons' split: if_splits)

text \<open>C9: opening a file gives the lowest descriptor that is free and below the limit, which then
  refers to the opened file with every other descriptor as before; with no descriptor free the
  call fails with \<open>EMFILE\<close> and no descriptor changes.\<close>

theorem openat_lowest:
  assumes "fd_open ops mt s st dir_fd name (from_bits_truncate flags) = (s', Ok f)"
  shows "if free_fds st = {}
    then \<exists>st'. sys_openat ops mt s st dir_fd (Some (Some name)) flags = ((s', st'), Err EMFILE) \<and> fd_view st' = fd_view st
    else \<exists>st'. sys_openat ops mt s st dir_fd (Some (Some name)) flags = ((s', st'), Ok (Min (free_fds st))) \<and>
      fd_view st' = (fd_view st)(Min (free_fds st) := Some (length (open_files st))) \<and>
      open_files st' = open_files st @ [f]"
proof -
  have "sys_openat ops mt s st dir_fd (Some (Some name)) flags = lift_st s' (install st f EMFILE)"
    by (simp add: sys_openat_def cstr_def lift_fs_def assms)
  then show ?thesis
    using install_full [of st f EMFILE] install_lowest [of st f EMFILE] fdt.alloc_view(1) [of st]
    by (cases "free_fds st = {}") (auto simp: lift_st_def)
qed

theorem openat_lowest_witness:
  "\<exists>st'. sys_openat ram_ops [([], IDir 0)] (demo_phys, ram_fs_new) (demo_fds 3) AT_CWD (Some (Some ''a'')) 64 =
      (((demo_phys, fst (rd_create ram_fs_new 0 ''a'' FtFile)), st'), Ok 1)"
proof -
  have f: "fd_open ram_ops [([], IDir 0)] (demo_phys, ram_fs_new) (demo_fds 3) AT_CWD ''a'' (from_bits_truncate 64) =
    ((demo_phys, fst (rd_create ram_fs_new 0 ''a'' FtFile)),
     Ok \<lparr>of_inner = IFile 0, of_path = [''a''], of_offset = 0, of_flags = 64\<rparr>)"
    by (simp add: fd_open_def fd_resolve_def path_join_def join_step_def open_path_def file_open_def ram_ops_def
        get_mounted_def path_starts_with_def path_trim_start_def path_levels_def path_dir_def path_filename_def
        from_bits_truncate_def flags_contain_def rd_create_def ram_fs_new_def set_children_def rd_lookup_def)
  have "free_fds (demo_fds 3) = {1, 2}" by (auto simp: demo_free)
  then show ?thesis using openat_lowest [OF f] by auto
qed

text \<open>A duplicated descriptor is the lowest free one and shares the open file: seeking or reading
  through either is the same, cursor included.\<close>

theorem dup_shares_file:
  assumes "fd_view st fd = Some h" "free_fds st \<noteq> {}"
  shows "\<exists>st'. sys_dup st fd = (st', Ok (Min (free_fds st))) \<and>
    fd_view st' = (fd_view st)(Min (free_fds st) := Some h) \<and> open_files st' = open_files st \<and>
    sys_lseek ops s st' (Min (free_fds st)) off whence = sys_lseek ops s st' fd off whence \<and>
    sys_read ops s st' (Min (free_fds st)) buf = sys_read ops s st' fd buf"
proof -
  let ?i = "Min (free_fds st)"
  have sn: "snd (alloc_fd st) = Some ?i" using fdt.alloc_Min [of st] assms(2) by simp
  then obtain st1 where a: "alloc_fd st = (st1, Some ?i)" by (metis prod.collapse)
  obtain st2 where st2: "set_fd st1 ?i h = Some st2" "fd_view st2 = (fd_view st)(?i := Some h)"
    using fdt.alloc_put [OF sn, of h] a by auto
  have "fd_view st1 fd = Some h" using fdt.alloc_view(1) [of st] a assms(1) by simp
  then have d: "sys_dup st fd = (st2, Ok ?i)" using st2(1) by (simp add: sys_dup_def sys_dup3_def a fetch_view)
  have "open_files st2 = open_files st1" using st2(1) by (auto simp: set_fd_def split: if_splits)
  moreover have "fetch st2 ?i e = Ok h" "fetch st2 fd e = Ok h" for e
    using st2(2) assms(1) by (auto intro!: fetch_view)
  ultimately show ?thesis
    using d st2(2) alloc_fd_keeps(1) [of st] a by (auto simp: sys_lseek_def sys_read_def)
qed

theorem dup_shares_file_witness:
  "\<exists>st'. sys_dup (demo_fds 3) 0 = (st', Ok 1) \<and>
     sys_lseek ram_ops (demo_phys, ram_fs_new) st' 1 5 0 = sys_lseek ram_ops (demo_phys, ram_fs_new) st' 0 5 0"
proof -
  have "free_fds (demo_fds 3) = {1, 2}" by (auto simp: demo_free)
  moreover have "fd_view (demo_fds 3) 0 = Some 0" by (simp add: fd_view_def)
  ultimately show ?thesis
    using dup_shares_file [of "demo_fds 3" 0 0 ram_ops "(demo_phys, ram_fs_new)" 5 0] by auto
qed

text \<open>\<open>pipe2\<close> takes the two lowest free descriptors, for the reading and the writing end.  With
  only one left it fails with \<open>ENFILE\<close> and yet leaves the reading end open in it.\<close>

theorem pipe2_outcome:
  assumes "nofile st \<le> 2 ^ 32"
  shows "if free_fds st = {} then snd (snd (sys_pipe2 st rx tx)) = Err ENFILE
    else let i = Min (free_fds st); h = length (open_files st)
      in if free_fds st = {i}
         then \<exists>st'. sys_pipe2 st rx tx = (st', [i], Err ENFILE) \<and> fd_view st' = (fd_view st)(i := Some h)
         else let j = Min (free_fds st - {i})
           in \<exists>st'. sys_pipe2 st rx tx = (st', [i, j], Ok 0) \<and> i < j \<and>
                fd_view st' = (fd_view st)(i := Some h, j := Some (h + 1)) \<and>
                open_files st' = open_files st @ [new_dev rx, new_dev tx]"
proof (cases "free_fds st = {}")
  case True
  then show ?thesis using install_full [of st "new_dev rx" ENFILE] by (simp add: sys_pipe2_def)
next
  case False
  let ?i = "Min (free_fds st)"
  have bound: "k mod 2 ^ 32 = k" if "k \<in> free_fds st" for k
    using that assms by (auto simp: free_fds_def intro!: mod_less)
  have i: "?i \<in> free_fds st" using False by (intro Min_in) auto
  obtain st1 where st1: "install st (new_dev rx) ENFILE = (st1, Ok ?i)"
      "fd_view st1 = (fd_view st)(?i := Some (length (open_files st)))" "open_files st1 = open_files st @ [new_dev rx]"
      "free_fds st1 = free_fds st - {?i}"
    using install_lowest [OF False] by blast
  show ?thesis
  proof (cases "free_fds st = {?i}")
    case True
    then have "free_fds st1 = {}" using st1(4) by auto
    from install_full [OF this, of "new_dev tx" ENFILE] show ?thesis
      using st1 True False fdt.alloc_view(1) [of st1] bound [OF i] by (simp add: sys_pipe2_def Let_def)
  next
    case one: False
    then have ne: "free_fds st1 \<noteq> {}" using st1(4) i by auto
    let ?j = "Min (free_fds st - {?i})"
    have j: "?j \<in> free_fds st - {?i}" using ne st1(4) by (intro Min_in) auto
    moreover have "?i \<le> ?j" using j by (intro Min_le) auto
    ultimately have "?i < ?j" by (metis DiffE insertI1 le_neq_implies_less)
    then show ?thesis
      using install_lowest [OF ne, of "new_dev tx" ENFILE] st1 one False bound [OF i] bound [of ?j] j
      by (auto simp: sys_pipe2_def Let_def)
  qed
qed

theorem pipe2_outcome_witness:
  "(\<exists>st'. sys_pipe2 (demo_fds 3) (IFile 7) (IFile 8) = (st', [1, 2], Ok 0)) \<and>
   (\<exists>st'. sys_pipe2 (demo_fds 2) (IFile 7) (IFile 8) = (st', [1], Err ENFILE) \<and> fd_view st' 1 = Some 1)"
proof -
  have f3: "free_fds (demo_fds 3) = {1, 2}" and f2: "free_fds (demo_fds 2) = {1}" by (auto simp: demo_free)
  have m: "Min ({1, 2} :: nat set) = 1" "{1, 2} - {1} = {2 :: nat}" "{1, 2} \<noteq> {1 :: nat}" "{1, 2} \<noteq> ({} :: nat set)"
    by auto
  show ?thesis
    using pipe2_outcome [of "demo_fds 3" "IFile 7" "IFile 8", unfolded f3]
      pipe2_outcome [of "demo_fds 2" "IFile 7" "IFile 8", unfolded f2] m
    by (auto simp: Let_def)
qed

text \<open>A successful \<open>mkdirat\<close> leaves one more open descriptor for every component of its path, and
  one for the root when the path is absolute; nothing closes them.\<close>

theorem mkdir_at_leaks:
  assumes "sys_mkdir_at ops mt s st dir_fd (Some path) = ((s', st'), Ok r)"
  shows "open_count st' = open_count st + length (filter (\<lambda>x. x \<noteq> []) (split_slash path)) +
    (if prefix ''/'' path then 1 else 0)"
proof (cases "prefix ''/'' path")
  case True
  then obtain s1 fl st1 fd where "install st fl EMFILE = (st1, Ok fd)"
      "mkdir_loop ops mt (filter (\<lambda>x. x \<noteq> []) (split_slash path)) s1 st1 (as_isize fd) = ((s', st'), Ok r)"
    using assms by (auto simp: sys_mkdir_at_def cstr_def run_simps Let_def split: if_splits)
  then show ?thesis using True mkdir_loop_count install_count by fastforce
next
  case False
  then have "mkdir_loop ops mt (filter (\<lambda>x. x \<noteq> []) (split_slash path)) s st dir_fd = ((s', st'), Ok r)"
    using assms by (auto simp: sys_mkdir_at_def cstr_def Let_def split: if_splits)
  then show ?thesis using False mkdir_loop_count by fastforce
qed

text \<open>The file system and process after \<open>mkdir a\<close> in the root directory.\<close>

abbreviation demo_mkdir_files :: "inode fd_state" where
  "demo_mkdir_files \<equiv> (demo_fds 3)\<lparr>open_files := [demo_root,
     \<lparr>of_inner = IDir 1, of_path = [''a''], of_offset = 0, of_flags = O_DIRECTORY OR O_CREAT\<rparr>],
     fd_table := [Some 0, Some 1, None]\<rparr>"

lemmas path_eval = fd_open_def fd_resolve_def path_from_def path_join_def join_step_def open_path_def file_open_def
  ram_ops_def default_ops_def get_mounted_def path_starts_with_def path_trim_start_def path_levels_def path_dir_def
  path_filename_def from_bits_truncate_def flags_contain_def rd_create_def add_dir_def ram_fs_new_def
  set_children_def rd_lookup_def cstr_def lift_fs_def lift_st_def

theorem mkdir_at_leaks_witness:
  "sys_mkdir_at ram_ops [([], IDir 0)] (demo_phys, ram_fs_new) (demo_fds 3) AT_CWD (Some ''a'') =
     (((demo_phys, fst (rd_mkdir ram_fs_new 0 ''a'')), demo_mkdir_files), Ok 0) \<and>
   open_count demo_mkdir_files = open_count (demo_fds 3) + 1"
proof -
  have i: "install (demo_fds 3) f EMFILE = ((demo_fds 3)\<lparr>open_files := [demo_root, f], fd_table := [Some 0, Some 1, None]\<rparr>, Ok 1)" for f
    by (simp add: install_def alloc_fd_def arc_new_def set_fd_def)
  have "sys_mkdir_at ram_ops [([], IDir 0)] (demo_phys, ram_fs_new) (demo_fds 3) AT_CWD (Some ''a'') =
     (((demo_phys, fst (rd_mkdir ram_fs_new 0 ''a'')), demo_mkdir_files), Ok 0)"
    by (simp add: sys_mkdir_at_def path_eval rd_mkdir_def i)
  with mkdir_at_leaks [OF this] show ?thesis by simp
qed

text \<open>Renaming a regular file with no flags never succeeds: once the old file is read, the call
  fails with \<open>EPERM\<close>, because the new file it has just created is not open for writing.\<close>

theorem rename_regular_fails:
  assumes "fd_open ops mt s st olddir old 0 = (s1, Ok old_file)" "io_type ops s1 (of_inner old_file) = Ok FtFile"
    "fd_open ops mt s1 st newdir new O_CREAT = (s2, Ok new_file)" "io_size ops s2 (of_inner old_file) = Ok n"
    "io_readat ops s2 (of_inner old_file) (of_offset old_file) (replicate n 0) = (s3, buf, Ok k)"
  shows "sys_renameat2 ops mt s st olddir (Some old) newdir (Some new) 0 = (s3, Err EPERM)"
proof -
  have "of_flags new_file = O_CREAT"
    using assms(3) by (auto simp: fd_open_def open_path_def file_open_def Let_def res_bind_Ok_iff
        split: option.splits res.splits prod.splits if_splits)
  then show ?thesis
    using assms
    by (simp add: sys_renameat2_def cstr_def from_bits_truncate_def rename_copy_def file_read_def file_write_def
        check_writeable_def flags_contain_def)
qed

theorem rename_regular_fails_witness:
  "\<exists>s'. sys_renameat2 ram_ops [([], IDir 0)] (demo_phys, fst (rd_create ram_fs_new 0 ''a'' FtFile)) (demo_fds 3)
     AT_CWD (Some ''a'') AT_CWD (Some ''b'') 0 = (s', Err EPERM)"
proof -
  let ?fs = "fst (rd_create ram_fs_new 0 ''a'' FtFile)"
  have a: "fd_open ram_ops [([], IDir 0)] (demo_phys, ?fs) (demo_fds 3) AT_CWD ''a'' 0 =
      ((demo_phys, ?fs), Ok \<lparr>of_inner = IFile 0, of_path = [''a''], of_offset = 0, of_flags = 0\<rparr>)"
    by (simp add: path_eval)
  have b: "fd_open ram_ops [([], IDir 0)] (demo_phys, ?fs) (demo_fds 3) AT_CWD ''b'' O_CREAT =
      ((demo_phys, fst (rd_create ?fs 0 ''b'' FtFile)),
       Ok \<lparr>of_inner = IFile 1, of_path = [''b''], of_offset = 0, of_flags = O_CREAT\<rparr>)"
    by (simp add: path_eval)
  have t: "io_type ram_ops (demo_phys, ?fs) (IFile 0) = Ok FtFile" by (simp add: ram_ops_def default_ops_def)
  have n: "io_size ram_ops (demo_phys, fst (rd_create ?fs 0 ''b'' FtFile)) (IFile 0) = Ok 0"
    by (simp add: path_eval ram_file_new_def)
  have "\<exists>s buf k. io_readat ram_ops (demo_phys, fst (rd_create ?fs 0 ''b'' FtFile)) (IFile 0) 0 (replicate 0 0) = (s, buf, Ok k)"
    by (simp add: path_eval ram_file_new_def rf_readat_def)
  then show ?thesis using rename_regular_fails [OF a _ b, of 0] t n by auto
qed

text \<open>Raising the descriptor limit above the size of the table makes every descriptor in between a
  kernel panic: \<open>read\<close>, like every call that fetches a descriptor, indexes past the table.\<close>

theorem raised_limit_panics:
  assumes "length (rlimits st) = 8" "length (fd_table st) \<le> fd" "fd < m"
  shows "sys_read ops s (fst (sys_prlimit64 st 7 (Some m) w)) fd buf =
    (s, fst (sys_prlimit64 st 7 (Some m) w), Ready (buf, Panic))"
  using assms by (simp add: sys_read_def fetch_def get_fd_def vec_get_def sys_prlimit64_def Let_def)

theorem raised_limit_panics_witness:
  "sys_read ram_ops (demo_phys, ram_fs_new) (fst (sys_prlimit64 (demo_fds 3) 7 (Some 1000) False)) 500 [0] =
     ((demo_phys, ram_fs_new), fst (sys_prlimit64 (demo_fds 3) 7 (Some 1000) False), Ready ([0], Panic))"
  using raised_limit_panics [of "demo_fds 3" 500 1000] by simp

end
