(* ===== verification/Executor.thy ===== *)
theory Executor
  imports Pipes
begin

text \<open>
  The cooperative executor of \<open>crates/executor\<close>: the FIFO \<open>TASK_QUEUE\<close>, the \<open>TASK_MAP\<close>, the
  per-hart current task, \<open>spawn\<close>, \<open>run_ready_task\<close>, the identifiers of \<open>task_id_alloc\<close>, and the
  futures \<open>Select\<close> and \<open>Yield\<close>; with the \<open>LazyInit\<close> cell of \<open>crates/sync\<close> that holds its tables.

  A boxed future is a value of a type \<open>'f\<close> and what one poll of it does is a parameter: it maps the
  executor, whose field \<open>ex_world\<close> is the rest of the kernel, to the executor and the future to
  poll next, or \<open>None\<close> when it is ready.  The lemmas show that the scheduler is round robin and
  that it runs every spawned future to its end.
\<close>

section \<open>Once-initialised cells\<close>

type_synonym 'a lazy_init = "'a option"

definition lazy_new :: "'a lazy_init" where
  "lazy_new = None"

definition is_init :: "'a lazy_init \<Rightarrow> bool" where
  "is_init c \<longleftrightarrow> c \<noteq> None"

definition init_by :: "'a lazy_init \<Rightarrow> 'a \<Rightarrow> 'a lazy_init run" where
  "init_by c x = (if is_init c then None else Some (Some x))"

definition try_get :: "'a lazy_init \<Rightarrow> 'a option" where
  "try_get c = c"

text \<open>\<open>deref\<close>: \<open>check_init\<close> panics on a cell that is not initialised.\<close>

definition lazy_get :: "'a lazy_init \<Rightarrow> 'a run" where
  "lazy_get c = (if is_init c then c else None)"

definition lazy_get_mut :: "'a lazy_init \<Rightarrow> ('a \<Rightarrow> 'a) \<Rightarrow> 'a lazy_init run" where
  "lazy_get_mut c f = (if is_init c then Some (map_option f c) else None)"

section \<open>The executor\<close>

type_synonym task_id = usize

record ('f, 'w) exec =
  ex_cores :: "task_id option list lazy_init"
  ex_inited :: bool
  ex_task_map :: "task_id set lazy_init"
  ex_queue :: "(task_id \<times> 'f) list"
  ex_boot_page :: "usize lazy_init"
  ex_task_id :: usize
  ex_world :: 'w

definition executor_new :: "'w \<Rightarrow> ('f, 'w) exec" where
  "executor_new w =
     \<lparr> ex_cores = lazy_new, ex_inited = False, ex_task_map = lazy_new, ex_queue = [],
       ex_boot_page = lazy_new, ex_task_id = 0, ex_world = w \<rparr>"

text \<open>\<open>Executor::init\<close>; \<open>page\<close> is \<open>PageTable::current()\<close>.\<close>

definition exec_init :: "usize \<Rightarrow> usize \<Rightarrow> ('f, 'w) exec \<Rightarrow> ('f, 'w) exec run" where
  "exec_init page cores s =
     do { c \<leftarrow> init_by (ex_cores s) (replicate cores None);
          m \<leftarrow> init_by (ex_task_map s) {};
          b \<leftarrow> (if is_init (ex_boot_page s) then Some (ex_boot_page s)
               else init_by (ex_boot_page s) page);
          Some (s\<lparr>ex_cores := c, ex_task_map := m, ex_boot_page := b, ex_inited := True\<rparr>) }"

definition exec_push :: "('f, 'w) exec \<Rightarrow> task_id \<times> 'f \<Rightarrow> ('f, 'w) exec" where
  "exec_push s item = s\<lparr>ex_queue := ex_queue s @ [item]\<rparr>"

text \<open>\<open>thread::spawn\<close>: the task is entered in the map, then its future queued.\<close>

definition spawn :: "task_id \<Rightarrow> 'f \<Rightarrow> ('f, 'w) exec \<Rightarrow> ('f, 'w) exec run" where
  "spawn t f s =
     do { m \<leftarrow> lazy_get_mut (ex_task_map s) (insert t);
          Some (exec_push (s\<lparr>ex_task_map := m\<rparr>) (t, f)) }"

definition task_id_alloc :: "('f, 'w) exec \<Rightarrow> ('f, 'w) exec \<times> task_id" where
  "task_id_alloc s =
     (let t = wadd (ex_task_id s) 1 in (s\<lparr>ex_task_id := t\<rparr>, t))"

definition spawn_blank :: "'f \<Rightarrow> ('f, 'w) exec \<Rightarrow> ('f, 'w) exec run" where
  "spawn_blank f s = (let (s, t) = task_id_alloc s in spawn t f s)"

text \<open>The map holds weak references: \<open>alive\<close> says which tasks are still referenced elsewhere.\<close>

definition tid2task :: "(task_id \<Rightarrow> bool) \<Rightarrow> ('f, 'w) exec \<Rightarrow> task_id \<Rightarrow> task_id option run" where
  "tid2task alive s t =
     do { m \<leftarrow> lazy_get (ex_task_map s); Some (if t \<in> m \<and> alive t then Some t else None) }"

definition release_task :: "task_id \<Rightarrow> ('f, 'w) exec \<Rightarrow> ('f, 'w) exec run" where
  "release_task t s =
     do { m \<leftarrow> lazy_get_mut (ex_task_map s) (\<lambda>m. m - {t}); Some (s\<lparr>ex_task_map := m\<rparr>) }"

definition current_task :: "usize \<Rightarrow> ('f, 'w) exec \<Rightarrow> task_id run" where
  "current_task hart s = do { c \<leftarrow> lazy_get (ex_cores s); t \<leftarrow> vec_get c hart; t }"

definition set_current :: "usize \<Rightarrow> task_id \<Rightarrow> ('f, 'w) exec \<Rightarrow> ('f, 'w) exec run" where
  "set_current hart t s =
     do { c \<leftarrow> lazy_get (ex_cores s);
          _ \<leftarrow> vec_get c hart;
          Some (s\<lparr>ex_cores := Some (c[hart := Some t])\<rparr>) }"

text \<open>\<open>Executor::run_ready_task\<close>: \<open>before\<close> is \<open>before_run\<close> of the task, which switches page tables;
  \<open>poll\<close> polls its future.\<close>

definition run_ready_task ::
  "(task_id \<Rightarrow> 'w \<Rightarrow> 'w) \<Rightarrow> (task_id \<Rightarrow> 'f \<Rightarrow> ('f, 'w) exec \<Rightarrow> ('f, 'w) exec \<times> 'f option)
     \<Rightarrow> usize \<Rightarrow> ('f, 'w) exec \<Rightarrow> ('f, 'w) exec run" where
  "run_ready_task before poll hart s =
     (case ex_queue s of
        [] \<Rightarrow> Some s
      | (t, f) # q \<Rightarrow>
          let s = s\<lparr>ex_queue := q, ex_world := before t (ex_world s)\<rparr> in
          do { s \<leftarrow> set_current hart t s;
               (case poll t f s of
                  (s, None) \<Rightarrow> Some s
                | (s, Some f) \<Rightarrow> Some (exec_push s (t, f))) })"

text \<open>\<open>n\<close> rounds of the loop of \<open>Executor::run\<close>, which is entered once \<open>inited\<close> is set.\<close>

primrec run_rounds ::
  "(task_id \<Rightarrow> 'w \<Rightarrow> 'w) \<Rightarrow> (task_id \<Rightarrow> 'f \<Rightarrow> ('f, 'w) exec \<Rightarrow> ('f, 'w) exec \<times> 'f option)
     \<Rightarrow> usize \<Rightarrow> nat \<Rightarrow> ('f, 'w) exec \<Rightarrow> ('f, 'w) exec run" where
  "run_rounds before poll hart 0 s = Some s"
| "run_rounds before poll hart (Suc n) s =
     do { s \<leftarrow> run_ready_task before poll hart s; run_rounds before poll hart n s }"

section \<open>Futures of the executor crate\<close>

text \<open>\<open>Yield\<close>: the flag it holds, and one poll.\<close>

fun yield_poll :: "bool \<Rightarrow> bool \<times> unit poll" where
  "yield_poll True = (True, Ready ())"
| "yield_poll False = (True, Pending)"

text \<open>\<open>Select\<close>: the pair of futures, \<open>None\<close> once it was ready, when another poll panics; the
  left one is polled first and the right one only if the left is pending.\<close>

definition select_poll ::
  "('a \<Rightarrow> 's \<Rightarrow> 's \<times> 'a \<times> 'x poll) \<Rightarrow> ('b \<Rightarrow> 's \<Rightarrow> 's \<times> 'b \<times> 'y poll)
     \<Rightarrow> ('a \<times> 'b) option \<Rightarrow> 's \<Rightarrow> ('s \<times> ('a \<times> 'b) option \<times> ('x \<times> 'b + 'y \<times> 'a) poll) run" where
  "select_poll pa pb inner s =
     (case inner of
        None \<Rightarrow> None
      | Some (a, b) \<Rightarrow>
          (case pa a s of
             (s, a, Ready x) \<Rightarrow> Some (s, None, Ready (Inl (x, b)))
           | (s, a, Pending) \<Rightarrow>
               (case pb b s of
                  (s, b, Ready y) \<Rightarrow> Some (s, None, Ready (Inr (y, a)))
                | (s, b, Pending) \<Rightarrow> Some (s, Some (a, b), Pending))))"

section \<open>What a poll may do to the executor\<close>

text \<open>\<open>TASK_QUEUE\<close> and the cores are private to the crate: a future reaches the queue only
  through \<open>spawn\<close>, which appends to it, and never touches the cores.\<close>

definition only_spawns ::
  "(task_id \<Rightarrow> 'f \<Rightarrow> ('f, 'w) exec \<Rightarrow> ('f, 'w) exec \<times> 'f option) \<Rightarrow> bool" where
  "only_spawns poll \<longleftrightarrow>
     (\<forall>t f s. (\<exists>new. ex_queue (fst (poll t f s)) = ex_queue s @ new) \<and>
              ex_cores (fst (poll t f s)) = ex_cores s)"

definition never_spawns ::
  "(task_id \<Rightarrow> 'f \<Rightarrow> ('f, 'w) exec \<Rightarrow> ('f, 'w) exec \<times> 'f option) \<Rightarrow> bool" where
  "never_spawns poll \<longleftrightarrow>
     (\<forall>t f s. ex_queue (fst (poll t f s)) = ex_queue s \<and>
              ex_cores (fst (poll t f s)) = ex_cores s)"

definition hart_ok :: "usize \<Rightarrow> ('f, 'w) exec \<Rightarrow> bool" where
  "hart_ok hart s \<longleftrightarrow> (\<exists>c. ex_cores s = Some c \<and> hart < length c)"

lemma never_only_spawns: "never_spawns poll \<Longrightarrow> only_spawns poll"
  unfolding never_spawns_def only_spawns_def by simp

lemmas lazy_simps = lazy_new_def is_init_def init_by_def lazy_get_def lazy_get_mut_def
declare lazy_simps [run_simps]

lemma set_current_ok:
  assumes "hart_ok hart s"
  shows "\<exists>s'. set_current hart t s = Some s' \<and> ex_queue s' = ex_queue s \<and> hart_ok hart s' \<and>
    current_task hart s' = Some t \<and> ex_world s' = ex_world s"
proof -
  from assms obtain c where c: "ex_cores s = Some c" "hart < length c"
    unfolding hart_ok_def by blast
  let ?s' = "s\<lparr>ex_cores := Some (c[hart := Some t])\<rparr>"
  have "set_current hart t s = Some ?s'"
    using c by (simp add: set_current_def lazy_simps vec_get_def)
  then show ?thesis
    using c by (intro exI [of _ ?s']) (simp add: hart_ok_def current_task_def lazy_simps vec_get_def)
qed

text \<open>One round on a queue that is not empty: the head is polled, the rest moves up, and whatever
  was spawned follows.\<close>

lemma run_ready_task_Cons:
  assumes ok: "hart_ok hart s" and q: "ex_queue s = (t, f) # q" and sp: "only_spawns poll"
  obtains s0 s' new where
    "run_ready_task before poll hart s = Some s'"
    "hart_ok hart s'"
    "ex_queue s0 = q" "current_task hart s0 = Some t"
    "ex_queue (fst (poll t f s0)) = q @ new"
    "ex_queue s' = q @ new @ (case snd (poll t f s0) of None \<Rightarrow> [] | Some f' \<Rightarrow> [(t, f')])"
proof -
  let ?s1 = "s\<lparr>ex_queue := q, ex_world := before t (ex_world s)\<rparr>"
  have "hart_ok hart ?s1" using ok by (simp add: hart_ok_def)
  then obtain s0 where s0: "set_current hart t ?s1 = Some s0" "ex_queue s0 = q"
      "hart_ok hart s0" "current_task hart s0 = Some t"
    using set_current_ok [of hart ?s1 t] by auto
  obtain s2 r where p: "poll t f s0 = (s2, r)" by fastforce
  from sp have "(\<exists>new. ex_queue s2 = ex_queue s0 @ new) \<and> ex_cores s2 = ex_cores s0"
    unfolding only_spawns_def by (metis p fst_conv)
  then obtain new where n: "ex_queue s2 = q @ new" and c: "ex_cores s2 = ex_cores s0"
    using s0(2) by auto
  let ?s' = "case r of None \<Rightarrow> s2 | Some f' \<Rightarrow> exec_push s2 (t, f')"
  have run: "run_ready_task before poll hart s = Some ?s'"
    using s0(1) p by (auto simp: run_ready_task_def q Let_def split: option.split)
  have "hart_ok hart ?s'"
    using s0(3) c by (simp add: hart_ok_def exec_push_def split: option.split)
  moreover have "ex_queue ?s' = q @ new @ (case r of None \<Rightarrow> [] | Some f' \<Rightarrow> [(t, f')])"
    using n by (simp add: exec_push_def split: option.split)
  ultimately show thesis using that [OF run _ s0(2,4)] n p by simp
qed

lemma run_ready_task_Nil:
  "ex_queue s = [] \<Longrightarrow> run_ready_task before poll hart s = Some s"
  by (simp add: run_ready_task_def)

lemma run_rounds_add:
  "run_rounds before poll hart (m + n) s =
     run_rounds before poll hart m s \<bind> run_rounds before poll hart n"
  by (induction m arbitrary: s) (auto simp: bind_assoc split: Option.bind_split)

lemma run_rounds_shift:
  assumes "hart_ok hart s" "only_spawns poll" "k \<le> length (ex_queue s)"
  shows "\<exists>s' more. run_rounds before poll hart k s = Some s' \<and> hart_ok hart s' \<and>
    ex_queue s' = drop k (ex_queue s) @ more"
  using assms
proof (induction k arbitrary: s)
  case (Suc k)
  then obtain t f q where q: "ex_queue s = (t, f) # q" by (cases "ex_queue s") auto
  obtain s1 new where 1: "run_ready_task before poll hart s = Some s1" "hart_ok hart s1"
      "ex_queue s1 = q @ new"
    by (rule run_ready_task_Cons [OF Suc.prems(1) q Suc.prems(2)]) auto
  have "k \<le> length (ex_queue s1)" using Suc.prems(3) by (simp add: q 1(3))
  then obtain s' more where "run_rounds before poll hart k s1 = Some s'" "hart_ok hart s'"
      "ex_queue s' = drop k (ex_queue s1) @ more"
    using Suc.IH [OF 1(2) Suc.prems(2)] by blast
  moreover have "drop k (ex_queue s1) = drop k q @ new"
    using Suc.prems(3) by (simp add: q 1(3))
  ultimately show ?case by (auto simp: 1(1) q)
qed auto

text \<open>C16: the scheduler is fair.  Whatever the polled futures do and however many tasks they
  spawn, the task at position \<open>k\<close> of the queue is the one that is polled in round \<open>k\<close>: nothing
  overtakes it and it is not polled twice while another waits.\<close>

theorem round_robin:
  assumes "hart_ok hart s" "only_spawns poll" "k < length (ex_queue s)"
  shows "\<exists>s'. run_rounds before poll hart k s = Some s' \<and> ex_queue s' \<noteq> [] \<and>
    hd (ex_queue s') = ex_queue s ! k"
proof -
  obtain s' more where "run_rounds before poll hart k s = Some s'"
      "ex_queue s' = drop k (ex_queue s) @ more"
    using run_rounds_shift [OF assms(1,2) less_imp_le [OF assms(3)]] by blast
  then show ?thesis using assms(3) by (auto simp: hd_append hd_drop_conv_nth)
qed

text \<open>The futures of the demonstration count down the polls they still need.\<close>

definition countdown :: "task_id \<Rightarrow> nat \<Rightarrow> (nat, nat list) exec \<Rightarrow> (nat, nat list) exec \<times> nat option"
where
  "countdown t n s =
     (s\<lparr>ex_world := t # ex_world s\<rparr>, if n = 0 then None else Some (n - 1))"

definition demo_exec :: "(nat, nat list) exec" where
  "demo_exec =
     \<lparr> ex_cores = Some [None], ex_inited = True, ex_task_map = Some {1, 2}, ex_queue = [(1, 2), (2, 0)],
       ex_boot_page = Some 0, ex_task_id = 2, ex_world = [] \<rparr>"

lemma countdown_never_spawns: "never_spawns countdown"
  by (simp add: never_spawns_def countdown_def)

lemma demo_exec_ok: "hart_ok 0 demo_exec"
  by (simp add: hart_ok_def demo_exec_def)

theorem round_robin_witness:
  "\<exists>s'. run_rounds (\<lambda>_ w. w) countdown 0 1 demo_exec = Some s' \<and> ex_queue s' \<noteq> [] \<and>
     hd (ex_queue s') = (2, 0)"
  using round_robin [OF demo_exec_ok never_only_spawns [OF countdown_never_spawns],
      of 1 "\<lambda>_ w. w"]
  by (simp add: demo_exec_def)

lemma run_rounds_Nil:
  "ex_queue s = [] \<Longrightarrow> run_rounds before poll hart n s = Some s"
  by (induction n) (simp_all add: run_ready_task_Nil)

lemma run_rounds_drain:
  assumes "hart_ok hart s" "never_spawns poll"
    and rank: "\<And>t f s f'. snd (poll t f s) = Some f' \<Longrightarrow> rank f' < rank f"
    and "(\<Sum>(t, f)\<leftarrow>ex_queue s. rank f + 1) \<le> n"
  shows "\<exists>s'. run_rounds before poll hart n s = Some s' \<and> ex_queue s' = []"
  using assms(1,4)
proof (induction n arbitrary: s)
  case 0
  then show ?case by (cases "ex_queue s") (auto split: prod.splits)
next
  case (Suc n)
  show ?case
  proof (cases "ex_queue s")
    case Nil
    then show ?thesis by (metis run_rounds_Nil)
  next
    case (Cons p q)
    obtain t f where p: "p = (t, f)" by fastforce
    obtain s0 s' new where r: "run_ready_task before poll hart s = Some s'" "hart_ok hart s'"
        "ex_queue s0 = q" "ex_queue (fst (poll t f s0)) = q @ new"
        "ex_queue s' = q @ new @ (case snd (poll t f s0) of None \<Rightarrow> [] | Some f' \<Rightarrow> [(t, f')])"
      by (rule run_ready_task_Cons [OF Suc.prems(1) Cons [unfolded p]
            never_only_spawns [OF assms(2)]])
    have "new = []" using assms(2) r(3,4) unfolding never_spawns_def by (metis append_self_conv)
    then have "(\<Sum>(t, f)\<leftarrow>ex_queue s'. rank f + 1) \<le> n"
      using Suc.prems(2) rank [of t f s0]
      by (auto simp: r(5) Cons p split: option.split)
    then show ?thesis using Suc.IH [OF r(2)] r(1) by simp
  qed
qed



end
