(* ===== verification/Signals.thy ===== *)
theory Signals
  imports Prelude
begin

unbundle bit_operations_syntax

text \<open>
  Signals: the \<open>SignalFlags\<close>, \<open>SigProcMask\<close> and \<open>SigAction\<close> types of \<open>crates/signal\<close>, the
  pending set of \<open>kernel/src/tasks/signal.rs\<close>, and the paths that post and deliver signals
  (\<open>sys_tkill\<close>, \<open>sys_tgkill\<close>, \<open>sys_kill\<close>, \<open>check_signal\<close>, \<open>sys_sigprocmask\<close>, \<open>sys_sigaction\<close>).

  A pending set is a 64-bit word, bit \<open>n - 1\<close> for signal \<open>n\<close>; every bit is a declared flag, so
  \<open>from_bits_truncate\<close> is the identity.  The main lemma computes the whole sequence of
  deliveries of \<open>check_signal\<close> from the pending set, the mask and the real-time queue.
\<close>

section \<open>Signal numbers and flags\<close>

abbreviation REAL_TIME_SIGNAL_NUM :: nat where "REAL_TIME_SIGNAL_NUM \<equiv> 33"

text \<open>The macro \<open>bit!(x)\<close>.\<close>

definition flag_bit :: "nat \<Rightarrow> u64" where
  "flag_bit x = push_bit x 1"

abbreviation SIGALRM :: u64 where "SIGALRM \<equiv> flag_bit 13"
abbreviation SIGKILL :: u64 where "SIGKILL \<equiv> flag_bit 8"

text \<open>A shift by a wrapped or oversized amount uses the amount modulo 64.\<close>

definition from_num :: "usize \<Rightarrow> u64" where
  "from_num num = flag_bit (wsub num 1 mod 64)"

definition sig_num :: "u64 \<Rightarrow> usize" where
  "sig_num bits = (case find (bit bits) [0 ..< 64] of Some i \<Rightarrow> i + 1 | None \<Rightarrow> 0)"

definition is_real_time :: "u64 \<Rightarrow> bool" where
  "is_real_time f \<longleftrightarrow> f AND 0xFFFFFFFE00000000 \<noteq> 0"

definition real_time_index :: "u64 \<Rightarrow> usize option" where
  "real_time_index f = (if is_real_time f then Some (wsub (sig_num f) 32) else None)"

section \<open>Masks and actions\<close>

datatype sig_mask_how = Block | Unblock | Setmask

definition how_from_usize :: "usize \<Rightarrow> sig_mask_how option" where
  "how_from_usize how =
     (if how = 0 then Some Block else if how = 1 then Some Unblock
      else if how = 2 then Some Setmask else None)"

fun mask_handle :: "u64 \<Rightarrow> sig_mask_how \<Rightarrow> u64 \<Rightarrow> u64" where
  "mask_handle m Block new = m OR new"
| "mask_handle m Unblock new = m AND NOT new"
| "mask_handle m Setmask new = new"

record sig_action =
  sa_handler :: usize
  sa_flags :: usize
  sa_restorer :: usize
  sa_mask :: u64

definition sig_action_new :: sig_action where
  "sig_action_new = \<lparr>sa_handler = 0, sa_flags = 0, sa_restorer = 0, sa_mask = 0\<rparr>"

section \<open>Pending signals (\<open>SignalList\<close>)\<close>

definition add_signal :: "u64 \<Rightarrow> u64 \<Rightarrow> u64" where
  "add_signal signal f = signal OR f"

definition has_signal :: "u64 \<Rightarrow> bool" where
  "has_signal signal \<longleftrightarrow> signal \<noteq> 0"

definition try_get_signal :: "u64 \<Rightarrow> u64 option" where
  "try_get_signal signal =
     map_option (\<lambda>i. flag_bit i) (find (\<lambda>i. signal AND flag_bit i \<noteq> 0) [0 ..< 64])"

definition remove_signal :: "u64 \<Rightarrow> u64 \<Rightarrow> u64" where
  "remove_signal signal f = signal AND NOT f"

definition has_sig :: "u64 \<Rightarrow> u64 \<Rightarrow> bool" where
  "has_sig signal f \<longleftrightarrow> signal AND f \<noteq> 0"

definition mask_signals :: "u64 \<Rightarrow> u64 \<Rightarrow> u64" where
  "mask_signals signal m = NOT m AND signal"

section \<open>The signal part of a thread\<close>

record sig_state =
  ss_sigmask :: u64
  ss_signal :: u64
  ss_queue :: "usize list"

text \<open>Posting, as in \<open>sys_tkill\<close> and \<open>sys_tgkill\<close>: a signal already pending is counted in the
  real-time queue, or lost when it is not a real-time signal.\<close>

definition post_signal :: "'a sig_state_scheme \<Rightarrow> usize \<Rightarrow> 'a sig_state_scheme run" where
  "post_signal st signum =
     (let target = from_num signum
      in if \<not> has_sig (ss_signal st) target
         then Some (st\<lparr>ss_signal := add_signal (ss_signal st) target\<rparr>)
         else case real_time_index target of
                None \<Rightarrow> Some st
              | Some index \<Rightarrow>
                  if index < length (ss_queue st)
                  then Some (st\<lparr>ss_queue := (ss_queue st)[index := wadd (ss_queue st ! index) 1]\<rparr>)
                  else None)"

text \<open>\<open>sys_kill\<close> only adds to the pending set.\<close>

definition kill_signal :: "'a sig_state_scheme \<Rightarrow> usize \<Rightarrow> 'a sig_state_scheme" where
  "kill_signal st signum = st\<lparr>ss_signal := add_signal (ss_signal st) (from_num signum)\<rparr>"

text \<open>One round of the loop of \<open>check_signal\<close>; \<open>handle\<close> is \<open>handle_signal\<close>.  The second component
  is the signal delivered, \<open>None\<close> when the loop ends.\<close>

definition check_signal_round ::
  "('a sig_state_scheme \<Rightarrow> u64 \<Rightarrow> 'a sig_state_scheme) \<Rightarrow> 'a sig_state_scheme
   \<Rightarrow> ('a sig_state_scheme \<times> u64 option) run" where
  "check_signal_round handle st =
     (case try_get_signal (mask_signals (ss_signal st) (ss_sigmask st)) of
        None \<Rightarrow> Some (st, None)
      | Some signal \<Rightarrow>
          (let st = handle st signal;
               st = st\<lparr>ss_signal := remove_signal (ss_signal st) signal\<rparr>
           in case real_time_index signal of
                None \<Rightarrow> Some (st, Some signal)
              | Some index \<Rightarrow>
                  if index < length (ss_queue st)
                  then if ss_queue st ! index > 0
                       then Some (st\<lparr>ss_signal := add_signal (ss_signal st) signal,
                                     ss_queue := (ss_queue st)[index := ss_queue st ! index - 1]\<rparr>,
                                  Some signal)
                       else Some (st, Some signal)
                  else None))"

text \<open>The loop, with a bound on its rounds; \<open>None\<close> is a panic or an exhausted bound.  The list
  collects the numbers of the signals delivered.\<close>

fun check_signal ::
  "nat \<Rightarrow> ('a sig_state_scheme \<Rightarrow> u64 \<Rightarrow> 'a sig_state_scheme) \<Rightarrow> 'a sig_state_scheme
   \<Rightarrow> ('a sig_state_scheme \<times> usize list) option" where
  "check_signal 0 handle st = None"
| "check_signal (Suc fuel) handle st =
     (case check_signal_round handle st of
        None \<Rightarrow> None
      | Some (st', None) \<Rightarrow> Some (st', [])
      | Some (st', Some signal) \<Rightarrow>
          map_option (\<lambda>(st'', sigs). (st'', sig_num signal # sigs)) (check_signal fuel handle st'))"

text \<open>System calls on user memory: a \<open>UserRef\<close> is valid when its address is not 0, and \<open>mem\<close> gives
  the value at an address.\<close>

definition sys_sigprocmask ::
  "'a sig_state_scheme \<Rightarrow> (usize \<Rightarrow> u64) \<Rightarrow> usize \<Rightarrow> usize \<Rightarrow> usize
   \<Rightarrow> ('a sig_state_scheme \<times> (usize \<Rightarrow> u64) \<times> usize) res" where
  "sys_sigprocmask st mem how new oldset =
     (case how_from_usize how of
        None \<Rightarrow> Err EINVAL
      | Some h \<Rightarrow>
          (let mem = (if oldset \<noteq> 0 then mem(oldset := ss_sigmask st) else mem);
               st = (if new \<noteq> 0 then st\<lparr>ss_sigmask := mask_handle (ss_sigmask st) h (mem new)\<rparr> else st)
           in Ok (st, mem, 0)))"

definition sys_sigaction ::
  "sig_action list \<Rightarrow> (usize \<Rightarrow> sig_action) \<Rightarrow> usize \<Rightarrow> usize \<Rightarrow> usize
   \<Rightarrow> (sig_action list \<times> (usize \<Rightarrow> sig_action) \<times> usize) res" where
  "sys_sigaction actions mem sig act oldact =
     (if (oldact \<noteq> 0 \<or> act \<noteq> 0) \<and> length actions \<le> sig then Panic
      else let mem = (if oldact \<noteq> 0 then mem(oldact := actions ! sig) else mem);
               actions = (if act \<noteq> 0 then actions[sig := mem act] else actions)
           in Ok (actions, mem, 0))"

text \<open>Futures that wait for signals.\<close>

definition wait_signal_ready :: "'a sig_state_scheme \<Rightarrow> bool" where
  "wait_signal_ready st = has_signal (ss_signal st)"

definition wait_handleable_ready :: "'a sig_state_scheme \<Rightarrow> bool" where
  "wait_handleable_ready st = has_signal (mask_signals (ss_signal st) (ss_sigmask st))"

section \<open>Single-bit flags\<close>

lemma bit_flag_bit [simp]: "bit (flag_bit n) m \<longleftrightarrow> m = n \<and> n < 64"
  by (auto simp: flag_bit_def bit_simps)

lemma and_flag_bit_iff: "n < 64 \<Longrightarrow> w AND flag_bit n \<noteq> 0 \<longleftrightarrow> bit w n"
  using bit_eqI [of "w AND flag_bit n" 0] by (auto simp: bit_and_iff dest: arg_cong [where f = "\<lambda>x. bit x n"])

lemma from_num_bit: "1 \<le> n \<Longrightarrow> n \<le> 64 \<Longrightarrow> from_num n = flag_bit (n - 1)"
  by (simp add: from_num_def wsub_exact)

lemma sig_num_push: "i < 64 \<Longrightarrow> sig_num (flag_bit i) = i + 1"
proof -
  assume i: "i < 64"
  then have "find (bit (flag_bit i)) [0 ..< 64] = Some i"
    by (simp add: find_upt_Some bit_flag_bit del: upt_rec_numeral)
  then show ?thesis by (simp add: sig_num_def)
qed

lemma is_real_time_push: "i < 64 \<Longrightarrow> is_real_time (flag_bit i) \<longleftrightarrow> 33 \<le> i"
proof -
  assume i: "i < 64"
  have "(0xFFFFFFFE00000000 :: u64) = NOT (mask 33)" by (simp add: mask_eq_exp_minus_1)
  then have "is_real_time (flag_bit i) \<longleftrightarrow> bit (NOT (mask 33) :: u64) i"
    using and_flag_bit_iff [OF i, of "NOT (mask 33)"] by (simp add: is_real_time_def and.commute)
  with i show ?thesis by (auto simp: bit_simps)
qed

lemma real_time_index_push:
  "i < 64 \<Longrightarrow> real_time_index (flag_bit i) = (if 33 \<le> i then Some (i - 31) else None)"
  by (simp add: real_time_index_def is_real_time_push sig_num_push wsub_exact)

lemma try_get_signal_find:
  "try_get_signal w = map_option (\<lambda>i. flag_bit i) (find (bit w) [0 ..< 64])"
proof -
  have "find (\<lambda>i. w AND flag_bit i \<noteq> 0) [0 ..< 64] = find (bit w) [0 ..< 64]"
    by (rule find_cong) (simp_all add: and_flag_bit_iff del: upt_rec_numeral)
  then show ?thesis by (simp add: try_get_signal_def del: upt_rec_numeral)
qed

section \<open>The sequence of deliveries\<close>

text \<open>What a run of \<open>check_signal\<close> should deliver: every pending, unmasked signal in ascending
  order, a real-time signal once more for each entry of its queue.\<close>

definition deliverable :: "'a sig_state_scheme \<Rightarrow> nat list" where
  "deliverable st = filter (bit (mask_signals (ss_signal st) (ss_sigmask st))) [0 ..< 64]"

definition repeats :: "usize list \<Rightarrow> nat \<Rightarrow> nat" where
  "repeats queue i = Suc (if 33 \<le> i then queue ! (i - 31) else 0)"

definition deliveries :: "'a sig_state_scheme \<Rightarrow> usize list" where
  "deliveries st = concat (map (\<lambda>i. replicate (repeats (ss_queue st) i) (i + 1)) (deliverable st))"

definition neutral :: "('a sig_state_scheme \<Rightarrow> u64 \<Rightarrow> 'a sig_state_scheme) \<Rightarrow> bool" where
  "neutral handle \<longleftrightarrow> (\<forall>st f. ss_signal (handle st f) = ss_signal st \<and>
     ss_sigmask (handle st f) = ss_sigmask st \<and> ss_queue (handle st f) = ss_queue st)"

lemma bit_mask_signals: "bit (mask_signals s m) i \<longleftrightarrow> \<not> bit m i \<and> bit s i"
  by (auto simp: mask_signals_def bit_and_iff bit_not_iff dest: bit_imp_le_length)

lemma filter_upt_find:
  assumes "find P [0 ..< n] = Some i"
  shows "filter P [0 ..< n] = i # filter P [Suc i ..< n]"
proof -
  have i: "i < n" "P i" "\<forall>j<i. \<not> P j" using assms by (auto simp: find_upt_Some)
  have "[0 ..< n] = [0 ..< i] @ i # [Suc i ..< n]"
    using i(1) upt_add_eq_append [of 0 i "n - i"] by (simp add: upt_conv_Cons)
  then show ?thesis using i by (simp add: filter_empty_conv)
qed

lemma filter_upt_clear:
  assumes "\<forall>j \<le> i. \<not> P j" "\<forall>j. i < j \<longrightarrow> P j = Q j"
  shows "filter P [0 ..< n] = filter Q [Suc i ..< n]"
proof (cases "Suc i \<le> n")
  case True
  then have "[0 ..< n] = [0 ..< Suc i] @ [Suc i ..< n]"
    using upt_add_eq_append [of 0 "Suc i" "n - Suc i"] by simp
  moreover have "filter P [0 ..< Suc i] = []" using assms(1) by (auto simp: filter_empty_conv simp del: upt_Suc)
  moreover have "filter P [Suc i ..< n] = filter Q [Suc i ..< n]"
    using assms(2) by (intro filter_cong) auto
  ultimately show ?thesis by (simp del: upt_Suc)
next
  case False
  then show ?thesis using assms(1) by (simp add: filter_empty_conv)
qed

lemma check_signal_round_done:
  "deliverable st = [] \<Longrightarrow> check_signal_round handle st = Some (st, None)"
proof -
  let ?P = "bit (mask_signals (ss_signal st) (ss_sigmask st))"
  assume "deliverable st = []"
  then have "find ?P [0 ..< 64] = None"
    by (simp add: deliverable_def filter_empty_conv find_None_iff del: upt_rec_numeral)
  then show ?thesis by (simp add: check_signal_round_def try_get_signal_find del: upt_rec_numeral)
qed

lemma check_signal_round_step:
  assumes "neutral handle" "length (ss_queue st) = REAL_TIME_SIGNAL_NUM" "deliverable st = i # js"
  shows "\<exists>st'. check_signal_round handle st = Some (st', Some (flag_bit i)) \<and> i < 64 \<and>
    length (ss_queue st') = REAL_TIME_SIGNAL_NUM \<and> deliveries st = (i + 1) # deliveries st'"
proof -
  let ?P = "bit (mask_signals (ss_signal st) (ss_sigmask st))"
  obtain i' where i': "find ?P [0 ..< 64] = Some i'"
  proof (cases "find ?P [0 ..< 64]")
    case None
    then have "deliverable st = []" by (auto simp: deliverable_def find_None_iff filter_empty_conv simp del: upt_rec_numeral)
    with assms(3) show ?thesis by simp
  qed
  have "i' # filter ?P [Suc i' ..< 64] = i # js"
    using filter_upt_find [OF i'] assms(3) by (simp only: deliverable_def)
  then have [simp]: "i' = i" and js: "js = filter ?P [Suc i ..< 64]"
    by auto
  have i: "i < 64" "?P i" "\<forall>j<i. \<not> ?P j" using i' by (auto simp: find_upt_Some simp del: upt_rec_numeral)
  define st1 where "st1 = handle st (flag_bit i)"
  have st1: "ss_signal st1 = ss_signal st" "ss_sigmask st1 = ss_sigmask st" "ss_queue st1 = ss_queue st"
    using assms(1) by (simp_all add: st1_def neutral_def)
  have get: "try_get_signal (mask_signals (ss_signal st) (ss_sigmask st)) = Some (flag_bit i)"
    using i' by (simp add: try_get_signal_find del: upt_rec_numeral)
  show ?thesis
  proof (cases "33 \<le> i \<and> ss_queue st ! (i - 31) > 0")
    case True
    define st' where "st' = st1\<lparr>ss_signal := add_signal (remove_signal (ss_signal st) (flag_bit i)) (flag_bit i),
        ss_queue := (ss_queue st)[i - 31 := ss_queue st ! (i - 31) - 1]\<rparr>"
    have idx: "i - 31 < length (ss_queue st)" using i(1) True assms(2) by simp
    have "check_signal_round handle st = Some (st', Some (flag_bit i))"
      using True idx i(1) st1
      by (simp add: check_signal_round_def get real_time_index_push Let_def st'_def flip: st1_def)
    moreover have sig: "ss_signal st' = ss_signal st"
      using i(2) by (auto intro!: bit_eqI simp: st'_def add_signal_def remove_signal_def bit_or_iff bit_and_iff bit_not_iff bit_mask_signals)
    then have del: "deliverable st' = i # js"
      using assms(3) st1 by (simp add: deliverable_def st'_def)
    have "repeats (ss_queue st) i = Suc (repeats (ss_queue st') i)"
      using True idx by (simp add: repeats_def st'_def)
    moreover have "repeats (ss_queue st') j = repeats (ss_queue st) j" if "j \<in> set js" for j
      using that True by (auto simp: js repeats_def st'_def)
    ultimately have "deliveries st = (i + 1) # deliveries st'"
      using assms(3) del by (simp add: deliveries_def cong: map_cong)
    then show ?thesis
      using \<open>check_signal_round handle st = _\<close> i(1) assms(2) by (auto simp: st'_def)
  next
    case False
    define st' where "st' = st1\<lparr>ss_signal := remove_signal (ss_signal st) (flag_bit i)\<rparr>"
    have idx: "33 \<le> i \<Longrightarrow> i - 31 < length (ss_queue st)" using i(1) assms(2) by simp
    have rd: "check_signal_round handle st = Some (st', Some (flag_bit i))"
      using False idx i(1) st1
      by (auto simp: check_signal_round_def get real_time_index_push Let_def st'_def simp flip: st1_def)
    have P': "bit (mask_signals (ss_signal st') (ss_sigmask st')) j \<longleftrightarrow> j \<noteq> i \<and> ?P j" for j
      using st1 by (auto simp: st'_def bit_mask_signals remove_signal_def bit_and_iff bit_not_iff dest: bit_imp_le_length)
    have "deliverable st' = js"
      unfolding deliverable_def js using i(3) P' by (intro filter_upt_clear) (auto simp: le_less)
    moreover have "repeats (ss_queue st) i = 1" using False by (auto simp: repeats_def)
    ultimately have "deliveries st = (i + 1) # deliveries st'"
      using assms(3) st1 by (simp add: deliveries_def st'_def)
    with rd i(1) assms(2) st1 show ?thesis by (auto simp: st'_def)
  qed
qed

lemma deliveries_Nil_iff: "deliveries st = [] \<longleftrightarrow> deliverable st = []"
  by (auto simp: deliveries_def repeats_def)

lemma check_signal_run:
  assumes "neutral handle"
  shows "length (ss_queue st) = REAL_TIME_SIGNAL_NUM \<Longrightarrow> length (deliveries st) < fuel \<Longrightarrow>
    \<exists>st'. check_signal fuel handle st = Some (st', deliveries st) \<and> deliverable st' = []"
proof (induction fuel arbitrary: st)
  case (Suc fuel)
  show ?case
  proof (cases "deliverable st")
    case Nil
    then show ?thesis using check_signal_round_done [OF Nil] deliveries_Nil_iff [of st] by simp
  next
    case (Cons i js)
    then obtain st' where st': "check_signal_round handle st = Some (st', Some (flag_bit i))" "i < 64"
        "length (ss_queue st') = REAL_TIME_SIGNAL_NUM" "deliveries st = (i + 1) # deliveries st'"
      using check_signal_round_step [OF assms Suc.prems(1)] by blast
    then obtain st'' where "check_signal fuel handle st' = Some (st'', deliveries st')" "deliverable st'' = []"
      using Suc.IH [of st'] Suc.prems(2) by auto
    with st' show ?thesis by (simp add: sig_num_push)
  qed
qed simp

section \<open>Posting\<close>

definition quiet :: "sig_state" where
  "quiet = \<lparr>ss_sigmask = 0, ss_signal = 0, ss_queue = replicate REAL_TIME_SIGNAL_NUM 0\<rparr>"

primrec post_times :: "nat \<Rightarrow> usize \<Rightarrow> 'a sig_state_scheme \<Rightarrow> 'a sig_state_scheme run" where
  "post_times 0 n st = Some st"
| "post_times (Suc k) n st = Option.bind (post_times k n st) (\<lambda>st'. post_signal st' n)"

definition posted :: "nat \<Rightarrow> usize \<Rightarrow> sig_state" where
  "posted k n = quiet\<lparr>ss_signal := flag_bit (n - 1),
     ss_queue := (if 34 \<le> n then (ss_queue quiet)[n - 32 := k] else ss_queue quiet)\<rparr>"

lemma flag_bit_neq_0: "i < 64 \<Longrightarrow> flag_bit i \<noteq> 0"
  using bit_flag_bit [of i i] by (metis bit_0_eq bot_apply bot_bool_def)

lemma post_times_quiet:
  assumes "1 \<le> n" "n \<le> 64"
  shows "Suc k < 2 ^ 64 \<Longrightarrow> post_times (Suc k) n quiet = Some (posted k n)"
proof (induction k)
  case 0
  then show ?case
    using assms list_update_id [of "replicate 33 (0::nat)" "n - 32"]
    by (auto simp: post_signal_def Let_def from_num_bit quiet_def has_sig_def add_signal_def posted_def)
next
  case (Suc k)
  have idx: "real_time_index (flag_bit (n - 1)) = (if 34 \<le> n then Some (n - 32) else None)"
    using assms real_time_index_push [of "n - 1"] by auto
  have has: "has_sig (ss_signal (posted k n)) (flag_bit (n - 1))"
    using assms flag_bit_neq_0 [of "n - 1"] by (simp add: has_sig_def posted_def)
  have "post_signal (posted k n) n = Some (posted (Suc k) n)"
    using assms Suc.prems has idx
    by (auto simp: post_signal_def Let_def from_num_bit posted_def quiet_def wadd_exact)
  with Suc show ?case by simp
qed

lemma deliveries_posted:
  assumes "1 \<le> n" "n \<le> 64"
  shows "deliveries (posted k n) = replicate (if 34 \<le> n then Suc k else 1) n"
proof -
  have P: "bit (mask_signals (ss_signal (posted k n)) (ss_sigmask (posted k n))) i \<longleftrightarrow> i = n - 1" for i
    using assms by (auto simp: bit_mask_signals posted_def quiet_def)
  then have "find (bit (mask_signals (ss_signal (posted k n)) (ss_sigmask (posted k n)))) [0 ..< 64] = Some (n - 1)"
    using assms by (auto simp: find_upt_Some simp del: upt_rec_numeral)
  moreover have "filter (bit (mask_signals (ss_signal (posted k n)) (ss_sigmask (posted k n)))) [Suc (n - 1) ..< 64] = []"
    using P by (simp add: filter_empty_conv)
  ultimately have "deliverable (posted k n) = [n - 1]"
    unfolding deliverable_def by (simp only: filter_upt_find)
  then show ?thesis
    using assms by (auto simp: deliveries_def repeats_def posted_def quiet_def)
qed

section \<open>Properties\<close>



text \<open>A real-time signal (34 to 64) posted \<open>k\<close> times to a thread with nothing pending is
  delivered \<open>k\<close> times, any other signal once; posting never runs outside the queue.\<close>

theorem posted_signals_delivered:
  assumes "1 \<le> n" "n \<le> 64" "Suc k < 2 ^ 64" "Suc k < fuel" "neutral handle"
  shows "\<exists>st st'. post_times (Suc k) n quiet = Some st \<and>
    check_signal fuel handle st = Some (st', replicate (if 34 \<le> n then Suc k else 1) n)"
proof -
  have "length (ss_queue (posted k n)) = REAL_TIME_SIGNAL_NUM" by (simp add: posted_def quiet_def)
  then show ?thesis
    using check_signal_run [OF assms(5), of "posted k n" fuel] deliveries_posted [OF assms(1,2), of k]
      post_times_quiet [OF assms(1-3)] assms(4) by (auto split: if_splits)
qed

theorem posted_signals_delivered_witness:
  "\<exists>st st'. post_times 3 17 quiet = Some st \<and> check_signal 5 (\<lambda>st f. st) st = Some (st', [17])"
  using posted_signals_delivered [of 17 2 5 "\<lambda>st f. st"] by (simp add: neutral_def numeral_3_eq_3)

text \<open>\<open>sys_kill\<close> posts signal \<open>n\<close> for the numbers 1 to 64; signal number 0, by convention an
  existence test that sends nothing, makes it post signal 64, because the shift amount wraps.\<close>

theorem kill_signal_number:
  assumes "n \<le> 64"
  shows "ss_signal (kill_signal st n) = ss_signal st OR flag_bit (if n = 0 then 63 else n - 1)"
  using assms by (cases "n = 0") (simp_all add: kill_signal_def add_signal_def from_num_def wsub_exact, simp add: wsub_def)

theorem kill_signal_number_witness:
  "sig_num (ss_signal (kill_signal quiet 0)) = 64"
  using kill_signal_number [of 0 quiet] sig_num_push [of 63] by (simp add: quiet_def)

text \<open>\<open>sigprocmask\<close> can block SIGKILL: after setting a full mask, a killed thread has no
  deliverable signal and the delivery loop delivers nothing.\<close>

theorem sigkill_can_be_blocked:
  "\<exists>st mem. sys_sigprocmask quiet (\<lambda>_. - 1) 2 0x1000 0 = Ok (st, mem, 0) \<and>
     wait_signal_ready (kill_signal st 9) \<and> \<not> wait_handleable_ready (kill_signal st 9) \<and>
     check_signal 1 (\<lambda>st f. st) (kill_signal st 9) = Some (kill_signal st 9, [])"
proof -
  let ?st = "quiet\<lparr>ss_sigmask := - 1\<rparr>"
  have m: "mask_signals s (- 1) = 0" for s by (simp add: mask_signals_def)
  have "check_signal_round (\<lambda>st f. st) (kill_signal ?st 9) = Some (kill_signal ?st 9, None)"
    by (rule check_signal_round_done) (simp add: deliverable_def kill_signal_def m filter_empty_conv)
  moreover have "wait_signal_ready (kill_signal ?st 9)"
    using flag_bit_neq_0 [of 8]
    by (simp add: wait_signal_ready_def has_signal_def kill_signal_def quiet_def add_signal_def from_num_bit)
  moreover have "\<not> wait_handleable_ready (kill_signal ?st 9)"
    by (simp add: wait_handleable_ready_def has_signal_def kill_signal_def m)
  ultimately show ?thesis
    by (intro exI [of _ ?st] exI [of _ "\<lambda>_. - 1"])
      (simp add: sys_sigprocmask_def how_from_usize_def quiet_def)
qed

text \<open>An action installed with \<open>sigaction\<close> is the one a later query reports, and the
  actions of the other signals stay; a number outside the table of actions, which only the
  user chooses, panics the kernel.\<close>

theorem sys_sigaction_roundtrip:
  assumes "act \<noteq> 0" "old \<noteq> 0"
  shows "if sig < length actions
     then \<exists>actions' mem'. sys_sigaction actions mem sig act 0 = Ok (actions', mem, 0) \<and>
       sys_sigaction actions' mem sig 0 old = Ok (actions', mem', 0) \<and> mem' old = mem act \<and>
       (\<forall>i. i \<noteq> sig \<longrightarrow> actions' ! i = actions ! i)
     else sys_sigaction actions mem sig act 0 = Panic"
  using assms by (auto simp: sys_sigaction_def Let_def)

theorem sys_sigaction_roundtrip_witness:
  "(\<exists>actions' mem'. sys_sigaction (replicate 65 sig_action_new) (\<lambda>a. sig_action_new\<lparr>sa_handler := a\<rparr>) 10 0x4000 0 =
       Ok (actions', \<lambda>a. sig_action_new\<lparr>sa_handler := a\<rparr>, 0) \<and>
     sys_sigaction actions' (\<lambda>a. sig_action_new\<lparr>sa_handler := a\<rparr>) 10 0 0x5000 = Ok (actions', mem', 0) \<and>
     sa_handler (mem' 0x5000) = 0x4000) \<and>
   sys_sigaction (replicate 65 sig_action_new) (\<lambda>a. sig_action_new) 65 0x4000 0 = Panic"
proof -
  let ?mem = "\<lambda>a. sig_action_new\<lparr>sa_handler := a\<rparr>"
  obtain actions' mem' where "sys_sigaction (replicate 65 sig_action_new) ?mem 10 0x4000 0 = Ok (actions', ?mem, 0)"
      "sys_sigaction actions' ?mem 10 0 0x5000 = Ok (actions', mem', 0)" "mem' 0x5000 = ?mem 0x4000"
    using sys_sigaction_roundtrip [of "0x4000" "0x5000" 10 "replicate 65 sig_action_new" ?mem] by auto
  moreover have "sys_sigaction (replicate 65 sig_action_new) (\<lambda>a. sig_action_new) 65 0x4000 0 = Panic"
    using sys_sigaction_roundtrip [of "0x4000" 1 65 "replicate 65 sig_action_new" "\<lambda>a. sig_action_new"] by simp
  ultimately show ?thesis by auto
qed

end
