(* ===== verification/Timers.thy ===== *)
theory Timers
  imports Executor Signals Inode
begin

text \<open>
  Time: \<open>TimeVal\<close>, \<open>TimeSpec\<close> and the interval timers of \<open>syscall/types/time.rs\<close>, the clock of
  \<open>utils/time.rs\<close>, the system calls of \<open>syscall/time.rs\<close> and their futures, and \<open>check_timer\<close> of
  \<open>user/entry.rs\<close>.

  The clock is an argument: \<open>ns\<close> is what \<open>Time::now().to_nsec()\<close> returns.  A system call that sleeps
  is a start and a poll.  User memory the process has mapped is a function from addresses to the
  values stored there; a null pointer is not valid.
\<close>

abbreviation NSEC_PER_SEC :: usize where "NSEC_PER_SEC \<equiv> 1000000000"
abbreviation USEC_PER_SEC :: usize where "USEC_PER_SEC \<equiv> 1000000"

section \<open>Time values\<close>

record time_val =
  tv_sec :: usize
  tv_usec :: usize

definition tv_zero :: time_val where
  "tv_zero = \<lparr> tv_sec = 0, tv_usec = 0 \<rparr>"

definition ts_zero :: time_spec where
  "ts_zero = \<lparr> ts_sec = 0, ts_nsec = 0 \<rparr>"

definition tv_add :: "time_val \<Rightarrow> time_val \<Rightarrow> time_val" where
  "tv_add a b =
     (let nsec = wadd (tv_usec a) (tv_usec b) in
      \<lparr> tv_sec = wadd (wadd (tv_sec a) (tv_sec b)) (nsec div 1000000000),
        tv_usec = nsec mod 1000000000 \<rparr>)"

datatype ordering = Less | Equal | Greater

definition tv_cmp :: "time_val \<Rightarrow> time_val \<Rightarrow> ordering" where
  "tv_cmp a b =
     (if tv_sec a > tv_sec b then Greater
      else if tv_sec a < tv_sec b then Less
      else if tv_usec a > tv_usec b then Greater
      else if tv_usec a < tv_usec b then Less
      else Equal)"

definition tv_gt :: "time_val \<Rightarrow> time_val \<Rightarrow> bool" where
  "tv_gt a b \<longleftrightarrow> tv_cmp a b = Greater"

definition tv_ge :: "time_val \<Rightarrow> time_val \<Rightarrow> bool" where
  "tv_ge a b \<longleftrightarrow> tv_cmp a b \<noteq> Less"

record itimer_val =
  it_interval :: time_val
  it_value :: time_val

record process_timer =
  pt_timer :: itimer_val
  pt_next :: time_val
  pt_last :: time_val

record tms =
  tms_utime :: u64
  tms_stime :: u64
  tms_cutime :: u64
  tms_cstime :: u64

section \<open>Clocks\<close>

definition current_timeval :: "usize \<Rightarrow> time_val" where
  "current_timeval ns =
     \<lparr> tv_sec = ns div NSEC_PER_SEC, tv_usec = (ns mod NSEC_PER_SEC) div 1000 \<rparr>"

definition current_timespec :: "usize \<Rightarrow> time_spec" where
  "current_timespec ns =
     \<lparr> ts_sec = ns div NSEC_PER_SEC, ts_nsec = (ns mod NSEC_PER_SEC) div 1000 \<rparr>"

definition sys_gettimeofday ::
  "usize \<Rightarrow> (usize \<Rightarrow> time_val) \<Rightarrow> usize \<Rightarrow> (usize \<Rightarrow> time_val) \<times> usize res" where
  "sys_gettimeofday ns mem tv_ptr = (mem(tv_ptr := current_timeval ns), Ok 0)"

definition sys_clock_gettime ::
  "usize \<Rightarrow> (usize \<Rightarrow> time_spec) \<Rightarrow> usize \<Rightarrow> usize \<Rightarrow> (usize \<Rightarrow> time_spec) \<times> usize res" where
  "sys_clock_gettime now mem clock_id times_ptr =
     (if clock_id \<le> 3
      then let ns = (if clock_id = 0 \<or> clock_id = 1 then now else 0)
           in (mem(times_ptr := \<lparr> ts_sec = ns div NSEC_PER_SEC, ts_nsec = ns mod NSEC_PER_SEC \<rparr>), Ok 0)
      else (mem, Err EINVAL))"

definition sys_clock_getres ::
  "(usize \<Rightarrow> time_spec) \<Rightarrow> usize \<Rightarrow> usize \<Rightarrow> (usize \<Rightarrow> time_spec) \<times> usize res" where
  "sys_clock_getres mem clock_id times_ptr =
     (if times_ptr \<noteq> 0 then mem(times_ptr := \<lparr> ts_sec = 0, ts_nsec = 1 \<rparr>) else mem, Ok 0)"

text \<open>\<open>raw\<close> is the tick counter.\<close>

definition sys_times :: "tms \<Rightarrow> usize \<Rightarrow> (usize \<Rightarrow> tms) \<Rightarrow> usize \<Rightarrow> (usize \<Rightarrow> tms) \<times> usize res" where
  "sys_times tms raw mem tms_ptr = (mem(tms_ptr := tms), Ok raw)"

section \<open>Sleeping\<close>

definition wait_until_poll :: "usize \<Rightarrow> usize \<Rightarrow> unit poll" where
  "wait_until_poll ns deadline = (if ns > deadline then Ready () else Pending)"

definition wait_ms :: "usize \<Rightarrow> usize \<Rightarrow> usize" where
  "wait_ms ns ms = wadd ns (wmul ms 0x10000000)"

definition next_tick_poll :: "usize \<Rightarrow> usize \<Rightarrow> unit poll" where
  "next_tick_poll msec until = (if msec < until then Pending else Ready ())"

text \<open>The state a polled sleep reads: the clock and the signals of the thread.\<close>

type_synonym sleep_state = "usize \<times> sig_state"

definition signal_future :: "unit \<Rightarrow> sleep_state \<Rightarrow> sleep_state \<times> unit \<times> unit poll" where
  "signal_future u s = (s, u, if wait_handleable_ready (snd s) then Ready () else Pending)"

definition until_future :: "usize \<Rightarrow> sleep_state \<Rightarrow> sleep_state \<times> usize \<times> unit poll" where
  "until_future deadline s = (s, deadline, wait_until_poll (fst s) deadline)"

definition nanosleep_start :: "usize \<Rightarrow> time_spec \<Rightarrow> (unit \<times> usize) option" where
  "nanosleep_start ns req = Some ((), wadd (wadd ns (wmul (ts_sec req) NSEC_PER_SEC)) (ts_nsec req))"

text \<open>One poll of \<open>sys_nanosleep\<close> after its start, and what it writes to \<open>rem\<close> at the end.\<close>

definition nanosleep_poll ::
  "(usize \<Rightarrow> time_spec) \<Rightarrow> usize \<Rightarrow> (unit \<times> usize) option \<Rightarrow> sleep_state
   \<Rightarrow> ((usize \<Rightarrow> time_spec) \<times> (unit \<times> usize) option \<times> usize res poll) run" where
  "nanosleep_poll mem rem_ptr fut s =
     do { (_, fut, r) \<leftarrow> select_poll signal_future until_future fut s;
          (case r of
             Pending \<Rightarrow> Some (mem, fut, Pending)
           | Ready x \<Rightarrow>
               let res = (case x of Inr _ \<Rightarrow> Ok 0 | Inl _ \<Rightarrow> Err EINTR);
                   mem = (if rem_ptr \<noteq> 0 then mem(rem_ptr := ts_zero) else mem)
               in Some (mem, fut, Ready res)) }"

definition clock_nanosleep_start :: "usize \<Rightarrow> usize \<Rightarrow> time_spec \<Rightarrow> usize" where
  "clock_nanosleep_start ns flags req =
     (if flags = 1 then wadd (wmul (ts_sec req) NSEC_PER_SEC) (ts_nsec req)
      else wadd (wadd ns (wmul (ts_sec req) NSEC_PER_SEC)) (ts_nsec req))"

definition clock_nanosleep_poll ::
  "(usize \<Rightarrow> time_spec) \<Rightarrow> usize \<Rightarrow> usize \<Rightarrow> usize \<Rightarrow> usize
   \<Rightarrow> (usize \<Rightarrow> time_spec) \<times> usize res poll" where
  "clock_nanosleep_poll mem flags rem_ptr deadline ns =
     (case wait_until_poll ns deadline of
        Pending \<Rightarrow> (mem, Pending)
      | Ready _ \<Rightarrow>
          (if flags = 1 \<and> rem_ptr \<noteq> 0 then mem(rem_ptr := ts_zero) else mem, Ready (Ok 0)))"

section \<open>The interval timer\<close>

definition process_timer_new :: process_timer where
  "process_timer_new =
     \<lparr> pt_timer = \<lparr> it_interval = tv_zero, it_value = tv_zero \<rparr>, pt_next = tv_zero, pt_last = tv_zero \<rparr>"

definition sys_setitimer ::
  "usize \<Rightarrow> process_timer \<Rightarrow> (usize \<Rightarrow> itimer_val) \<Rightarrow> usize \<Rightarrow> usize \<Rightarrow> usize
   \<Rightarrow> process_timer \<times> (usize \<Rightarrow> itimer_val) \<times> usize res" where
  "sys_setitimer ns tm mem which times_ptr old_timer_ptr =
     (if which = 0
      then let mem = (if old_timer_ptr \<noteq> 0 then mem(old_timer_ptr := pt_timer tm) else mem);
               tm = (if times_ptr \<noteq> 0
                     then let new = mem times_ptr;
                              tm = tm\<lparr>pt_timer := new, pt_next := tv_add (current_timeval ns) (it_value new)\<rparr>
                          in if tv_sec (it_value new) = 0 \<and> tv_usec (it_value new) = 0
                             then tm\<lparr>pt_next := tv_zero, pt_last := tv_zero\<rparr> else tm
                     else tm)
           in (tm, mem, Ok 0)
      else (tm, mem, Err EPERM))"

definition check_timer :: "usize \<Rightarrow> process_timer \<times> 'a sig_state_scheme \<Rightarrow> process_timer \<times> 'a sig_state_scheme"
where
  "check_timer ns = (\<lambda>(tm, st).
     if tv_gt (pt_next tm) (pt_last tm) \<and> tv_ge (current_timeval ns) (pt_next tm)
     then (tm\<lparr>pt_last := pt_next tm\<rparr>, st\<lparr>ss_signal := add_signal (ss_signal st) SIGALRM\<rparr>)
     else (tm, st))"

text \<open>One turn of the loop of \<open>sys_sigsuspend\<close>: \<open>Ready\<close> when it breaks out of it.\<close>

definition sigsuspend_poll ::
  "usize \<Rightarrow> process_timer \<times> 'a sig_state_scheme \<Rightarrow> (process_timer \<times> 'a sig_state_scheme) \<times> usize res poll"
where
  "sigsuspend_poll ns s =
     (let s = check_timer ns s
      in (s, if has_signal (ss_signal (snd s)) then Ready (Ok 0) else Pending))"

section \<open>Microseconds\<close>

definition us :: "time_val \<Rightarrow> nat" where
  "us t = tv_sec t * USEC_PER_SEC + tv_usec t"

definition tv_normal :: "time_val \<Rightarrow> bool" where
  "tv_normal t \<longleftrightarrow> tv_usec t < USEC_PER_SEC"

lemma current_timeval_normal [simp]: "tv_normal (current_timeval ns)"
  by (simp add: tv_normal_def current_timeval_def less_mult_imp_div_less)

lemma us_current: "us (current_timeval ns) = ns div 1000"
proof -
  have "ns = (ns div NSEC_PER_SEC) * NSEC_PER_SEC + ns mod NSEC_PER_SEC" by simp
  then have "ns div 1000 = ((ns div NSEC_PER_SEC) * USEC_PER_SEC * 1000 + ns mod NSEC_PER_SEC) div 1000"
    by simp
  also have "\<dots> = (ns div NSEC_PER_SEC) * USEC_PER_SEC + (ns mod NSEC_PER_SEC) div 1000"
    by (simp only: div_mult_self3 zero_neq_numeral simp_thms)
  finally show ?thesis by (simp add: us_def current_timeval_def)
qed

lemma tv_ge_us: "tv_normal a \<Longrightarrow> tv_normal b \<Longrightarrow> tv_ge a b \<longleftrightarrow> us b \<le> us a"
  by (auto simp: tv_ge_def tv_cmp_def us_def tv_normal_def)

text \<open>The moment a timer armed at \<open>t0\<close> for \<open>v\<close> goes off, in microseconds: the deadline, or the
  start of the second after the sum of the seconds, when that comes first.\<close>

definition fire_us :: "time_val \<Rightarrow> time_val \<Rightarrow> nat" where
  "fire_us t0 v = min (us t0 + us v) ((tv_sec t0 + tv_sec v + 1) * USEC_PER_SEC)"

lemma tv_add_normal:
  assumes "tv_normal a" "tv_normal b" "tv_sec a + tv_sec b < 2 ^ 64"
  shows "tv_add a b = \<lparr> tv_sec = tv_sec a + tv_sec b, tv_usec = tv_usec a + tv_usec b \<rparr>"
  using assms by (simp add: tv_add_def Let_def tv_normal_def wadd_def)

lemma tv_ge_add:
  assumes "tv_normal a" "tv_normal b" "tv_sec a + tv_sec b < 2 ^ 64" "tv_normal t"
  shows "tv_ge t (tv_add a b) \<longleftrightarrow> fire_us a b \<le> us t"
  unfolding tv_add_normal [OF assms(1-3)] fire_us_def
  using assms(1,2,4) by (auto simp: tv_ge_def tv_cmp_def us_def tv_normal_def)

text \<open>The number of checks of a sequence that post the alarm: those that move \<open>last\<close>.\<close>

primrec alarms :: "usize list \<Rightarrow> process_timer \<times> sig_state \<Rightarrow> nat" where
  "alarms [] s = 0"
| "alarms (ns # rest) s =
     (if fst (check_timer ns s) \<noteq> fst s then 1 else 0) + alarms rest (check_timer ns s)"

lemma tv_gt_irrefl: "\<not> tv_gt a a"
  by (simp add: tv_gt_def tv_cmp_def)

lemma alarms_spent: "pt_last tm = pt_next tm \<Longrightarrow> alarms ts (tm, st) = 0"
  by (induction ts) (auto simp: check_timer_def tv_gt_irrefl)

lemma alarms_armed:
  assumes "tv_gt (pt_next tm) (pt_last tm)"
  shows "alarms ts (tm, st) = (if \<exists>t\<in>set ts. tv_ge (current_timeval t) (pt_next tm) then 1 else 0)"
proof (induction ts)
  case (Cons t ts)
  have "pt_last tm \<noteq> pt_next tm" using assms tv_gt_irrefl by metis
  then have "tm\<lparr>pt_last := pt_next tm\<rparr> \<noteq> tm" by (metis process_timer.select_convs(3) process_timer.surjective process_timer.update_convs(3))
  then show ?case using Cons assms by (auto simp: check_timer_def alarms_spent)
qed simp

lemma tv_add_gt:
  assumes "tv_normal a" "tv_normal b" "tv_sec a + tv_sec b < 2 ^ 64" "0 < us b" "tv_ge a c"
  shows "tv_gt (tv_add a b) c"
  unfolding tv_add_normal [OF assms(1-3)]
  using assms(4,5) by (auto simp: tv_gt_def tv_ge_def tv_cmp_def us_def split: if_splits)



text \<open>A sleep neither ends early nor runs over.  A poll of \<open>nanosleep\<close> ends it exactly when a
  signal the thread does not block is pending, with \<open>EINTR\<close>, or when the clock is past the start
  plus the time asked for, with success; the remaining time it reports is always zero.\<close>

theorem nanosleep_outcome:
  assumes "ns0 + ts_sec req * NSEC_PER_SEC + ts_nsec req < 2 ^ 64"
  shows "nanosleep_poll mem rem (nanosleep_start ns0 req) (ns, st) =
    (let done = (if rem \<noteq> 0 then mem(rem := ts_zero) else mem) in
     Some (if wait_handleable_ready st then (done, None, Ready (Err EINTR))
           else if ns0 + ts_sec req * NSEC_PER_SEC + ts_nsec req < ns then (done, None, Ready (Ok 0))
           else (mem, nanosleep_start ns0 req, Pending)))"
proof -
  have "ts_sec req * NSEC_PER_SEC < 2 ^ 64" "ns0 + ts_sec req * NSEC_PER_SEC < 2 ^ 64" using assms by linarith+
  then have "nanosleep_start ns0 req = Some ((), ns0 + ts_sec req * NSEC_PER_SEC + ts_nsec req)"
    using assms by (simp add: nanosleep_start_def wadd_def wmul_def)
  then show ?thesis
    by (simp add: nanosleep_poll_def select_poll_def signal_future_def until_future_def
        wait_until_poll_def Let_def)
qed

theorem nanosleep_outcome_witness:
  "nanosleep_poll (\<lambda>_. \<lparr> ts_sec = 7, ts_nsec = 7 \<rparr>) 0 (nanosleep_start 5 \<lparr> ts_sec = 1, ts_nsec = 2 \<rparr>)
     (1000000008, quiet) = Some ((\<lambda>_. \<lparr> ts_sec = 7, ts_nsec = 7 \<rparr>), None, Ready (Ok 0))"
  by (subst nanosleep_outcome)
     (auto simp: Let_def quiet_def wait_handleable_ready_def has_signal_def mask_signals_def)

end
