(* ===== verification/Polling.thy ===== *)
theory Polling
  imports FdTable Timers
begin

unbundle bit_operations_syntax

text \<open>
  Readiness: \<open>ppoll\<close>, \<open>poll\<close>, \<open>pselect\<close> and the epoll calls of \<open>syscall/fd.rs\<close>, with \<open>EpollFile\<close> of
  \<open>syscall/types/poll.rs\<close>.

  Each call is a loop that scans its descriptors, tests the clock and yields.  The model has the
  part before the loop, which fixes the deadline, and one turn of the loop: it returns a value, or
  \<open>Pending\<close> when the call yields and scans again.  The inode of a descriptor answers through
  \<open>io_poll\<close>, which changes nothing.
\<close>

section \<open>ppoll and poll\<close>

record poll_fd =
  pfd_fd :: usize
  pfd_events :: poll_event
  pfd_revents :: poll_event

text \<open>The deadline: \<open>usize::MAX\<close> without a timeout.\<close>

definition usize_max :: usize where
  "usize_max = 2 ^ 64 - 1"

definition deadline_of :: "usize \<Rightarrow> (usize \<Rightarrow> time_spec) \<Rightarrow> usize \<Rightarrow> usize" where
  "deadline_of ns mem timeout_ptr =
     (if timeout_ptr \<noteq> 0 then wadd ns (to_nsec (mem timeout_ptr)) else usize_max)"

text \<open>\<open>get_fd(fd).map_or(NONE, |x| x.poll(events).unwrap())\<close>.\<close>

definition poll_entry ::
  "('s, 'n) inode_ops \<Rightarrow> 's \<Rightarrow> ('n, 'm) fd_state_scheme \<Rightarrow> poll_fd \<Rightarrow> poll_event run" where
  "poll_entry ops s st p =
     do { h \<leftarrow> get_fd st (pfd_fd p);
          (case h of
             None \<Rightarrow> Some 0
           | Some h \<Rightarrow>
               (case io_poll ops s (of_inner (deref st h)) (pfd_events p) of
                  Ok r \<Rightarrow> Some r | _ \<Rightarrow> None)) }"

fun poll_scan ::
  "('s, 'n) inode_ops \<Rightarrow> 's \<Rightarrow> ('n, 'm) fd_state_scheme \<Rightarrow> poll_fd list \<Rightarrow> (poll_fd list \<times> usize) run" where
  "poll_scan ops s st [] = Some ([], 0)"
| "poll_scan ops s st (p # ps) =
     do { r \<leftarrow> poll_entry ops s st p;
          (ps, num) \<leftarrow> poll_scan ops s st ps;
          Some (p\<lparr>pfd_revents := r\<rparr> # ps, if r \<noteq> 0 then num + 1 else num) }"

definition ppoll_turn ::
  "('s, 'n) inode_ops \<Rightarrow> 's \<Rightarrow> ('n, 'm) fd_state_scheme \<Rightarrow> usize \<Rightarrow> usize \<Rightarrow> poll_fd list
   \<Rightarrow> (poll_fd list \<times> usize res poll) run" where
  "ppoll_turn ops s st etime ns poll_fds =
     do { (poll_fds, num) \<leftarrow> poll_scan ops s st poll_fds;
          Some (poll_fds, if ns \<ge> etime \<or> num > 0 then Ready (Ok num) else Pending) }"

text \<open>\<open>poll\<close>, of the x86-64 kernel: the timeout is an \<open>isize\<close>, cast to \<open>usize\<close> for the deadline.\<close>

definition poll_deadline :: "usize \<Rightarrow> int \<Rightarrow> usize" where
  "poll_deadline ns timeout = wadd ns (wmul (nat (timeout mod 2 ^ 64)) 0x1000000)"

definition poll_turn ::
  "('s, 'n) inode_ops \<Rightarrow> 's \<Rightarrow> ('n, 'm) fd_state_scheme \<Rightarrow> int \<Rightarrow> usize \<Rightarrow> usize \<Rightarrow> poll_fd list
   \<Rightarrow> (poll_fd list \<times> usize res poll) run" where
  "poll_turn ops s st timeout etime ns poll_fds =
     do { (poll_fds, num) \<leftarrow> poll_scan ops s st poll_fds;
          Some (poll_fds, if (timeout > 0 \<and> ns \<ge> etime) \<or> num > 0 then Ready (Ok num) else Pending) }"

section \<open>pselect\<close>

text \<open>\<open>BitArray\<close> of the \<open>bit_field\<close> crate on a slice of four words; out of range it panics.\<close>

definition get_bit :: "u64 list \<Rightarrow> usize \<Rightarrow> bool run" where
  "get_bit ws i = do { w \<leftarrow> vec_get ws (i div 64); Some (bit w (i mod 64)) }"

definition set_bit_at :: "u64 list \<Rightarrow> usize \<Rightarrow> bool \<Rightarrow> u64 list run" where
  "set_bit_at ws i v =
     do { w \<leftarrow> vec_get ws (i div 64);
          Some (ws[i div 64 := if v then set_bit (i mod 64) w else unset_bit (i mod 64) w]) }"

text \<open>One descriptor of one of the three sets: the new result set and whether it counts.  For the
  read set a descriptor that is not asked for is cleared in the result, for the others it is
  skipped (\<open>clear\<close>).\<close>

definition select_entry ::
  "('s, 'n) inode_ops \<Rightarrow> 's \<Rightarrow> ('n, 'm) fd_state_scheme \<Rightarrow> bool \<Rightarrow> poll_event \<Rightarrow> u64 list \<Rightarrow> usize
   \<Rightarrow> u64 list \<Rightarrow> (u64 list \<times> bool) run" where
  "select_entry ops s st clear ev fds i res =
     do { b \<leftarrow> get_bit fds i;
          if \<not> b then (if clear then do { res \<leftarrow> set_bit_at res i False; Some (res, False) }
                       else Some (res, False))
          else do {
            h \<leftarrow> vec_get (fd_table st) i;
            (case h of
               None \<Rightarrow> do { res \<leftarrow> set_bit_at res i False; Some (res, False) }
             | Some h \<Rightarrow>
                 let up = (case io_poll ops s (of_inner (deref st h)) ev of
                             Ok r \<Rightarrow> contains r ev | _ \<Rightarrow> False)
                 in do { res \<leftarrow> set_bit_at res i up; Some (res, up) }) } }"

text \<open>The loop \<open>for i in 0..max_fdp1\<close>, over the list of indices still to do.\<close>

fun select_scan ::
  "('s, 'n) inode_ops \<Rightarrow> 's \<Rightarrow> ('n, 'm) fd_state_scheme \<Rightarrow> bool \<Rightarrow> poll_event \<Rightarrow> u64 list \<Rightarrow> usize list
   \<Rightarrow> u64 list \<times> usize \<Rightarrow> (u64 list \<times> usize) run" where
  "select_scan ops s st clear ev fds [] acc = Some acc"
| "select_scan ops s st clear ev fds (i # is) (res, num) =
     do { (res, up) \<leftarrow> select_entry ops s st clear ev fds i res;
          select_scan ops s st clear ev fds is (res, if up then num + 1 else num) }"

text \<open>A set that is not passed (a null pointer) is \<open>None\<close>; \<open>num\<close> runs through the three scans.\<close>

definition select_set ::
  "('s, 'n) inode_ops \<Rightarrow> 's \<Rightarrow> ('n, 'm) fd_state_scheme \<Rightarrow> bool \<Rightarrow> poll_event \<Rightarrow> usize \<Rightarrow> u64 list option
   \<Rightarrow> u64 list \<Rightarrow> usize \<Rightarrow> (u64 list \<times> usize) run" where
  "select_set ops s st clear ev max_fdp1 fds res num =
     (case fds of
        None \<Rightarrow> Some (res, num)
      | Some fds \<Rightarrow> select_scan ops s st clear ev fds [0 ..< max_fdp1] (res, num))"

record select_sets =
  se_read :: "u64 list option"
  se_write :: "u64 list option"
  se_except :: "u64 list option"

record select_results =
  sr_read :: "u64 list"
  sr_write :: "u64 list"
  sr_except :: "u64 list"

definition select_start :: select_results where
  "select_start = \<lparr> sr_read = replicate 4 0, sr_write = replicate 4 0, sr_except = replicate 4 0 \<rparr>"

definition copy_back :: "select_sets \<Rightarrow> select_results \<Rightarrow> select_sets" where
  "copy_back fds res =
     \<lparr> se_read = map_option (\<lambda>_. sr_read res) (se_read fds),
       se_write = map_option (\<lambda>_. sr_write res) (se_write fds),
       se_except = map_option (\<lambda>_. sr_except res) (se_except fds) \<rparr>"

definition pselect_turn ::
  "('s, 'n) inode_ops \<Rightarrow> 's \<Rightarrow> ('n, 'm) fd_state_scheme \<Rightarrow> usize \<Rightarrow> usize \<Rightarrow> usize \<Rightarrow> select_sets
   \<Rightarrow> select_results \<Rightarrow> (select_sets \<times> select_results \<times> usize res poll) run" where
  "pselect_turn ops s st max_fdp1 timeout ns fds res =
     (let max_fdp1 = min max_fdp1 255 in
      do { (r, num) \<leftarrow> select_set ops s st True POLLIN max_fdp1 (se_read fds) (sr_read res) 0;
           (w, num) \<leftarrow> select_set ops s st False POLLOUT max_fdp1 (se_write fds) (sr_write res) num;
           (e, num) \<leftarrow> select_set ops s st False POLLERR max_fdp1 (se_except fds) (sr_except res) num;
           (let res = \<lparr> sr_read = r, sr_write = w, sr_except = e \<rparr> in
            if num \<noteq> 0 then Some (copy_back fds res, res, Ready (Ok num))
            else if ns > timeout then Some (copy_back fds res, res, Ready (Ok 0))
            else Some (fds, res, Pending)) })"

section \<open>epoll\<close>

record epoll_event =
  ee_events :: "32 word"
  ee_data :: u64

text \<open>\<open>EpollEventType::to_poll\<close>: the declared bits of \<open>PollEvent\<close> among the low sixteen.\<close>

definition to_poll :: "32 word \<Rightarrow> poll_event" where
  "to_poll e = ucast e AND 0x37FF"

record epoll_file =
  ep_data :: "usize \<rightharpoonup> epoll_event"
  ep_flags :: usize

definition epoll_new :: "usize \<Rightarrow> epoll_file" where
  "epoll_new flags = \<lparr> ep_data = Map.empty, ep_flags = flags \<rparr>"

datatype epoll_ctl = EpAdd | EpDel | EpMod

definition epoll_ctl_of :: "usize \<Rightarrow> epoll_ctl option" where
  "epoll_ctl_of op =
     (if op = 1 then Some EpAdd else if op = 2 then Some EpDel else if op = 3 then Some EpMod else None)"

fun epoll_do_ctl :: "epoll_file \<Rightarrow> epoll_ctl \<Rightarrow> usize \<Rightarrow> epoll_event \<Rightarrow> epoll_file" where
  "epoll_do_ctl ep EpAdd fd ev = ep\<lparr>ep_data := (ep_data ep)(fd \<mapsto> ev)\<rparr>"
| "epoll_do_ctl ep EpDel fd ev = ep\<lparr>ep_data := (ep_data ep)(fd := None)\<rparr>"
| "epoll_do_ctl ep EpMod fd ev = ep\<lparr>ep_data := (ep_data ep)(fd := map_option (\<lambda>_. ev) (ep_data ep fd))\<rparr>"

text \<open>Epoll files live in a heap of their own: \<open>mk\<close> is the inode of one, and \<open>as_epoll\<close> the
  downcast of an inode to it.\<close>

definition sys_epoll_create1 ::
  "(nat \<Rightarrow> 'n) \<Rightarrow> epoll_file list \<Rightarrow> ('n, 'm) fd_state_scheme \<Rightarrow> usize
   \<Rightarrow> epoll_file list \<times> ('n, 'm) fd_state_scheme \<times> usize res" where
  "sys_epoll_create1 mk eps st flags =
     (eps @ [epoll_new flags], install st (new_dev (mk (length eps))) EMFILE)"

definition epoll_of ::
  "('n \<Rightarrow> nat option) \<Rightarrow> ('n, 'm) fd_state_scheme \<Rightarrow> usize \<Rightarrow> nat res" where
  "epoll_of as_epoll st epfd =
     res_bind (fetch st epfd EBADF)
       (\<lambda>h. case as_epoll (of_inner (deref st h)) of None \<Rightarrow> Err EINVAL | Some e \<Rightarrow> Ok e)"

definition sys_epoll_ctl ::
  "('n \<Rightarrow> nat option) \<Rightarrow> epoll_file list \<Rightarrow> ('n, 'm) fd_state_scheme \<Rightarrow> usize \<Rightarrow> usize \<Rightarrow> usize
   \<Rightarrow> epoll_event \<Rightarrow> epoll_file list \<times> usize res" where
  "sys_epoll_ctl as_epoll eps st epfd op fd ev =
     (case (case epoll_ctl_of op of
              None \<Rightarrow> Err EINVAL
            | Some ctl \<Rightarrow> res_bind (epoll_of as_epoll st epfd)
                (\<lambda>e. res_bind (fetch st fd EBADF) (\<lambda>_. Ok (ctl, e)))) of
        Ok (ctl, e) \<Rightarrow> (eps[e := epoll_do_ctl (eps ! e) ctl fd ev], Ok 0)
      | Err er \<Rightarrow> (eps, Err er)
      | Panic \<Rightarrow> (eps, Panic))"

definition epoll_deadline :: "usize \<Rightarrow> usize \<Rightarrow> usize" where
  "epoll_deadline stime timeout =
     (if timeout = usize_max then usize_max else wadd stime (wmul timeout 0x1000000))"

text \<open>Whether an entry is reported: its descriptor is open and the file answers with some event.\<close>

definition epoll_hit ::
  "('s, 'n) inode_ops \<Rightarrow> 's \<Rightarrow> ('n, 'm) fd_state_scheme \<Rightarrow> usize \<Rightarrow> epoll_event \<Rightarrow> bool run" where
  "epoll_hit ops s st fd ev =
     do { h \<leftarrow> get_fd st fd;
          Some (case h of
                  None \<Rightarrow> False
                | Some h \<Rightarrow>
                    (case io_poll ops s (of_inner (deref st h)) (to_poll (ee_events ev)) of
                       Ok r \<Rightarrow> r \<noteq> 0 | _ \<Rightarrow> False)) }"

text \<open>The scan visits the entries in the order of the hash map, an argument; \<open>buffer[num]\<close> panics
  past the end of the user's array.\<close>

fun epoll_scan ::
  "('s, 'n) inode_ops \<Rightarrow> 's \<Rightarrow> ('n, 'm) fd_state_scheme \<Rightarrow> (usize \<times> epoll_event) list \<Rightarrow> epoll_event list
   \<Rightarrow> usize \<Rightarrow> (epoll_event list \<times> usize) run" where
  "epoll_scan ops s st [] buffer num = Some (buffer, num)"
| "epoll_scan ops s st ((fd, ev) # es) buffer num =
     do { hit \<leftarrow> epoll_hit ops s st fd ev;
          if hit
          then if num < length buffer
               then epoll_scan ops s st es (buffer[num := ev]) (num + 1) else None
          else epoll_scan ops s st es buffer num }"

definition epoll_wait_turn ::
  "('s, 'n) inode_ops \<Rightarrow> 's \<Rightarrow> ('n, 'm) fd_state_scheme \<Rightarrow> (usize \<times> epoll_event) list \<Rightarrow> usize \<Rightarrow> usize
   \<Rightarrow> epoll_event list \<Rightarrow> (epoll_event list \<times> usize res poll) run" where
  "epoll_wait_turn ops s st entries end ns buffer =
     do { (buffer, num) \<leftarrow> epoll_scan ops s st entries buffer 0;
          Some (buffer, if ns \<ge> end \<or> num > 0 then Ready (Ok num) else Pending) }"

section \<open>Scanning entries\<close>

lemma poll_scan_eq:
  "poll_scan ops s st ps =
     (if \<exists>p\<in>set ps. poll_entry ops s st p = None then None
      else Some (map (\<lambda>p. p\<lparr>pfd_revents := the (poll_entry ops s st p)\<rparr>) ps,
                 length (filter (\<lambda>p. poll_entry ops s st p \<noteq> Some 0) ps)))"
proof (induction ps)
  case (Cons p ps)
  then show ?case by (cases "poll_entry ops s st p") auto
qed simp

text \<open>A \<open>ppoll\<close> that names an open file whose inode has no \<open>poll\<close> of its own, as every file and
  directory of the RAM file system, panics the kernel: the default method returns \<open>EPERM\<close> and the
  result is unwrapped.\<close>

theorem ppoll_ram_panics:
  assumes "p \<in> set ps" "get_fd st (pfd_fd p) = Some (Some h)"
  shows "ppoll_turn ram_ops s st etime ns ps = None"
proof -
  have "io_poll ram_ops s n ev = Err EPERM" for n ev
    by (simp add: ram_ops_def default_ops_def)
  then have "poll_entry ram_ops s st p = None" by (simp add: poll_entry_def assms(2))
  with assms(1) show ?thesis by (auto simp: ppoll_turn_def poll_scan_eq)
qed

theorem ppoll_ram_panics_witness:
  "ppoll_turn ram_ops (demo_phys, ram_fs_new) (demo_fds 3) 0 0
     [\<lparr> pfd_fd = 0, pfd_events = POLLIN, pfd_revents = 0 \<rparr>] = None"
  by (rule ppoll_ram_panics [of "\<lparr> pfd_fd = 0, pfd_events = POLLIN, pfd_revents = 0 \<rparr>" _ _ 0])
     (simp_all add: get_fd_def vec_get_def)

lemma epoll_scan_eq:
  assumes "\<forall>(fd, ev)\<in>set es. \<exists>b. epoll_hit ops s st fd ev = Some b"
  shows "epoll_scan ops s st es buffer num =
    (let hits = map snd (filter (\<lambda>(fd, ev). epoll_hit ops s st fd ev = Some True) es)
     in if num + length hits \<le> length buffer \<or> hits = []
        then Some (take num buffer @ hits @ drop (num + length hits) buffer, num + length hits)
        else None)"
  using assms
proof (induction es arbitrary: buffer num)
  case (Cons e es)
  obtain fd ev where e: "e = (fd, ev)" by fastforce
  from Cons.prems obtain b where b: "epoll_hit ops s st fd ev = Some b" by (auto simp: e)
  let ?hits = "map snd (filter (\<lambda>(fd, ev). epoll_hit ops s st fd ev = Some True) es)"
  have IH: "epoll_scan ops s st es buffer num =
    (if num + length ?hits \<le> length buffer \<or> ?hits = []
     then Some (take num buffer @ ?hits @ drop (num + length ?hits) buffer, num + length ?hits)
     else None)" for buffer num
    using Cons by (auto simp: Let_def)
  show ?case
  proof (cases "b \<and> num < length buffer")
    case True
    have "take (num + 1) (buffer[num := ev]) = take num buffer @ [ev]"
      using True by (simp add: take_Suc_conv_app_nth)
    moreover have "drop (Suc num + k) (buffer[num := ev]) = drop (Suc num + k) buffer" for k
      by (simp add: drop_update_cancel)
    ultimately show ?thesis using True b IH [of "buffer[num := ev]" "num + 1"] unfolding e by (auto simp: Let_def)
  next
    case False
    then show ?thesis using b IH [of buffer num] unfolding e by (cases b) (auto simp: Let_def)
  qed
qed simp

text \<open>One turn of \<open>epoll_wait\<close> on every input.  When more registered descriptors are ready than
  the caller's array has entries, the kernel panics; otherwise the ready entries are written to
  the front of the array in the order of the scan, their number is returned if it is positive or
  the deadline has passed, and else the call yields.\<close>

theorem epoll_wait_outcome:
  assumes "\<forall>(fd, ev)\<in>set es. \<exists>b. epoll_hit ops s st fd ev = Some b"
  shows "epoll_wait_turn ops s st es end ns buffer =
    (let hits = map snd (filter (\<lambda>(fd, ev). epoll_hit ops s st fd ev = Some True) es)
     in if length buffer < length hits then None
        else Some (hits @ drop (length hits) buffer,
                   if ns \<ge> end \<or> hits \<noteq> [] then Ready (Ok (length hits)) else Pending))"
  unfolding epoll_wait_turn_def epoll_scan_eq [OF assms] by (auto simp: Let_def)

text \<open>Two entries for a pipe whose reading end is readable, and room for one event.\<close>

definition demo_epoll :: "(usize \<times> epoll_event) list" where
  "demo_epoll = [(0, \<lparr> ee_events = 1, ee_data = 10 \<rparr>), (0, \<lparr> ee_events = 1, ee_data = 11 \<rparr>)]"

definition pipe_ops :: "(pipe, 'n) inode_ops" where
  "pipe_ops = default_ops\<lparr>io_poll := \<lambda>p n ev. Ok (pipe_receiver_poll p ev)\<rparr>"

theorem epoll_wait_outcome_witness:
  "epoll_wait_turn pipe_ops \<lparr> pp_queue = [7], pp_senders = 1 \<rparr> (demo_fds 3) demo_epoll 0 0
     [\<lparr> ee_events = 0, ee_data = 0 \<rparr>] = None"
proof -
  have "\<forall>(fd, ev)\<in>set demo_epoll.
      epoll_hit pipe_ops \<lparr> pp_queue = [7], pp_senders = 1 \<rparr> (demo_fds 3) fd ev = Some True"
    by (simp add: demo_epoll_def epoll_hit_def get_fd_def vec_get_def pipe_ops_def default_ops_def
        to_poll_def pipe_receiver_poll_def contains_def)
  then show ?thesis
    by (subst epoll_wait_outcome) (auto simp: Let_def demo_epoll_def)
qed

section \<open>Descriptor sets\<close>

text \<open>The members of a set of four words, and the descriptors of a set that are ready.\<close>

definition has_fd :: "u64 list \<Rightarrow> usize \<Rightarrow> bool" where
  "has_fd ws i \<longleftrightarrow> bit (ws ! (i div 64)) (i mod 64)"

definition fd_up :: "('s, 'n) inode_ops \<Rightarrow> 's \<Rightarrow> ('n, 'm) fd_state_scheme \<Rightarrow> poll_event \<Rightarrow> usize \<Rightarrow> bool" where
  "fd_up ops s st ev i \<longleftrightarrow>
     (\<exists>h r. fd_table st ! i = Some h \<and> io_poll ops s (of_inner (deref st h)) ev = Ok r \<and> contains r ev)"

definition members :: "u64 list option \<Rightarrow> usize set" where
  "members fds = (case fds of None \<Rightarrow> {} | Some ws \<Rightarrow> {i. i < 256 \<and> has_fd ws i})"

definition ready_fds ::
  "('s, 'n) inode_ops \<Rightarrow> 's \<Rightarrow> ('n, 'm) fd_state_scheme \<Rightarrow> poll_event \<Rightarrow> usize \<Rightarrow> u64 list option \<Rightarrow> usize set"
where
  "ready_fds ops s st ev n fds = {i \<in> members fds. i < min n 255 \<and> fd_up ops s st ev i}"

definition four_words :: "u64 list option \<Rightarrow> bool" where
  "four_words fds \<longleftrightarrow> (\<forall>ws. fds = Some ws \<longrightarrow> length ws = 4)"

lemma index_4: "i < 256 \<Longrightarrow> i div 64 < (4 :: nat)"
  by (simp add: less_mult_imp_div_less)

lemma get_bit_Some: "length ws = 4 \<Longrightarrow> i < 256 \<Longrightarrow> get_bit ws i = Some (has_fd ws i)"
  by (simp add: get_bit_def vec_get_def has_fd_def index_4)

lemma set_bit_at_Some:
  assumes "length ws = 4" "i < 256"
  shows "\<exists>ws'. set_bit_at ws i v = Some ws' \<and> length ws' = 4 \<and>
    (\<forall>j. has_fd ws' j = (if j = i then v else has_fd ws j))"
proof -
  let ?w = "if v then set_bit (i mod 64) (ws ! (i div 64)) else unset_bit (i mod 64) (ws ! (i div 64))"
  have "has_fd (ws[i div 64 := ?w]) j = (if j = i then v else has_fd ws j)" for j
  proof (cases "j div 64 = i div 64")
    case True
    then have "j mod 64 = i mod 64 \<longleftrightarrow> j = i" by (metis div_mod_decomp)
    then show ?thesis using True assms index_4
      by (auto simp: has_fd_def bit_set_bit_iff bit_unset_bit_iff)
  next
    case False
    then show ?thesis by (auto simp: has_fd_def)
  qed
  then show ?thesis
    using assms index_4 by (auto simp: set_bit_at_def vec_get_def)
qed

lemma select_entry_Some:
  assumes "length fds = 4" "length res = 4" "i < 255" "255 \<le> length (fd_table st)"
  shows "\<exists>res'. select_entry ops s st clear ev fds i res =
      Some (res', has_fd fds i \<and> fd_up ops s st ev i) \<and> length res' = 4 \<and>
    (\<forall>j. has_fd res' j =
       (if j \<noteq> i then has_fd res j else if has_fd fds i then fd_up ops s st ev i
        else \<not> clear \<and> has_fd res i))"
proof -
  have i: "i < 256" using assms(3) by simp
  have h: "vec_get (fd_table st) i = Some (fd_table st ! i)" using assms(3,4) by (simp add: vec_get_def)
  note b = get_bit_Some [OF assms(1) i]
  obtain r0 where r0: "set_bit_at res i False = Some r0" "length r0 = 4"
      "\<And>j. has_fd r0 j = (if j = i then False else has_fd res j)"
    using set_bit_at_Some [OF assms(2) i, of False] by auto
  obtain r1 where r1: "set_bit_at res i (fd_up ops s st ev i) = Some r1" "length r1 = 4"
      "\<And>j. has_fd r1 j = (if j = i then fd_up ops s st ev i else has_fd res j)"
    using set_bit_at_Some [OF assms(2) i, of "fd_up ops s st ev i"] by auto
  show ?thesis
  proof (cases "has_fd fds i")
    case False
    then show ?thesis using assms(2) r0 by (cases clear) (auto simp: select_entry_def b)
  next
    case True
    have up: "(case io_poll ops s (of_inner (deref st k)) ev of Ok r \<Rightarrow> contains r ev | _ \<Rightarrow> False)
        = fd_up ops s st ev i" if "fd_table st ! i = Some k" for k
      by (auto simp: fd_up_def that split: res.splits)
    show ?thesis
    proof (cases "fd_table st ! i")
      case None
      then have "\<not> fd_up ops s st ev i" by (simp add: fd_up_def)
      then show ?thesis using True None r0 by (simp add: select_entry_def b h)
    next
      case (Some k)
      have "select_entry ops s st clear ev fds i res = Some (r1, fd_up ops s st ev i)"
        using True r1(1) by (simp add: select_entry_def b h Some up [OF Some] Let_def)
      then show ?thesis using True r1(2,3) by auto
    qed
  qed
qed

lemma select_scan_Some:
  assumes "length fds = 4" "255 \<le> length (fd_table st)" "length res = 4"
    "distinct is" "set is \<subseteq> {..<255}"
  shows "\<exists>res'. select_scan ops s st clear ev fds is (res, num) =
      Some (res', num + card {i \<in> set is. has_fd fds i \<and> fd_up ops s st ev i}) \<and> length res' = 4 \<and>
    (\<forall>j. has_fd res' j =
       (if j \<notin> set is then has_fd res j else if has_fd fds j then fd_up ops s st ev j
        else \<not> clear \<and> has_fd res j))"
  using assms(3-5)
proof (induction "is" arbitrary: res num)
  case (Cons i "is")
  let ?up = "has_fd fds i \<and> fd_up ops s st ev i"
  obtain r1 where r1: "select_entry ops s st clear ev fds i res = Some (r1, ?up)" "length r1 = 4"
      "\<And>j. has_fd r1 j = (if j \<noteq> i then has_fd res j else if has_fd fds i then fd_up ops s st ev i
        else \<not> clear \<and> has_fd res i)"
    using select_entry_Some [OF assms(1) Cons.prems(1) _ assms(2), of i ops s clear ev] Cons.prems(3)
    by auto
  let ?n = "if ?up then num + 1 else num"
  obtain r2 where r2: "select_scan ops s st clear ev fds is (r1, ?n) =
      Some (r2, ?n + card {i \<in> set is. has_fd fds i \<and> fd_up ops s st ev i})" "length r2 = 4"
      "\<And>j. has_fd r2 j = (if j \<notin> set is then has_fd r1 j else if has_fd fds j then fd_up ops s st ev j
        else \<not> clear \<and> has_fd r1 j)"
    using Cons.IH [OF r1(2), of ?n] Cons.prems(2,3) by auto
  have "{j \<in> set (i # is). has_fd fds j \<and> fd_up ops s st ev j} =
      (if ?up then insert i {j \<in> set is. has_fd fds j \<and> fd_up ops s st ev j}
       else {j \<in> set is. has_fd fds j \<and> fd_up ops s st ev j})" by auto
  then have "card {j \<in> set (i # is). has_fd fds j \<and> fd_up ops s st ev j} + num =
      ?n + card {j \<in> set is. has_fd fds j \<and> fd_up ops s st ev j}"
    using Cons.prems(2) by simp
  then show ?case using r1 r2 Cons.prems(2) by (auto simp: add.commute)
qed auto

lemma has_fd_zero [simp]: "j < 256 \<Longrightarrow> \<not> has_fd (replicate 4 0) j"
  by (simp add: has_fd_def index_4)

lemma four_words_zero:
  assumes "length ws = 4" "members (Some ws) = {}"
  shows "ws = replicate 4 0"
proof (rule nth_equalityI)
  fix k assume "k < length ws"
  then have k: "k < 4" using assms(1) by simp
  have "ws ! k = 0"
  proof (rule bit_eqI)
    fix m assume "possible_bit TYPE(u64) m"
    then have m: "m < 64" by simp
    then have "\<not> has_fd ws (k * 64 + m)" using assms(2) k by (auto simp: members_def)
    then show "bit (ws ! k) m = bit (0 :: u64) m" using m by (simp add: has_fd_def)
  qed
  then show "ws ! k = replicate 4 0 ! k" using k by simp
qed (use assms(1) in simp)

lemma ready_fds_finite [simp]: "finite (ready_fds ops s st ev n fds)"
  by (rule finite_subset [of _ "{..<255}"]) (auto simp: ready_fds_def)

lemma select_set_zero:
  assumes "four_words fds" "255 \<le> length (fd_table st)"
  shows "\<exists>res'. select_set ops s st clear ev (min n 255) fds (replicate 4 0) num =
      Some (res', num + card (ready_fds ops s st ev n fds)) \<and> length res' = 4 \<and>
    members (Some res') = ready_fds ops s st ev n fds"
proof (cases fds)
  case None
  then show ?thesis
    by (auto simp: select_set_def ready_fds_def members_def)
next
  case (Some ws)
  have l: "length ws = 4" using assms(1) Some by (simp add: four_words_def)
  have s: "set [0 ..< min n 255] \<subseteq> {..<255}" by auto
  obtain r where "select_scan ops s st clear ev ws [0 ..< min n 255] (replicate 4 0, num) =
      Some (r, num + card {i \<in> set [0 ..< min n 255]. has_fd ws i \<and> fd_up ops s st ev i}) \<and> length r = 4 \<and>
      (\<forall>j. has_fd r j = (if j \<notin> set [0 ..< min n 255] then has_fd (replicate 4 0) j
        else if has_fd ws j then fd_up ops s st ev j else \<not> clear \<and> has_fd (replicate 4 0) j))"
    by (rule exE [OF select_scan_Some [OF l assms(2) length_replicate distinct_upt s, of ops s clear ev 0 num]])
  note r = this [THEN conjunct1] this [THEN conjunct2, THEN conjunct1]
    this [THEN conjunct2, THEN conjunct2, rule_format]
  have eq: "{i \<in> set [0 ..< min n 255]. has_fd ws i \<and> fd_up ops s st ev i} = ready_fds ops s st ev n fds"
    by (auto simp: ready_fds_def members_def Some)
  have "has_fd r j \<longleftrightarrow> j < min n 255 \<and> has_fd ws j \<and> fd_up ops s st ev j" if "j < 256" for j
    using has_fd_zero [OF that] unfolding r(3) by (simp only: set_upt) auto
  then have "members (Some r) = ready_fds ops s st ev n fds"
    by (auto simp: members_def ready_fds_def Some)
  then show ?thesis using r(1,2) unfolding eq by (auto simp: select_set_def Some)
qed

text \<open>C27: \<open>pselect\<close> is correct.  A turn returns the number of descriptors, summed over the three
  sets, that were asked for, lie below the limit, are open and answer with the event; the sets
  written back contain exactly these.  It returns when there is one or the deadline has passed,
  and otherwise leaves the caller's sets and its own state as they were.\<close>

theorem pselect_outcome:
  assumes "255 \<le> length (fd_table st)"
    and "four_words (se_read fds)" "four_words (se_write fds)" "four_words (se_except fds)"
  shows "let R = ready_fds ops s st POLLIN n (se_read fds);
             W = ready_fds ops s st POLLOUT n (se_write fds);
             E = ready_fds ops s st POLLERR n (se_except fds);
             k = card R + card W + card E; stop = (0 < k \<or> timeout < ns) in
    \<exists>fds' res'. pselect_turn ops s st n timeout ns fds select_start =
        Some (fds', res', if stop then Ready (Ok k) else Pending) \<and>
      (if stop then members (se_read fds') = R \<and> members (se_write fds') = W \<and> members (se_except fds') = E
       else fds' = fds \<and> res' = select_start)"
proof -
  define R where "R = ready_fds ops s st POLLIN n (se_read fds)"
  define W where "W = ready_fds ops s st POLLOUT n (se_write fds)"
  define E where "E = ready_fds ops s st POLLERR n (se_except fds)"
  obtain r where r: "select_set ops s st True POLLIN (min n 255) (se_read fds) (replicate 4 0) 0 =
      Some (r, card R)" "length r = 4" "members (Some r) = R"
    using select_set_zero [OF assms(2,1), of ops s True POLLIN n 0] unfolding R_def by auto
  obtain w where w: "select_set ops s st False POLLOUT (min n 255) (se_write fds) (replicate 4 0) (card R) =
      Some (w, card R + card W)" "length w = 4" "members (Some w) = W"
    using select_set_zero [OF assms(3,1), of ops s False POLLOUT n "card R"] unfolding W_def by auto
  obtain e where e: "select_set ops s st False POLLERR (min n 255) (se_except fds) (replicate 4 0)
      (card R + card W) = Some (e, card R + card W + card E)" "length e = 4" "members (Some e) = E"
    using select_set_zero [OF assms(4,1), of ops s False POLLERR n "card R + card W"] unfolding E_def by auto
  let ?res = "\<lparr> sr_read = r, sr_write = w, sr_except = e \<rparr>" and ?k = "card R + card W + card E"
  have turn: "pselect_turn ops s st n timeout ns fds select_start =
      (if ?k \<noteq> 0 then Some (copy_back fds ?res, ?res, Ready (Ok ?k))
       else if ns > timeout then Some (copy_back fds ?res, ?res, Ready (Ok 0))
       else Some (fds, ?res, Pending))"
    using r(1) w(1) e(1)
    by (simp only: pselect_turn_def Let_def select_start_def select_results.simps Option.bind.bind_lunit split_conv)
  have none: "ready_fds ops s st ev n None = {}" for ev by (simp add: ready_fds_def members_def)
  have copied: "members (se_read (copy_back fds ?res)) = R" "members (se_write (copy_back fds ?res)) = W"
      "members (se_except (copy_back fds ?res)) = E"
    using r(3) w(3) e(3) none
    by (cases "se_read fds"; cases "se_write fds"; cases "se_except fds";
        simp add: copy_back_def R_def W_def E_def; simp add: members_def)+
  have "?res = select_start" if "?k = 0"
  proof -
    have "R = {}" "W = {}" "E = {}" using that unfolding R_def W_def E_def by simp_all
    then show ?thesis
      using four_words_zero [OF r(2)] four_words_zero [OF w(2)] four_words_zero [OF e(2)] r(3) w(3) e(3)
      by (simp add: select_start_def)
  qed
  then show ?thesis using copied
    unfolding R_def [symmetric] W_def [symmetric] E_def [symmetric] by (auto simp: turn Let_def)
qed

theorem pselect_outcome_witness:
  "\<exists>fds' res'. pselect_turn pipe_ops \<lparr> pp_queue = [7], pp_senders = 1 \<rparr>
       ((demo_fds 255)\<lparr>fd_table := Some 0 # replicate 254 None\<rparr>) 1 0 1
       \<lparr> se_read = Some [1, 0, 0, 0], se_write = None, se_except = None \<rparr> select_start =
     Some (fds', res', Ready (Ok 1)) \<and> members (se_read fds') = {0}"
proof -
  let ?st = "(demo_fds 255)\<lparr>fd_table := Some 0 # replicate 254 None\<rparr>"
    and ?p = "\<lparr> pp_queue = [7 :: u8], pp_senders = 1 \<rparr>"
    and ?fds = "\<lparr> se_read = Some [1, 0, 0, 0], se_write = None, se_except = None \<rparr>"
  have "fd_up pipe_ops ?p ?st POLLIN 0"
    by (simp add: fd_up_def pipe_ops_def default_ops_def pipe_receiver_poll_def contains_def)
  moreover have "members (Some [1, 0, 0, 0]) = {0}"
  proof -
    have "has_fd [1, 0, 0, 0] i \<longleftrightarrow> i = 0" if "i < 256" for i
    proof -
      have "i div 64 < 4" using that by (rule index_4)
      then have "i div 64 = 0 \<or> i div 64 = 1 \<or> i div 64 = 2 \<or> i div 64 = 3" by linarith
      then show ?thesis by (auto simp: has_fd_def bit_1_iff)
    qed
    then show ?thesis by (auto simp: members_def)
  qed
  ultimately have R: "ready_fds pipe_ops ?p ?st POLLIN 1 (se_read ?fds) = {0}"
    by (auto simp: ready_fds_def)
  have "ready_fds pipe_ops ?p ?st ev 1 None = {}" for ev by (simp add: ready_fds_def members_def)
  with R have n: "ready_fds pipe_ops ?p ?st POLLIN 1 (se_read ?fds) = {0}"
      "ready_fds pipe_ops ?p ?st POLLOUT 1 (se_write ?fds) = {}"
      "ready_fds pipe_ops ?p ?st POLLERR 1 (se_except ?fds) = {}" by simp_all
  have "255 \<le> length (fd_table ?st)" "four_words (se_read ?fds)" "four_words (se_write ?fds)"
      "four_words (se_except ?fds)" by (simp_all add: four_words_def)
  from pselect_outcome [OF this, of pipe_ops ?p 1 0 1, unfolded n Let_def]
  show ?thesis by auto
qed

end
