(* ===== verification/FileStat.thy ===== *)
theory FileStat
  imports FdTable
begin

unbundle bit_operations_syntax

text \<open>
  File status and the calls on names: \<open>Stat\<close> of \<open>filesystem/vfscore/src/lib.rs\<close>, the remaining methods
  of an inode, their implementation by the RAM file system (\<open>filesystem/ramfs/src/lib.rs\<close>) and the calls
  \<open>fstat\<close>, \<open>fstatat\<close>, \<open>statx\<close>, \<open>statfs\<close>, \<open>utimensat\<close>, \<open>readlinkat\<close>, \<open>symlinkat\<close>, \<open>linkat\<close>, \<open>mount\<close>,
  \<open>umount2\<close>, \<open>umask\<close>, \<open>sync\<close> and those that change modes and owners (\<open>kernel/src/syscall/fd.rs\<close>).

  \<^item> \<open>name_ops\<close> are the methods of an inode beyond \<open>inode_ops\<close>, which those calls use.
  \<^item> A method that fills a structure of the caller gets the old contents and returns the new ones; the
    calls return what they store in user memory as the value of their result, and 0 to the user.
\<close>

section \<open>File status\<close>

record file_stat =
  st_dev :: u64
  st_ino :: usize
  st_mode :: "32 word"
  st_nlink :: usize
  st_uid :: usize
  st_gid :: usize
  st_rdev :: u64
  st_size :: usize
  st_blksize :: usize
  st_blocks :: usize
  st_atime :: time_spec
  st_mtime :: time_spec
  st_ctime :: time_spec

abbreviation time_zero :: time_spec where "time_zero \<equiv> \<lparr>ts_sec = 0, ts_nsec = 0\<rparr>"

definition stat_default :: file_stat where
  "stat_default = \<lparr>st_dev = 0, st_ino = 0, st_mode = 0, st_nlink = 0, st_uid = 0, st_gid = 0, st_rdev = 0, st_size = 0,
     st_blksize = 0, st_blocks = 0, st_atime = time_zero, st_mtime = time_zero, st_ctime = time_zero\<rparr>"

abbreviation MODE_CHAR :: "32 word" where "MODE_CHAR \<equiv> 0x2000"
abbreviation MODE_DIR :: "32 word" where "MODE_DIR \<equiv> 0x4000"
abbreviation MODE_FILE :: "32 word" where "MODE_FILE \<equiv> 0x8000"
abbreviation MODE_LINK :: "32 word" where "MODE_LINK \<equiv> 0xA000"
abbreviation OWNER_MASK :: "32 word" where "OWNER_MASK \<equiv> 0x1C0"
abbreviation O_NOFOLLOW :: open_flags where "O_NOFOLLOW \<equiv> 131072"

record stat_fs =
  sf_type :: usize
  sf_bsize :: usize
  sf_blocks :: usize
  sf_bfree :: usize
  sf_bavail :: usize
  sf_files :: usize
  sf_ffree :: usize
  sf_fsid :: usize
  sf_namelen :: usize

record ('s, 'n) name_ops =
  io_mkdir :: "'s \<Rightarrow> 'n \<Rightarrow> string \<Rightarrow> 's \<times> unit res"
  io_stat :: "'s \<Rightarrow> 'n \<Rightarrow> file_stat \<Rightarrow> file_stat res"
  io_statfs :: "'s \<Rightarrow> 'n \<Rightarrow> stat_fs \<Rightarrow> stat_fs res"
  io_utimes :: "'s \<Rightarrow> 'n \<Rightarrow> time_spec list \<Rightarrow> ('s \<times> unit res) run"
  io_resolve_link :: "'s \<Rightarrow> 'n \<Rightarrow> string res"
  io_symlink :: "'s \<Rightarrow> 'n \<Rightarrow> string \<Rightarrow> string \<Rightarrow> 's \<times> unit res"
  io_mount :: "'s \<Rightarrow> 'n \<Rightarrow> string \<Rightarrow> 's \<times> unit res"
  io_umount :: "'s \<Rightarrow> 'n \<Rightarrow> 's \<times> unit res"

definition default_names :: "('s, 'n) name_ops" where
  "default_names =
     \<lparr>io_mkdir = \<lambda>s n name. (s, Err EEXIST), io_stat = \<lambda>s n stat. Err EPERM, io_statfs = \<lambda>s n f. Err EPERM,
      io_utimes = \<lambda>s n tms. Some (s, Err EPERM), io_resolve_link = \<lambda>s n. Err EPERM,
      io_symlink = \<lambda>s n name target. (s, Err EPERM), io_mount = \<lambda>s n path. (s, Err EPERM), io_umount = \<lambda>s n. (s, Err EPERM)\<rparr>"

section \<open>The RAM file system\<close>

text \<open>The inode number of a link is the address of its node, \<open>addr\<close>.\<close>

definition rd_stat :: "file_stat \<Rightarrow> file_stat res" where
  "rd_stat stat =
     Ok (stat\<lparr>st_ino := 1, st_mode := MODE_DIR, st_nlink := 1, st_uid := 0, st_gid := 0, st_size := 0, st_blksize := 512,
       st_blocks := 0, st_rdev := 0, st_mtime := time_zero, st_atime := time_zero, st_ctime := time_zero\<rparr>)"

definition rf_stat :: "ram_file \<Rightarrow> file_stat \<Rightarrow> file_stat res" where
  "rf_stat f stat =
     res_bind (case vec_get (rf_times f) 1 of None \<Rightarrow> Panic | Some a \<Rightarrow> Ok a) (\<lambda>atime.
     res_bind (case vec_get (rf_times f) 2 of None \<Rightarrow> Panic | Some m \<Rightarrow> Ok m) (\<lambda>mtime.
     Ok (stat\<lparr>st_ino := if suffix ''.s'' (rf_name f) then 2 else 1, st_mode := MODE_FILE, st_nlink := 1, st_uid := 0,
       st_gid := 0, st_size := rf_len f, st_blksize := 512, st_blocks := 0, st_rdev := 0, st_atime := atime, st_mtime := mtime\<rparr>)))"

definition rl_stat :: "usize \<Rightarrow> file_stat \<Rightarrow> file_stat res" where
  "rl_stat addr stat =
     Ok (stat\<lparr>st_ino := addr, st_blksize := 4096, st_blocks := 8, st_size := 3, st_uid := 0, st_gid := 0, st_mode := MODE_LINK\<rparr>)"

definition ram_stat :: "(inode \<Rightarrow> usize) \<Rightarrow> ram_fs \<Rightarrow> inode \<Rightarrow> file_stat \<Rightarrow> file_stat res" where
  "ram_stat addr fs n stat =
     (case n of IDir d \<Rightarrow> rd_stat stat | IFile i \<Rightarrow> rf_stat (fs_files fs ! i) stat | ILink name t \<Rightarrow> rl_stat (addr n) stat)"

definition ram_utimes :: "ram_fs \<Rightarrow> inode \<Rightarrow> time_spec list \<Rightarrow> (ram_fs \<times> unit res) run" where
  "ram_utimes fs n tms =
     (case n of
        IFile i \<Rightarrow> map_option (\<lambda>f. (fs\<lparr>fs_files := (fs_files fs)[i := f]\<rparr>, Ok ())) (rf_utimes (fs_files fs ! i) tms)
      | _ \<Rightarrow> Some (fs, Err EPERM))"

definition ram_names :: "(inode \<Rightarrow> usize) \<Rightarrow> (phys \<times> ram_fs, inode) name_ops" where
  "ram_names addr = default_names\<lparr>
       io_mkdir := \<lambda>(ph, fs) n name.
         (case n of IDir d \<Rightarrow> (case rd_mkdir fs d name of (fs, r) \<Rightarrow> ((ph, fs), r)) | _ \<Rightarrow> ((ph, fs), Err EEXIST)),
       io_stat := \<lambda>(ph, fs) n stat. ram_stat addr fs n stat,
       io_utimes := \<lambda>(ph, fs) n tms. map_option (\<lambda>(fs, r). ((ph, fs), r)) (ram_utimes fs n tms)\<rparr>"

section \<open>Status calls\<close>

definition file_stat_of :: "('s, 'n) name_ops \<Rightarrow> 's \<Rightarrow> 'n open_file \<Rightarrow> file_stat \<Rightarrow> file_stat res" where
  "file_stat_of nops s f stat = res_bind (io_stat nops s (of_inner f) stat) (\<lambda>stat. Ok (stat\<lparr>st_dev := 0\<rparr>))"

definition file_size :: "('s, 'n) name_ops \<Rightarrow> 's \<Rightarrow> 'n open_file \<Rightarrow> usize res" where
  "file_size nops s f = res_bind (io_stat nops s (of_inner f) stat_default) (\<lambda>stat. Ok (st_size stat))"

definition file_type_of :: "('s, 'n) name_ops \<Rightarrow> 's \<Rightarrow> 'n open_file \<Rightarrow> file_type res" where
  "file_type_of nops s f =
     res_bind (io_stat nops s (of_inner f) stat_default) (\<lambda>stat.
       case file_type_of_mode (st_mode stat) of None \<Rightarrow> Panic | Some t \<Rightarrow> Ok t)"

definition sys_fstat :: "('s, 'n) name_ops \<Rightarrow> 's \<Rightarrow> ('n, 'm) fd_state_scheme \<Rightarrow> usize \<Rightarrow> file_stat res" where
  "sys_fstat nops s st fd = res_bind (fetch st fd EBADF) (\<lambda>h. file_stat_of nops s (deref st h) stat_default)"

definition sys_fstatat ::
  "('s, 'n) inode_ops \<Rightarrow> ('s, 'n) name_ops \<Rightarrow> 'n mounts \<Rightarrow> 's \<Rightarrow> ('n, 'm) fd_state_scheme \<Rightarrow> int \<Rightarrow> string option \<Rightarrow> file_stat
   \<Rightarrow> 's \<times> file_stat res" where
  "sys_fstatat ops nops mt s st dir_fd path stat =
     sbind (s, cstr path) (\<lambda>s path.
     sbind (fd_open ops mt s st dir_fd path O_RDONLY) (\<lambda>s f.
     (s, res_bind (file_stat_of nops s f stat) (\<lambda>stat. Ok (stat\<lparr>st_mode := st_mode stat OR OWNER_MASK\<rparr>)))))"

definition sys_statfs ::
  "('s, 'n) inode_ops \<Rightarrow> ('s, 'n) name_ops \<Rightarrow> 'n mounts \<Rightarrow> 's \<Rightarrow> string option \<Rightarrow> stat_fs \<Rightarrow> 's \<times> stat_fs res" where
  "sys_statfs ops nops mt s path sf =
     sbind (s, cstr path) (\<lambda>s path.
     sbind (open_path ops mt s (path_from path) O_RDONLY) (\<lambda>s f. (s, io_statfs nops s (of_inner f) sf)))"

text \<open>\<open>statx\<close>: the times are cut to their widths, the device numbers are split.\<close>

record statx_time =
  sx_sec :: int
  sx_nsec :: "32 word"

record statx =
  stx_mask :: "32 word"
  stx_blksize :: usize
  stx_nlink :: usize
  stx_uid :: usize
  stx_gid :: usize
  stx_mode :: "16 word"
  stx_ino :: usize
  stx_size :: usize
  stx_blocks :: usize
  stx_atime :: statx_time
  stx_btime :: statx_time
  stx_ctime :: statx_time
  stx_mtime :: statx_time
  stx_rdev :: "32 word \<times> 32 word"
  stx_dev :: "32 word \<times> 32 word"

definition statx_time_of :: "time_spec \<Rightarrow> statx_time" where
  "statx_time_of t = \<lparr>sx_sec = as_isize (ts_sec t), sx_nsec = of_nat (ts_nsec t)\<rparr>"

definition dev_major :: "u64 \<Rightarrow> 32 word" where
  "dev_major dev = ucast (drop_bit 8 dev AND 0xfff) OR ucast (drop_bit 32 dev AND NOT 0xfff)"

definition dev_minor :: "u64 \<Rightarrow> 32 word" where
  "dev_minor dev = ucast (dev AND 0xff) OR ucast (drop_bit 12 dev AND NOT 0xff)"

definition statx_of :: "file_stat \<Rightarrow> statx" where
  "statx_of stat =
     \<lparr>stx_mask = 0xfff, stx_blksize = st_blksize stat, stx_nlink = st_nlink stat, stx_uid = st_uid stat, stx_gid = st_gid stat,
      stx_mode = ucast (st_mode stat), stx_ino = st_ino stat, stx_size = st_size stat, stx_blocks = st_blocks stat,
      stx_atime = statx_time_of (st_atime stat), stx_btime = statx_time_of (st_ctime stat),
      stx_ctime = statx_time_of (st_ctime stat), stx_mtime = statx_time_of (st_mtime stat),
      stx_rdev = (dev_major (st_rdev stat), dev_minor (st_rdev stat)), stx_dev = (dev_major (st_dev stat), dev_minor (st_dev stat))\<rparr>"

definition sys_statx ::
  "('s, 'n) inode_ops \<Rightarrow> ('s, 'n) name_ops \<Rightarrow> 'n mounts \<Rightarrow> 's \<Rightarrow> ('n, 'm) fd_state_scheme \<Rightarrow> int \<Rightarrow> string option
   \<Rightarrow> 's \<times> statx res" where
  "sys_statx ops nops mt s st dir_fd pathname =
     sbind (s, cstr pathname) (\<lambda>s pathname.
     sbind (fd_open ops mt s st dir_fd pathname O_RDONLY) (\<lambda>s f.
     (s, res_bind (file_stat_of nops s f stat_default) (\<lambda>stat. Ok (statx_of stat)))))"

section \<open>Times\<close>

text \<open>\<open>tms\<close> is the pair behind a valid pointer, \<open>now i\<close> the \<open>i\<close>-th reading of the clock; the outer
  \<open>None\<close> of the path is a null pointer.\<close>

definition build_times :: "(nat \<Rightarrow> time_spec) \<Rightarrow> (time_spec \<times> time_spec) option \<Rightarrow> time_spec list" where
  "build_times now tms =
     (case tms of
        None \<Rightarrow> [now 0, now 1]
      | Some (a, m) \<Rightarrow> [if ts_nsec a = UTIME_NOW then now 0 else a, if ts_nsec m = UTIME_NOW then now 1 else m])"

definition sys_utimensat ::
  "('s, 'n) inode_ops \<Rightarrow> ('s, 'n) name_ops \<Rightarrow> 'n mounts \<Rightarrow> (nat \<Rightarrow> time_spec) \<Rightarrow> 's \<Rightarrow> ('n, 'm) fd_state_scheme \<Rightarrow> int
   \<Rightarrow> string option option \<Rightarrow> (time_spec \<times> time_spec) option \<Rightarrow> 's \<times> usize res" where
  "sys_utimensat ops nops mt now s st dir_fd path tms =
     (let times = build_times now tms
      in case path of
           None \<Rightarrow>
             sbind (s, fetch st (nat (dir_fd mod 2 ^ 64)) EBADF) (\<lambda>s h.
             sbind (of_run s (io_utimes nops s (of_inner (deref st h)) times)) (\<lambda>s _. (s, Ok 0)))
         | Some path \<Rightarrow>
             sbind (s, cstr path) (\<lambda>s path.
               if path = ''/dev/null/invalid'' then (s, Ok 0)
               else sbind (fd_open ops mt s st dir_fd path O_RDONLY) (\<lambda>s f.
                    sbind (of_run s (io_utimes nops s (of_inner f) times)) (\<lambda>s _. (s, Ok 0)))))"

section \<open>Links\<close>

text \<open>The link is looked up against the directory, but resolved from the root.\<close>

definition sys_readlinkat ::
  "('s, 'n) inode_ops \<Rightarrow> ('s, 'n) name_ops \<Rightarrow> 'n mounts \<Rightarrow> 's \<Rightarrow> ('n, 'm) fd_state_scheme \<Rightarrow> int \<Rightarrow> string option \<Rightarrow> u8 list
   \<Rightarrow> 's \<times> (u8 list \<times> usize) res" where
  "sys_readlinkat ops nops mt s st dir_fd path buffer =
     sbind (s, cstr path) (\<lambda>s fname.
     sbind (fd_open ops mt s st dir_fd fname O_RDONLY) (\<lambda>s f.
     sbind (s, file_type_of nops s f) (\<lambda>s ftype.
       if ftype \<noteq> FtLink then (s, Err EINVAL)
       else sbind (open_path ops mt s (path_from fname) O_RDONLY) (\<lambda>s f.
            sbind (s, io_resolve_link nops s (of_inner f)) (\<lambda>s file_path.
              (let bytes = map of_char file_path; rlen = min (length bytes) (length buffer)
               in (s, Ok (take rlen bytes @ drop rlen buffer, rlen))))))))"

definition sys_symlinkat ::
  "('s, 'n) inode_ops \<Rightarrow> ('s, 'n) name_ops \<Rightarrow> 'n mounts \<Rightarrow> 's \<Rightarrow> ('n, 'm) fd_state_scheme \<Rightarrow> string option \<Rightarrow> int
   \<Rightarrow> string option \<Rightarrow> 's \<times> usize res" where
  "sys_symlinkat ops nops mt s st target newdir_fd linkpath =
     sbind (s, cstr target) (\<lambda>s target.
     sbind (s, cstr linkpath) (\<lambda>s linkpath.
     sbind (s, fd_resolve st newdir_fd linkpath) (\<lambda>s file.
     sbind (open_path ops mt s (path_dir file) O_DIRECTORY) (\<lambda>s dir.
     sbind (io_symlink nops s (of_inner dir) (path_filename file) target) (\<lambda>s _. (s, Ok 0))))))"

definition sys_linkat ::
  "('s, 'n) inode_ops \<Rightarrow> 'n mounts \<Rightarrow> 's \<Rightarrow> ('n, 'm) fd_state_scheme \<Rightarrow> int \<Rightarrow> string option \<Rightarrow> int \<Rightarrow> string option
   \<Rightarrow> 's \<times> usize res" where
  "sys_linkat ops mt s st olddirfd oldpath newdirfd newpath =
     sbind (s, cstr oldpath) (\<lambda>s oldpath.
     sbind (s, cstr newpath) (\<lambda>s newpath.
     sbind (fd_open ops mt s st olddirfd oldpath O_RDONLY) (\<lambda>s _. (s, Ok 0))))"

section \<open>Mounting\<close>

text \<open>Every failure behind the string arguments and the root directory is reported as success.\<close>

definition sys_mount ::
  "('s, 'n) inode_ops \<Rightarrow> ('s, 'n) name_ops \<Rightarrow> 'n mounts \<Rightarrow> 's \<Rightarrow> string option \<Rightarrow> string option \<Rightarrow> string option \<Rightarrow> 's \<times> usize res"
where
  "sys_mount ops nops mt s special dir fstype =
     sbind (s, cstr special) (\<lambda>s special.
     sbind (s, cstr dir) (\<lambda>s dir.
     sbind (s, cstr fstype) (\<lambda>s fstype.
     sbind (if dir = [] then (s, Ok ())
            else sbind (open_path ops mt s [] O_RDONLY) (\<lambda>s parent.
                   (case io_mkdir nops s (of_inner parent) (dropWhile (\<lambda>c. c = CHR ''/'') dir) of
                      (s, Panic) \<Rightarrow> (s, Panic) | (s, _) \<Rightarrow> (s, Ok ())))) (\<lambda>s _.
       if fstype \<in> {''tmpfs'', ''ramfs'', ''proc'', ''sysfs'', ''devtmpfs''} then (s, Ok 0)
       else if special = [] \<or> special = ''none'' then (s, Ok 0)
       else (case open_path ops mt s (path_from special) O_RDONLY of
               (s, Panic) \<Rightarrow> (s, Panic)
             | (s, Err _) \<Rightarrow> (s, Ok 0)
             | (s, Ok dev_node) \<Rightarrow>
                 (case io_mount nops s (of_inner dev_node) dir of (s, Panic) \<Rightarrow> (s, Panic) | (s, _) \<Rightarrow> (s, Ok 0)))))))"

definition sys_umount2 ::
  "('s, 'n) inode_ops \<Rightarrow> ('s, 'n) name_ops \<Rightarrow> 'n mounts \<Rightarrow> 's \<Rightarrow> string option \<Rightarrow> ('s \<times> 'n mounts) \<times> usize res" where
  "sys_umount2 ops nops mt s special =
     sbind ((s, mt), cstr special) (\<lambda>(s, mt) special.
       if special = [] then ((s, mt), Err EINVAL)
       else if prefix ''/dev'' special then
         (case open_path ops mt s (path_from special) O_RDONLY of
            (s, Panic) \<Rightarrow> ((s, mt), Panic)
          | (s, Err _) \<Rightarrow> ((s, mt), Ok 0)
          | (s, Ok dev) \<Rightarrow> (case io_umount nops s (of_inner dev) of (s, Panic) \<Rightarrow> ((s, mt), Panic) | (s, _) \<Rightarrow> ((s, mt), Ok 0)))
       else (case umount mt (path_from special) of Ok mt \<Rightarrow> ((s, mt), Ok 0) | _ \<Rightarrow> ((s, mt), Ok 0)))"

section \<open>Modes, owners and synchronisation\<close>

definition sys_umask :: "usize \<Rightarrow> usize \<Rightarrow> usize \<times> usize res" where
  "sys_umask umask msk = (unat ((word_of_nat msk :: u64) AND 0x1FF), Ok umask)"

text \<open>\<open>fchmodat\<close>, \<open>chown\<close>, \<open>lchown\<close> and \<open>fchownat\<close> only check that the file is there.\<close>

definition check_exists ::
  "('s, 'n) inode_ops \<Rightarrow> 'n mounts \<Rightarrow> 's \<Rightarrow> ('n, 'm) fd_state_scheme \<Rightarrow> int \<Rightarrow> string option \<Rightarrow> open_flags \<Rightarrow> 's \<times> usize res" where
  "check_exists ops mt s st dir_fd path flags =
     sbind (s, cstr path) (\<lambda>s path.
     sbind (fd_open ops mt s st dir_fd path flags) (\<lambda>s _. (s, Ok 0)))"

definition sys_fchmodat ::
  "('s, 'n) inode_ops \<Rightarrow> 'n mounts \<Rightarrow> 's \<Rightarrow> ('n, 'm) fd_state_scheme \<Rightarrow> int \<Rightarrow> string option \<Rightarrow> usize \<Rightarrow> usize \<Rightarrow> 's \<times> usize res" where
  "sys_fchmodat ops mt s st dir_fd path mode flags = check_exists ops mt s st dir_fd path O_RDONLY"

definition sys_chown ::
  "('s, 'n) inode_ops \<Rightarrow> 'n mounts \<Rightarrow> 's \<Rightarrow> ('n, 'm) fd_state_scheme \<Rightarrow> string option \<Rightarrow> usize \<Rightarrow> usize \<Rightarrow> 's \<times> usize res" where
  "sys_chown ops mt s st path owner grp = check_exists ops mt s st AT_CWD path O_RDONLY"

definition sys_fchown :: "('n, 'm) fd_state_scheme \<Rightarrow> usize \<Rightarrow> usize \<Rightarrow> usize \<Rightarrow> usize res" where
  "sys_fchown st fd owner grp = res_bind (fetch st fd EBADF) (\<lambda>_. Ok 0)"

definition sys_lchown ::
  "('s, 'n) inode_ops \<Rightarrow> 'n mounts \<Rightarrow> 's \<Rightarrow> ('n, 'm) fd_state_scheme \<Rightarrow> string option \<Rightarrow> usize \<Rightarrow> usize \<Rightarrow> 's \<times> usize res" where
  "sys_lchown ops mt s st path owner grp = check_exists ops mt s st AT_CWD path (O_RDONLY OR O_NOFOLLOW)"

definition sys_fchownat ::
  "('s, 'n) inode_ops \<Rightarrow> 'n mounts \<Rightarrow> 's \<Rightarrow> ('n, 'm) fd_state_scheme \<Rightarrow> int \<Rightarrow> string option \<Rightarrow> usize \<Rightarrow> usize \<Rightarrow> usize
   \<Rightarrow> 's \<times> usize res" where
  "sys_fchownat ops mt s st dir_fd path owner grp flags =
     check_exists ops mt s st dir_fd path
       (if (word_of_nat flags :: u64) AND 0x100 \<noteq> 0 then O_RDONLY OR O_NOFOLLOW else O_RDONLY)"

definition sys_fdatasync :: "('n, 'm) fd_state_scheme \<Rightarrow> usize \<Rightarrow> usize res" where
  "sys_fdatasync st fd = res_bind (fetch st fd EBADF) (\<lambda>_. Ok 0)"

text \<open>\<open>sync\<close> looks at the first 256 descriptors.\<close>

definition sys_sync :: "('n, 'm) fd_state_scheme \<Rightarrow> usize res" where
  "sys_sync st = (if list_ex (\<lambda>fd. get_fd st fd = None) [0 ..< 256] then Panic else Ok 0)"

section \<open>Device numbers\<close>

text \<open>The layout of a device number: eight low bits of the minor number, twelve of the major number,
  the other 24 of the minor number, the other 20 of the major number.\<close>

definition make_dev :: "32 word \<Rightarrow> 32 word \<Rightarrow> u64" where
  "make_dev major minor =
     ucast (minor AND mask 8) OR push_bit 8 (ucast (major AND mask 12)) OR
     push_bit 12 (ucast (minor AND NOT (mask 8))) OR push_bit 32 (ucast (major AND NOT (mask 12)))"

lemma low_masks: "(0xff :: u64) = mask 8" "(0xfff :: u64) = mask 12"
  by (simp_all add: mask_eq_exp_minus_1)

lemma bit_dev_major: "bit (dev_major d) n \<longleftrightarrow> n < 32 \<and> bit d (if n < 12 then n + 8 else n + 32)"
  unfolding dev_major_def low_masks
  by (cases "n < 12"; cases "n < 32") (simp_all add: bit_or_iff bit_and_iff bit_not_iff bit_mask_iff bit_unsigned_iff bit_drop_bit_eq add.commute)

lemma bit_dev_minor: "bit (dev_minor d) n \<longleftrightarrow> n < 32 \<and> bit d (if n < 8 then n else n + 12)"
  unfolding dev_minor_def low_masks
  by (cases "n < 8"; cases "n < 32") (simp_all add: bit_or_iff bit_and_iff bit_not_iff bit_mask_iff bit_unsigned_iff bit_drop_bit_eq add.commute)

lemma bit_make_dev: "bit (make_dev a b) n \<longleftrightarrow> n < 64 \<and>
  (if n < 8 then bit b n else if n < 20 then bit a (n - 8) else if n < 44 then bit b (n - 12) else bit a (n - 32))"
proof -
  consider "n < 8" | "8 \<le> n" "n < 20" | "20 \<le> n" "n < 44" | "44 \<le> n" "n < 64" | "64 \<le> n" by linarith
  then show ?thesis
    unfolding make_dev_def
    by cases (auto simp: bit_or_iff bit_and_iff bit_not_iff bit_mask_iff bit_unsigned_iff bit_push_bit_iff dest: bit_imp_le_length)
qed

text \<open>\<open>statx\<close> splits a device number into its major and minor part without loss: the parts
  determine the number, and every pair of parts is that of a number.\<close>

theorem device_numbers_roundtrip:
  "make_dev (dev_major d) (dev_minor d) = d \<and> dev_major (make_dev a b) = a \<and> dev_minor (make_dev a b) = b"
proof (intro conjI)
  show "make_dev (dev_major d) (dev_minor d) = d"
  proof (rule bit_word_eqI)
    fix n assume "n < LENGTH(64)"
    then consider "n < 8" | "8 \<le> n" "n < 20" | "20 \<le> n" "n < 44" | "44 \<le> n" "n < 64" by fastforce
    then show "bit (make_dev (dev_major d) (dev_minor d)) n = bit d n"
      by cases (auto simp: bit_make_dev bit_dev_major bit_dev_minor)
  qed
  show "dev_major (make_dev a b) = a" "dev_minor (make_dev a b) = b"
    by (rule bit_word_eqI; simp add: bit_make_dev bit_dev_major bit_dev_minor)+
qed

section \<open>The two ways to a type and a size\<close>

definition times_ok :: "ram_fs \<Rightarrow> bool" where
  "times_ok fs \<longleftrightarrow> (\<forall>f\<in>set (fs_files fs). length (rf_times f) = 3)"

lemma ram_stat_file:
  assumes "i < length (fs_files fs)" "times_ok fs"
  shows "ram_stat addr fs (IFile i) stat =
    Ok (stat\<lparr>st_ino := if suffix ''.s'' (rf_name (fs_files fs ! i)) then 2 else 1, st_mode := MODE_FILE, st_nlink := 1, st_uid := 0,
      st_gid := 0, st_size := rf_len (fs_files fs ! i), st_blksize := 512, st_blocks := 0, st_rdev := 0,
      st_atime := rf_times (fs_files fs ! i) ! 1, st_mtime := rf_times (fs_files fs ! i) ! 2\<rparr>)"
  using assms by (simp add: ram_stat_def rf_stat_def times_ok_def vec_get_def)


section \<open>Times\<close>

lemma walk_dirs:
  assumes "fs_dirs fs' = fs_dirs fs"
  shows "walk (io_lookup ram_ops) (ph', fs') n p = walk (io_lookup ram_ops) (ph, fs) n p"
proof -
  have "io_lookup ram_ops (ph', fs') = io_lookup ram_ops (ph, fs)"
    using assms by (intro ext, rename_tac m x, case_tac m) (simp_all add: ram_ops_def rd_lookup_def)
  then show ?thesis by (induction p arbitrary: n) simp_all
qed

lemma ram_io_lookup_dirs: "fs_dirs fs' = fs_dirs fs \<Longrightarrow> io_lookup ram_ops (ph', fs') = io_lookup ram_ops (ph, fs)"
  by (intro ext, rename_tac m x, case_tac m) (simp_all add: ram_ops_def rd_lookup_def)

lemma fd_open_reads:
  assumes "fs_dirs fs' = fs_dirs fs"
  shows "fd_open ram_ops mt (ph', fs') st dir_fd path O_RDONLY = ((ph', fs'), snd (fd_open ram_ops mt (ph, fs) st dir_fd path O_RDONLY))"
proof -
  have "\<not> flags_contain O_RDONLY O_CREAT" by (simp add: flags_contain_def)
  moreover note walk_dirs [OF assms, of ph' _ _ ph] ram_io_lookup_dirs [OF assms, of ph' ph]
  ultimately show ?thesis
    by (auto simp: fd_open_def open_path_def file_open_def Let_def split: option.splits res.splits)
qed


section \<open>Unmounting the root\<close>

text \<open>\<open>umount2\<close> of the root is granted to everyone, and afterwards the kernel panics on every path
  that lies under no other mount point.\<close>

theorem umount_root_panics:
  assumes "\<forall>(mp, fs)\<in>set mt. mp \<noteq> [] \<longrightarrow> \<not> prefix mp path"
  shows "\<exists>mt'. sys_umount2 ops nops mt s (Some ''/'') = ((s, mt'), Ok 0) \<and> open_path ops mt' s path flags = (s, Panic)"
proof -
  let ?mt = "filter (\<lambda>x. fst x \<noteq> []) mt"
  have "path_from ''/'' = []" by (simp add: path_from_def path_join_def join_step_def)
  then have "sys_umount2 ops nops mt s (Some ''/'') = ((s, ?mt), Ok 0)"
    by (simp add: sys_umount2_def cstr_def umount_def)
  moreover have "find (\<lambda>x. path_starts_with path (fst x)) (rev ?mt) = None"
    using assms by (auto simp: find_None_iff path_starts_with_def)
  ultimately show ?thesis by (simp add: open_path_def file_open_def get_mounted_def)
qed

section \<open>Witnesses\<close>

text \<open>Not part of the kernel: a file system with one file.\<close>

definition one_file :: ram_fs where
  "one_file = \<lparr> fs_dirs = [([], [CFile ''a'' 0])], fs_files = [ram_file_new ''a''] \<rparr>"

lemma one_file_times: "times_ok one_file"
  by (simp add: times_ok_def one_file_def ram_file_new_def)

lemma one_file_open:
  "fd_open ram_ops [([], IDir 0)] (demo_phys, one_file) (demo_fds 3) AT_CWD ''/a'' O_RDONLY =
     ((demo_phys, one_file), Ok \<lparr>of_inner = IFile 0, of_path = [''a''], of_offset = 0, of_flags = O_RDONLY\<rparr>)"
  by (simp add: fd_open_def fd_resolve_def path_from_def path_join_def join_step_def open_path_def file_open_def ram_ops_def
      get_mounted_def path_starts_with_def path_trim_start_def path_levels_def path_dir_def path_filename_def
      flags_contain_def rd_lookup_def one_file_def)



theorem umount_root_panics_witness:
  "\<exists>mt'. sys_umount2 ram_ops (ram_names (\<lambda>_. 0)) [([], IDir 0), ([''tmp''], IDir 1)] (demo_phys, one_file) (Some ''/'') =
     (((demo_phys, one_file), mt'), Ok 0) \<and> open_path ram_ops mt' (demo_phys, one_file) [''bin'', ''sh''] O_RDONLY = ((demo_phys, one_file), Panic)"
  by (rule umount_root_panics) simp

end
