(* ===== verification/DevFs.thy ===== *)
theory DevFs
  imports FileStat
begin

unbundle bit_operations_syntax

text \<open>
  The device file system (\<open>filesystem/devfs/src\<close>) with its terminal, and the process file system
  (\<open>filesystem/procfs/src\<close>), behind the interface of inodes.

  \<^item> The characters the serial line will deliver to \<open>get_char\<close> and those \<open>puts\<close> has sent are part of the
    state; so is the user memory behind an \<open>ioctl\<close> argument, as the values of the structures at an
    address.  A store through a null pointer, where the code makes one, is left to the fault handler.
  \<^item> The terminals are the six \<open>Tty\<close> objects of \<open>DevDir::new\<close>.
  \<^item> A directory is a \<open>BTreeMap\<close> that never changes: its entries are listed in the order of the names.
\<close>

section \<open>The terminal\<close>

record termios =
  tio_iflag :: "32 word"
  tio_oflag :: "32 word"
  tio_cflag :: "32 word"
  tio_lflag :: "32 word"
  tio_line :: u8
  tio_cc :: "u8 list"
  tio_ispeed :: "32 word"
  tio_ospeed :: "32 word"

definition termios_default :: termios where
  "termios_default = \<lparr>tio_iflag = 0x6D02, tio_oflag = 0x5, tio_cflag = 0x4BF, tio_lflag = 0x8A3B, tio_line = 0,
     tio_cc = [3, 28, 127, 21, 4, 0, 1, 0, 17, 19, 26, 255, 18, 15, 23, 22, 255, 0, 0, 0, 0], tio_ispeed = 0, tio_ospeed = 0\<rparr>"

record win_size =
  ws_row :: "16 word"
  ws_col :: "16 word"
  ws_xpixel :: "16 word"
  ws_ypixel :: "16 word"

definition win_size_default :: win_size where
  "win_size_default = \<lparr>ws_row = 24, ws_col = 140, ws_xpixel = 0, ws_ypixel = 0\<rparr>"

record tty =
  tt_buffer :: "u8 list"
  tt_termios :: termios
  tt_pgid :: "32 word"
  tt_winsize :: win_size

definition tty_new :: tty where
  "tty_new = \<lparr>tt_buffer = [], tt_termios = termios_default, tt_pgid = 0, tt_winsize = win_size_default\<rparr>"

datatype tty_cmd = TCGETS | TCSETS | TCSETSW | TCSETSF | TCGETA | TCSETA | TCSETAW | TCSETAF | TIOCGPGRP | TIOCSPGRP
  | TIOCGWINSZ | TIOCSWINSZ | TIOCSCTTY | TIOCNOTTY | TIOCGSID | FIONCLEX | FIOCLEX | FIONBIO | RTC_RD_TIME

definition tty_cmd_from :: "usize \<Rightarrow> tty_cmd option" where
  "tty_cmd_from c = map_of
     [(0x5401, TCGETS), (0x5402, TCSETS), (0x5403, TCSETSW), (0x5404, TCSETSF), (0x5405, TCGETA), (0x5406, TCSETA),
      (0x5407, TCSETAW), (0x5408, TCSETAF), (0x540F, TIOCGPGRP), (0x5410, TIOCSPGRP), (0x5413, TIOCGWINSZ),
      (0x5414, TIOCSWINSZ), (0x540E, TIOCSCTTY), (0x5422, TIOCNOTTY), (0x5429, TIOCGSID), (0x5450, FIONCLEX),
      (0x5451, FIOCLEX), (0x5421, FIONBIO), (0x80247009, RTC_RD_TIME)] c"

text \<open>The structures an \<open>ioctl\<close> finds at a user address.\<close>

record user_arg =
  ua_termios :: termios
  ua_u32 :: "32 word"
  ua_winsize :: win_size
  ua_rtc :: "32 word list"

record dev_state =
  ds_ttys :: "tty list"
  ds_input :: "u8 list"
  ds_output :: "u8 list"
  ds_user :: "usize \<Rightarrow> user_arg"

definition get_char :: "dev_state \<Rightarrow> dev_state \<times> u8 option" where
  "get_char s = (case ds_input s of [] \<Rightarrow> (s, None) | c # cs \<Rightarrow> (s\<lparr>ds_input := cs\<rparr>, Some c))"

definition puts :: "dev_state \<Rightarrow> u8 list \<Rightarrow> dev_state" where
  "puts s buffer = s\<lparr>ds_output := ds_output s @ buffer\<rparr>"

abbreviation tty_of :: "dev_state \<Rightarrow> nat \<Rightarrow> tty" where
  "tty_of s t \<equiv> ds_ttys s ! t"

abbreviation put_tty :: "dev_state \<Rightarrow> nat \<Rightarrow> tty \<Rightarrow> dev_state" where
  "put_tty s t x \<equiv> s\<lparr>ds_ttys := (ds_ttys s)[t := x]\<rparr>"

definition tty_readat :: "dev_state \<Rightarrow> nat \<Rightarrow> u8 list \<Rightarrow> dev_state \<times> u8 list \<times> usize res" where
  "tty_readat s t buffer =
     (if length buffer = 0 then (s, buffer, Panic)
      else if length (tt_buffer (tty_of s t)) > 0
      then (let q = tt_buffer (tty_of s t); rlen = min (length buffer) (length q)
            in (put_tty s t ((tty_of s t)\<lparr>tt_buffer := drop rlen q\<rparr>), slice_set buffer 0 (take rlen q), Ok rlen))
      else (case get_char s of
              (s, Some c) \<Rightarrow> (s, buffer[0 := c], Ok 1)
            | (s, None) \<Rightarrow> (s, buffer, Err EWOULDBLOCK)))"

definition tty_writeat :: "dev_state \<Rightarrow> u8 list \<Rightarrow> dev_state \<times> usize res" where
  "tty_writeat s buffer = (puts s buffer, Ok (length buffer))"

definition tty_poll :: "dev_state \<Rightarrow> nat \<Rightarrow> poll_event \<Rightarrow> dev_state \<times> poll_event" where
  "tty_poll s t events =
     (let (s, res) =
        (if events AND POLLIN = POLLIN then
           (if length (tt_buffer (tty_of s t)) > 0 then (s, POLLIN)
            else (case get_char s of
                    (s, Some c) \<Rightarrow> (put_tty s t ((tty_of s t)\<lparr>tt_buffer := tt_buffer (tty_of s t) @ [c]\<rparr>), POLLIN)
                  | (s, None) \<Rightarrow> (s, 0)))
         else (s, 0))
      in (s, if events AND POLLOUT = POLLOUT then res OR POLLOUT else res))"

definition tty_stat :: "file_stat \<Rightarrow> file_stat res" where
  "tty_stat stat =
     Ok (stat\<lparr>st_dev := 0x500, st_ino := 1, st_mode := MODE_CHAR OR 0x1B6, st_nlink := 1, st_uid := 0, st_gid := 0, st_size := 0,
       st_blksize := 512, st_blocks := 0, st_rdev := 0x500\<rparr>)"

definition tty_ioctl :: "dev_state \<Rightarrow> nat \<Rightarrow> usize \<Rightarrow> usize \<Rightarrow> dev_state \<times> usize res" where
  "tty_ioctl s t command arg =
     (let x = tty_of s t; u = ds_user s arg; store = (\<lambda>u. s\<lparr>ds_user := (ds_user s)(arg := u)\<rparr>)
      in case tty_cmd_from command of
           None \<Rightarrow> (s, Err EINVAL)
         | Some cmd \<Rightarrow>
             if cmd = TCGETS \<or> cmd = TCGETA then (store (u\<lparr>ua_termios := tt_termios x\<rparr>), Ok 0)
             else if cmd = TCSETS \<or> cmd = TCSETSW \<or> cmd = TCSETSF
             then (if arg = 0 then (s, Panic) else (put_tty s t (x\<lparr>tt_termios := ua_termios u\<rparr>), Ok 0))
             else if cmd = TIOCGPGRP then (if arg = 0 then (s, Err EINVAL) else (store (u\<lparr>ua_u32 := tt_pgid x\<rparr>), Ok 0))
             else if cmd = TIOCSPGRP then (if arg = 0 then (s, Err EINVAL) else (put_tty s t (x\<lparr>tt_pgid := ua_u32 u\<rparr>), Ok 0))
             else if cmd = TIOCGWINSZ then (if arg = 0 then (s, Panic) else (store (u\<lparr>ua_winsize := tt_winsize x\<rparr>), Ok 0))
             else if cmd = TIOCSWINSZ then (if arg = 0 then (s, Panic) else (put_tty s t (x\<lparr>tt_winsize := ua_winsize u\<rparr>), Ok 0))
             else if cmd = TIOCSCTTY \<or> cmd = TIOCNOTTY \<or> cmd = FIONCLEX \<or> cmd = FIOCLEX then (s, Ok 0)
             else if cmd = TIOCGSID then (if arg = 0 then (s, Err EINVAL) else (store (u\<lparr>ua_u32 := 1\<rparr>), Ok 0))
             else (s, Err EPERM))"

section \<open>Devices\<close>

datatype dev_node = DevDirContainer | Tty nat | Null | Zero | Shm | Rtc | Urandom | CpuDmaLatency

definition dev_dir_new :: "(string \<times> dev_node) list" where
  "dev_dir_new =
     [(''console'', Tty 5), (''cpu_dma_latency'', CpuDmaLatency), (''null'', Null), (''random'', Urandom), (''rtc'', Rtc),
      (''shm'', Shm), (''stderr'', Tty 1), (''stdin'', Tty 2), (''stdout'', Tty 0), (''tty'', Tty 4), (''ttyv0'', Tty 3),
      (''urandom'', Urandom), (''zero'', Zero)]"

definition dev_state_new :: "(usize \<Rightarrow> user_arg) \<Rightarrow> u8 list \<Rightarrow> dev_state" where
  "dev_state_new user input = \<lparr>ds_ttys = replicate 6 tty_new, ds_input = input, ds_output = [], ds_user = user\<rparr>"

definition dev_lookup :: "dev_node \<Rightarrow> string \<Rightarrow> dev_node res" where
  "dev_lookup n name =
     (case n of
        DevDirContainer \<Rightarrow> (case map_of dev_dir_new name of Some x \<Rightarrow> Ok x | None \<Rightarrow> Err ENOENT)
      | _ \<Rightarrow> Err ENOENT)"

definition dev_read_dir :: "dev_node \<Rightarrow> dir_entry list res" where
  "dev_read_dir n =
     (case n of
        DevDirContainer \<Rightarrow> Ok (map (\<lambda>(name, _). \<lparr>de_filename = name, de_len = 0, de_file_type = FtDevice\<rparr>) dev_dir_new)
      | _ \<Rightarrow> Err EPERM)"

definition dev_dir_stat :: "file_stat \<Rightarrow> file_stat res" where
  "dev_dir_stat stat =
     Ok (stat\<lparr>st_dev := 0, st_ino := 1, st_mode := MODE_DIR, st_nlink := 1, st_uid := 0, st_gid := 0, st_size := 0,
       st_blksize := 512, st_blocks := 0, st_rdev := 0\<rparr>)"

definition null_readat :: "u8 list \<Rightarrow> u8 list \<times> usize res" where
  "null_readat buffer = (buffer, Ok 0)"

definition null_writeat :: "u8 list \<Rightarrow> usize res" where
  "null_writeat buffer = Ok (length buffer)"

definition null_stat :: "file_stat \<Rightarrow> file_stat res" where
  "null_stat stat =
     Ok (stat\<lparr>st_dev := 0x103, st_ino := 1, st_mode := MODE_CHAR OR 0x1B6, st_nlink := 1, st_uid := 0, st_gid := 0, st_size := 0,
       st_blksize := 512, st_blocks := 0, st_rdev := 0x103\<rparr>)"

definition zero_readat :: "u8 list \<Rightarrow> u8 list \<times> usize res" where
  "zero_readat buffer = (replicate (length buffer) 0, Ok (length buffer))"

definition zero_writeat :: "u8 list \<Rightarrow> usize res" where
  "zero_writeat buffer = Ok (length buffer)"

definition zero_stat :: "file_stat \<Rightarrow> file_stat res" where
  "zero_stat stat =
     Ok (stat\<lparr>st_dev := 0, st_ino := 1, st_mode := MODE_CHAR, st_nlink := 1, st_uid := 1000, st_gid := 1000, st_size := 0,
       st_blksize := 512, st_blocks := 0, st_rdev := 0\<rparr>)"

definition urandom_readat :: "u8 list \<Rightarrow> u8 list \<times> usize res" where
  "urandom_readat buffer = (replicate (length buffer) 0, Ok (length buffer))"

definition urandom_writeat :: "u8 list \<Rightarrow> usize res" where
  "urandom_writeat buffer = Ok (length buffer)"

definition urandom_stat :: "file_stat \<Rightarrow> file_stat res" where
  "urandom_stat stat =
     Ok (stat\<lparr>st_dev := 0, st_ino := 1, st_mode := MODE_CHAR, st_nlink := 1, st_uid := 1000, st_gid := 1000, st_size := 0,
       st_blksize := 512, st_blocks := 0, st_rdev := 0\<rparr>)"

definition urandom_poll :: "poll_event \<Rightarrow> poll_event res" where
  "urandom_poll events = Ok (if events AND POLLIN = POLLIN then POLLIN else 0)"

definition cpu_dma_latency_readat :: "u8 list \<Rightarrow> u8 list \<times> usize res" where
  "cpu_dma_latency_readat buffer =
     ((let b = replicate (length buffer) 0 in if length buffer > 1 then b[0 := 1] else b), Ok (length buffer))"

definition cpu_dma_latency_writeat :: "u8 list \<Rightarrow> usize res" where
  "cpu_dma_latency_writeat buffer = Ok (length buffer)"

definition cpu_dma_latency_stat :: "file_stat \<Rightarrow> file_stat res" where
  "cpu_dma_latency_stat stat =
     Ok (stat\<lparr>st_dev := 0, st_ino := 1, st_mode := MODE_CHAR, st_nlink := 1, st_uid := 1000, st_gid := 1000, st_size := 0,
       st_blksize := 512, st_blocks := 0, st_rdev := 0\<rparr>)"

definition rtc_ioctl :: "dev_state \<Rightarrow> usize \<Rightarrow> dev_state \<times> usize res" where
  "rtc_ioctl s arg =
     (if arg = 0 then (s, Panic)
      else (s\<lparr>ds_user := (ds_user s)(arg := (ds_user s arg)\<lparr>ua_rtc := replicate 6 0\<rparr>)\<rparr>, Ok 0))"

definition rtc_stat :: "file_stat \<Rightarrow> file_stat res" where
  "rtc_stat stat =
     Ok (stat\<lparr>st_dev := 0, st_ino := 1, st_mode := MODE_CHAR, st_nlink := 1, st_uid := 1000, st_gid := 1000, st_size := 0,
       st_blksize := 512, st_blocks := 0, st_rdev := 0\<rparr>)"

definition shm_stat :: "file_stat \<Rightarrow> file_stat res" where
  "shm_stat stat =
     Ok (stat\<lparr>st_dev := 0, st_ino := 1, st_mode := MODE_DIR, st_nlink := 1, st_uid := 1000, st_gid := 1000, st_size := 0,
       st_blksize := 512, st_blocks := 0, st_rdev := 0\<rparr>)"

text \<open>A call on an inode is a call of the method of its type; a method the type does not define answers the default of
  \<open>INodeInterface\<close>.\<close>

definition dev_readat :: "dev_state \<Rightarrow> dev_node \<Rightarrow> u8 list \<Rightarrow> dev_state \<times> u8 list \<times> usize res" where
  "dev_readat s n buffer =
     (case n of
        Tty t \<Rightarrow> tty_readat s t buffer
      | Null \<Rightarrow> (s, null_readat buffer)
      | Zero \<Rightarrow> (s, zero_readat buffer)
      | Urandom \<Rightarrow> (s, urandom_readat buffer)
      | CpuDmaLatency \<Rightarrow> (s, cpu_dma_latency_readat buffer)
      | _ \<Rightarrow> (s, buffer, Err ENOENT))"

definition dev_writeat :: "dev_state \<Rightarrow> dev_node \<Rightarrow> u8 list \<Rightarrow> dev_state \<times> usize res" where
  "dev_writeat s n buffer =
     (case n of
        Tty t \<Rightarrow> tty_writeat s buffer
      | Null \<Rightarrow> (s, null_writeat buffer)
      | Zero \<Rightarrow> (s, zero_writeat buffer)
      | Urandom \<Rightarrow> (s, urandom_writeat buffer)
      | CpuDmaLatency \<Rightarrow> (s, cpu_dma_latency_writeat buffer)
      | _ \<Rightarrow> (s, Err ENOENT))"

definition dev_stat :: "dev_node \<Rightarrow> file_stat \<Rightarrow> file_stat res" where
  "dev_stat n stat =
     (case n of
        DevDirContainer \<Rightarrow> dev_dir_stat stat
      | Tty t \<Rightarrow> tty_stat stat
      | Null \<Rightarrow> null_stat stat
      | Zero \<Rightarrow> zero_stat stat
      | Shm \<Rightarrow> shm_stat stat
      | Rtc \<Rightarrow> rtc_stat stat
      | Urandom \<Rightarrow> urandom_stat stat
      | CpuDmaLatency \<Rightarrow> cpu_dma_latency_stat stat)"

text \<open>What a poll answers; that a poll of a terminal moves a character into its buffer is in \<open>tty_poll\<close>.\<close>

definition dev_poll :: "dev_state \<Rightarrow> dev_node \<Rightarrow> poll_event \<Rightarrow> poll_event res" where
  "dev_poll s n events =
     (case n of
        Tty t \<Rightarrow> Ok (snd (tty_poll s t events))
      | Urandom \<Rightarrow> urandom_poll events
      | _ \<Rightarrow> Err EPERM)"

definition dev_ioctl :: "dev_state \<Rightarrow> dev_node \<Rightarrow> usize \<Rightarrow> usize \<Rightarrow> dev_state \<times> usize res" where
  "dev_ioctl s n command arg =
     (case n of Tty t \<Rightarrow> tty_ioctl s t command arg | Rtc \<Rightarrow> rtc_ioctl s arg | _ \<Rightarrow> (s, Err EPERM))"

section \<open>Block device files\<close>

text \<open>An \<open>Sdx\<close> is made with the functions that mount and unmount its device.\<close>

record sdx =
  sdx_device_id :: usize
  sdx_mount_paths :: "string list"

definition sdx_new :: "usize \<Rightarrow> sdx" where
  "sdx_new device_id = \<lparr>sdx_device_id = device_id, sdx_mount_paths = []\<rparr>"

definition sdx_mount :: "(usize \<Rightarrow> string \<Rightarrow> unit res) \<Rightarrow> sdx \<Rightarrow> string \<Rightarrow> sdx \<times> unit res" where
  "sdx_mount mount_fn d path = (d\<lparr>sdx_mount_paths := sdx_mount_paths d @ [path]\<rparr>, mount_fn (sdx_device_id d) path)"

definition sdx_umount :: "(usize \<Rightarrow> string \<Rightarrow> unit res) \<Rightarrow> sdx \<Rightarrow> sdx \<times> unit res" where
  "sdx_umount umount_fn d =
     (if sdx_mount_paths d = [] then (d, Panic)
      else (d\<lparr>sdx_mount_paths := butlast (sdx_mount_paths d)\<rparr>, umount_fn (sdx_device_id d) (last (sdx_mount_paths d))))"

definition sdx_stat :: "file_stat \<Rightarrow> file_stat res" where
  "sdx_stat stat =
     Ok (stat\<lparr>st_dev := 0, st_ino := 1, st_mode := MODE_CHAR, st_nlink := 1, st_uid := 1000, st_gid := 1000, st_size := 0,
       st_blksize := 512, st_blocks := 0, st_rdev := 0\<rparr>)"

section \<open>The process file system\<close>

datatype proc_node = ProcDir | Mounts | MemInfo | Interrupts | Version | ProcStat | CpuInfo

definition proc_dir_new :: "(string \<times> proc_node) list" where
  "proc_dir_new =
     [(''cpuinfo'', CpuInfo), (''interrupts'', Interrupts), (''meminfo'', MemInfo), (''mounts'', Mounts), (''stat'', ProcStat),
      (''version'', Version)]"

definition text_lines :: "string list \<Rightarrow> u8 list" where
  "text_lines ls = map of_char (concat (map (\<lambda>l. l @ [CHR 0x0A]) ls))"

definition cpuinfo_content :: "u8 list" where
  "cpuinfo_content = text_lines
     [''processor'' @ [CHR 0x09] @ '': 0'',
      ''vendor_id'' @ [CHR 0x09] @ '': MonkeyOS'',
      ''cpu family'' @ [CHR 0x09] @ '': 0'',
      ''model'' @ [CHR 0x09] @ [CHR 0x09] @ '': 0'',
      ''model name'' @ [CHR 0x09] @ '': MonkeyOS Virtual CPU'',
      ''stepping'' @ [CHR 0x09] @ '': 0'',
      ''microcode'' @ [CHR 0x09] @ '': 0x1'',
      ''cpu MHz'' @ [CHR 0x09] @ [CHR 0x09] @ '': 1000.000'',
      ''cache size'' @ [CHR 0x09] @ '': 256 KB'',
      ''physical id'' @ [CHR 0x09] @ '': 0'',
      ''siblings'' @ [CHR 0x09] @ '': 1'',
      ''core id'' @ [CHR 0x09] @ [CHR 0x09] @ '': 0'',
      ''cpu cores'' @ [CHR 0x09] @ '': 1'',
      ''apicid'' @ [CHR 0x09] @ [CHR 0x09] @ '': 0'',
      ''initial apicid'' @ [CHR 0x09] @ '': 0'',
      ''fpu'' @ [CHR 0x09] @ [CHR 0x09] @ '': yes'',
      ''fpu_exception'' @ [CHR 0x09] @ '': yes'',
      ''cpuid level'' @ [CHR 0x09] @ '': 1'',
      ''wp'' @ [CHR 0x09] @ [CHR 0x09] @ '': yes'',
      ''flags'' @ [CHR 0x09] @ [CHR 0x09] @ '': fpu de pse tsc msr pae mce cx8 apic sep mtrr pge mca cmov pat pse36 clflush mmx fxsr sse sse2'',
      ''bogomips'' @ [CHR 0x09] @ '': 2000.00'',
      ''clflush size'' @ [CHR 0x09] @ '': 64'',
      ''cache_alignment'' @ [CHR 0x09] @ '': 64'',
      ''address sizes'' @ [CHR 0x09] @ '': 32 bits physical, 32 bits virtual'',
      ''power management:'',
      []]"

definition stat_content :: "u8 list" where
  "stat_content = text_lines
     [''cpu  0 0 0 0 0 0 0 0 0 0'',
      ''cpu0 0 0 0 0 0 0 0 0 0 0'',
      ''intr 0'',
      ''ctxt 0'',
      ''btime 1640995200'',
      ''processes 1'',
      ''procs_running 1'',
      ''procs_blocked 0'',
      ''softirq 0 0 0 0 0 0 0 0 0 0 0'']"

definition version_content :: "u8 list" where
  "version_content = text_lines
     [''Linux version 5.10.0-7-riscv64 (MonkeyOS) (gcc version 9.4.0) #1 SMP PREEMPT Mon Jan 1 00:00:00 UTC 2024'']"

definition meminfo_content :: "u8 list" where
  "meminfo_content = text_lines
     [''MemTotal:        8388608 kB'',
      ''MemFree:         4194304 kB'',
      ''MemAvailable:    6291456 kB'',
      ''Buffers:           65536 kB'',
      ''Cached:          1048576 kB'',
      ''SwapCached:            0 kB'',
      ''Active:          2097152 kB'',
      ''Inactive:         524288 kB'',
      ''Active(anon):    1572864 kB'',
      ''Inactive(anon):   262144 kB'',
      ''Active(file):     524288 kB'',
      ''Inactive(file):   262144 kB'',
      ''Unevictable:           0 kB'',
      ''Mlocked:               0 kB'',
      ''SwapTotal:             0 kB'',
      ''SwapFree:              0 kB'',
      ''Dirty:                 0 kB'',
      ''Writeback:             0 kB'',
      ''AnonPages:       1572864 kB'',
      ''Mapped:           262144 kB'',
      ''Shmem:             65536 kB'',
      ''KReclaimable:     131072 kB'',
      ''Slab:             262144 kB'',
      ''SReclaimable:     131072 kB'',
      ''SUnreclaim:       131072 kB'',
      ''KernelStack:       16384 kB'',
      ''PageTables:        32768 kB'',
      ''NFS_Unstable:          0 kB'',
      ''Bounce:                0 kB'',
      ''WritebackTmp:          0 kB'',
      ''CommitLimit:     4194304 kB'',
      ''Committed_AS:    2097152 kB'',
      ''VmallocTotal:   34359738367 kB'',
      ''VmallocUsed:      131072 kB'',
      ''VmallocChunk:          0 kB'',
      ''Percpu:            65536 kB'',
      ''HardwareCorrupted:     0 kB'',
      ''AnonHugePages:         0 kB'',
      ''ShmemHugePages:        0 kB'',
      ''ShmemPmdMapped:        0 kB'',
      ''FileHugePages:         0 kB'',
      ''FilePmdMapped:         0 kB'',
      ''HugePages_Total:       0'',
      ''HugePages_Free:        0'',
      ''HugePages_Rsvd:        0'',
      ''HugePages_Surp:        0'',
      ''Hugepagesize:       2048 kB'',
      ''Hugetlb:               0 kB'',
      ''DirectMap4k:     2097152 kB'',
      ''DirectMap2M:     6291456 kB'',
      ''DirectMap1G:           0 kB'']"

definition stat_readat :: "usize \<Rightarrow> u8 list \<Rightarrow> u8 list \<times> usize res" where
  "stat_readat offset buffer =
     (let bytes = stat_content
      in if offset \<ge> length bytes then (buffer, Ok 0)
         else (let remaining = length bytes - offset; copy_len = min remaining (length buffer)
               in (slice_set buffer 0 (take copy_len (drop offset bytes)), Ok copy_len)))"

definition version_readat :: "usize \<Rightarrow> u8 list \<Rightarrow> u8 list \<times> usize res" where
  "version_readat offset buffer =
     (let bytes = version_content
      in if offset \<ge> length bytes then (buffer, Ok 0)
         else (let remaining = length bytes - offset; copy_len = min remaining (length buffer)
               in (slice_set buffer 0 (take copy_len (drop offset bytes)), Ok copy_len)))"

definition cpuinfo_readat :: "usize \<Rightarrow> u8 list \<Rightarrow> u8 list \<times> usize res" where
  "cpuinfo_readat offset buffer =
     (let bytes = cpuinfo_content
      in if offset \<ge> length bytes then (buffer, Ok 0)
         else (let remaining = length bytes - offset; copy_len = min remaining (length buffer)
               in (slice_set buffer 0 (take copy_len (drop offset bytes)), Ok copy_len)))"

definition mounts_readat :: "u8 list \<Rightarrow> u8 list \<times> usize res" where
  "mounts_readat buffer = (buffer, Ok 0)"

text \<open>\<open>meminfo\<close> computes the end first.\<close>

definition meminfo_readat :: "usize \<Rightarrow> u8 list \<Rightarrow> u8 list \<times> usize res" where
  "meminfo_readat offset buffer =
     (if offset \<ge> length meminfo_content then (buffer, Ok 0)
      else (let fin = min (wadd offset (length buffer)) (length meminfo_content);
                copy_len = wsub fin offset
            in if copy_len > length buffer \<or> fin < offset then (buffer, Panic)
               else (slice_set buffer 0 (take copy_len (drop offset meminfo_content)), Ok copy_len)))"

text \<open>The text of \<open>interrupts\<close> is empty, and an offset behind it is not looked for.\<close>

definition interrupts_readat :: "usize \<Rightarrow> u8 list \<Rightarrow> u8 list \<times> usize res" where
  "interrupts_readat offset buffer =
     (let rsize = min (wsub 0 offset) (length buffer)
      in if offset > 0 \<or> wadd offset rsize > 0 then (buffer, Panic) else (slice_set buffer 0 [], Ok rsize))"

definition proc_readat :: "proc_node \<Rightarrow> usize \<Rightarrow> u8 list \<Rightarrow> u8 list \<times> usize res" where
  "proc_readat n offset buffer =
     (case n of
        ProcDir \<Rightarrow> (buffer, Err ENOENT)
      | Mounts \<Rightarrow> mounts_readat buffer
      | MemInfo \<Rightarrow> meminfo_readat offset buffer
      | Interrupts \<Rightarrow> interrupts_readat offset buffer
      | Version \<Rightarrow> version_readat offset buffer
      | ProcStat \<Rightarrow> stat_readat offset buffer
      | CpuInfo \<Rightarrow> cpuinfo_readat offset buffer)"

definition proc_content :: "proc_node \<Rightarrow> u8 list" where
  "proc_content n =
     (case n of MemInfo \<Rightarrow> meminfo_content | Version \<Rightarrow> version_content | ProcStat \<Rightarrow> stat_content | CpuInfo \<Rightarrow> cpuinfo_content | _ \<Rightarrow> [])"

definition proc_dir_stat :: "file_stat \<Rightarrow> file_stat res" where
  "proc_dir_stat stat =
     Ok (stat\<lparr>st_dev := 0, st_ino := 1, st_mode := MODE_DIR, st_nlink := 1, st_uid := 0, st_gid := 0,
       st_size := 0, st_blksize := 512, st_blocks := 0, st_rdev := 0\<rparr>)"

definition mounts_stat :: "file_stat \<Rightarrow> file_stat res" where
  "mounts_stat stat =
     Ok (stat\<lparr>st_dev := 0, st_ino := 1, st_mode := MODE_CHAR, st_nlink := 1, st_uid := 1000, st_gid := 1000,
       st_size := 0, st_blksize := 512, st_blocks := 0, st_rdev := 0\<rparr>)"

definition interrupts_stat :: "file_stat \<Rightarrow> file_stat res" where
  "interrupts_stat stat =
     Ok (stat\<lparr>st_dev := 0, st_ino := 1, st_mode := MODE_CHAR, st_nlink := 1, st_uid := 1000, st_gid := 1000,
       st_size := 0, st_blksize := 512, st_blocks := 0, st_rdev := 0\<rparr>)"

definition meminfo_stat :: "file_stat \<Rightarrow> file_stat res" where
  "meminfo_stat stat =
     Ok (stat\<lparr>st_dev := 0, st_ino := 1, st_mode := MODE_CHAR, st_nlink := 1, st_uid := 1000, st_gid := 1000,
       st_size := length meminfo_content, st_blksize := 512, st_blocks := (length meminfo_content + 511) div 512, st_rdev := 0\<rparr>)"

definition version_stat :: "file_stat \<Rightarrow> file_stat res" where
  "version_stat stat =
     Ok (stat\<lparr>st_dev := 0, st_ino := 1, st_mode := MODE_CHAR, st_nlink := 1, st_uid := 1000, st_gid := 1000,
       st_size := length version_content, st_blksize := 512, st_blocks := (length version_content + 511) div 512, st_rdev := 0\<rparr>)"

definition cpuinfo_stat :: "file_stat \<Rightarrow> file_stat res" where
  "cpuinfo_stat stat =
     Ok (stat\<lparr>st_dev := 0, st_ino := 1, st_mode := MODE_CHAR, st_nlink := 1, st_uid := 1000, st_gid := 1000,
       st_size := length cpuinfo_content, st_blksize := 512, st_blocks := (length cpuinfo_content + 511) div 512, st_rdev := 0\<rparr>)"

definition procstat_stat :: "file_stat \<Rightarrow> file_stat res" where
  "procstat_stat stat =
     Ok (stat\<lparr>st_dev := 0, st_ino := 1, st_mode := MODE_CHAR, st_nlink := 1, st_uid := 1000, st_gid := 1000,
       st_size := length stat_content, st_blksize := 512, st_blocks := (length stat_content + 511) div 512, st_rdev := 0\<rparr>)"

definition proc_stat :: "proc_node \<Rightarrow> file_stat \<Rightarrow> file_stat res" where
  "proc_stat n stat =
     (case n of
        ProcDir \<Rightarrow> proc_dir_stat stat
      | Mounts \<Rightarrow> mounts_stat stat
      | MemInfo \<Rightarrow> meminfo_stat stat
      | Interrupts \<Rightarrow> interrupts_stat stat
      | Version \<Rightarrow> version_stat stat
      | ProcStat \<Rightarrow> procstat_stat stat
      | CpuInfo \<Rightarrow> cpuinfo_stat stat)"

definition proc_lookup :: "proc_node \<Rightarrow> string \<Rightarrow> proc_node res" where
  "proc_lookup n name =
     (case n of
        ProcDir \<Rightarrow> (case map_of proc_dir_new name of Some x \<Rightarrow> Ok x | None \<Rightarrow> Err ENOENT)
      | _ \<Rightarrow> Err ENOENT)"

definition proc_read_dir :: "proc_node \<Rightarrow> dir_entry list res" where
  "proc_read_dir n =
     (case n of
        ProcDir \<Rightarrow> Ok (map (\<lambda>(name, _). \<lparr>de_filename = name, de_len = 0, de_file_type = FtDevice\<rparr>) proc_dir_new)
      | _ \<Rightarrow> Err EPERM)"

section \<open>The terminal loses no input\<close>

text \<open>A history of one terminal: polls, reads into a buffer of some length, and writes, with what the reads delivered.\<close>

datatype term_op = OpPoll poll_event | OpRead usize | OpWrite "u8 list"

fun run_terminal :: "dev_state \<Rightarrow> nat \<Rightarrow> term_op list \<Rightarrow> dev_state \<times> u8 list" where
  "run_terminal s t [] = (s, [])"
| "run_terminal s t (OpPoll events # ops) = run_terminal (fst (tty_poll s t events)) t ops"
| "run_terminal s t (OpRead n # ops) =
     (let (s1, buffer, r) = tty_readat s t (replicate n 0);
          (s2, rest) = run_terminal s1 t ops
      in (s2, (case r of Ok k \<Rightarrow> take k buffer | _ \<Rightarrow> []) @ rest))"
| "run_terminal s t (OpWrite bytes # ops) = run_terminal (fst (tty_writeat s bytes)) t ops"

abbreviation pending :: "dev_state \<Rightarrow> nat \<Rightarrow> u8 list" where
  "pending s t \<equiv> tt_buffer (tty_of s t) @ ds_input s"

lemma tty_poll_pending:
  assumes "t < length (ds_ttys s)" "tty_poll s t events = (s', r)"
  shows "pending s' t = pending s t \<and> length (ds_ttys s') = length (ds_ttys s)"
  using assms by (auto simp: tty_poll_def get_char_def Let_def split: if_splits list.splits)

lemma tty_readat_pending:
  assumes "t < length (ds_ttys s)" "tty_readat s t buffer = (s', buffer', r)"
  shows "pending s t = (case r of Ok k \<Rightarrow> take k buffer' | _ \<Rightarrow> []) @ pending s' t \<and>
    length (ds_ttys s') = length (ds_ttys s)"
  using assms
  by (cases buffer) (auto simp: tty_readat_def get_char_def slice_set_def Let_def min_def split: if_splits list.splits)

lemma run_terminal_pending:
  "t < length (ds_ttys s) \<Longrightarrow> run_terminal s t ops = (s', got) \<Longrightarrow> got @ pending s' t = pending s t"
proof (induction s t ops arbitrary: s' got rule: run_terminal.induct)
  case (2 s t events ops)
  obtain s1 r where p: "tty_poll s t events = (s1, r)" by fastforce
  with 2 tty_poll_pending [OF 2(2) p] show ?case by simp
next
  case (3 s t n ops)
  obtain s1 b r where p: "tty_readat s t (replicate n 0) = (s1, b, r)" by (metis prod_cases3)
  obtain s2 rest where q: "run_terminal s1 t ops = (s2, rest)" by fastforce
  from tty_readat_pending [OF 3(2) p] have k: "pending s t = (case r of Ok k \<Rightarrow> take k b | _ \<Rightarrow> []) @ pending s1 t"
    "t < length (ds_ttys s1)" using 3(2) by auto
  from 3(1) [OF p [symmetric] _ _ k(2) q] have "rest @ pending s2 t = pending s1 t" by simp
  moreover have "s' = s2" "got = (case r of Ok k \<Rightarrow> take k b | _ \<Rightarrow> []) @ rest" using 3(3) p q by auto
  ultimately show ?case using k(1) by (simp only: append_assoc)
next
  case (4 s t bytes ops)
  then show ?case by (simp add: tty_writeat_def puts_def)
qed simp

section \<open>Reading the process files\<close>

lemma take_min_drop: "take (min (length xs - k) n) (drop k xs) = take n (drop k xs)"
  by (simp add: min_def)

lemma meminfo_readat_spec:
  assumes "offset + length buffer < 2 ^ 64"
  shows "meminfo_readat offset buffer =
    (slice_set buffer 0 (take (length buffer) (drop offset meminfo_content)), Ok (min (length meminfo_content - offset) (length buffer)))"
proof (cases "length meminfo_content \<le> offset")
  case False
  then have "wsub (min (offset + length buffer) (length meminfo_content)) offset =
      min (length meminfo_content - offset) (length buffer)"
    using assms by (subst wsub_exact) auto
  with False assms show ?thesis
    by (auto simp: meminfo_readat_def wadd_exact Let_def slice_set_def min_def)
qed (simp add: meminfo_readat_def slice_set_def)

lemma proc_readat_spec:
  assumes "n \<noteq> ProcDir" "n \<noteq> Interrupts" "offset + length buffer < 2 ^ 64"
  shows "proc_readat n offset buffer =
    (slice_set buffer 0 (take (length buffer) (drop offset (proc_content n))),
     Ok (min (length (proc_content n) - offset) (length buffer)))"
  using assms by (cases n) (simp_all add: proc_readat_def proc_content_def stat_readat_def version_readat_def cpuinfo_readat_def mounts_readat_def
      meminfo_readat_spec slice_set_def take_min_drop Let_def)

section \<open>Properties\<close>

text \<open>C23: a terminal loses and reorders nothing.  Over any history of polls, reads and writes of one terminal, what the
  reads have delivered, followed by what the terminal has buffered and what the line still holds, is what was buffered and
  on the line at the start.\<close>

theorem terminal_keeps_input:
  assumes "t < length (ds_ttys s)"
  shows "case run_terminal s t ops of (s', got) \<Rightarrow>
    got @ tt_buffer (tty_of s' t) @ ds_input s' = tt_buffer (tty_of s t) @ ds_input s"
  using run_terminal_pending [OF assms] by fastforce

theorem terminal_keeps_input_witness:
  "case run_terminal (dev_state_new (\<lambda>_. undefined) [104, 105, 10]) 2 [OpPoll POLLIN, OpWrite [36], OpPoll POLLIN, OpRead 8, OpRead 8]
   of (s', got) \<Rightarrow> got = [104, 105] \<and> ds_input s' = [10] \<and> got @ tt_buffer (tty_of s' 2) @ ds_input s' = [104, 105, 10]"
  using terminal_keeps_input [of 2 "dev_state_new (\<lambda>_. undefined) [104, 105, 10]" "[OpPoll POLLIN, OpWrite [36], OpPoll POLLIN, OpRead 8, OpRead 8]"]
  by (simp add: dev_state_new_def tty_new_def tty_poll_def tty_readat_def tty_writeat_def puts_def get_char_def slice_set_def
      Let_def numeral_eq_Suc)

text \<open>The six terminals share one serial line but not their buffers.  A poll of one of them takes the next character off
  the line into its own buffer, so that a read of any other terminal gets the character behind it, although both names stand
  for the same console.\<close>

theorem poll_steals_input:
  assumes "t < length (ds_ttys s)" "u \<noteq> t" "tt_buffer (tty_of s t) = []" "tt_buffer (tty_of s u) = []"
    and "ds_input s = c # d # cs" "buffer \<noteq> []"
  shows "case tty_poll s t POLLIN of (s1, _) \<Rightarrow>
    \<exists>s2. tty_readat s1 u buffer = (s2, buffer[0 := d], Ok 1) \<and> tt_buffer (tty_of s2 t) = [c]"
  using assms by (simp add: tty_poll_def tty_readat_def get_char_def)

theorem poll_steals_input_witness:
  "case tty_poll (dev_state_new (\<lambda>_. undefined) [104, 105]) 2 POLLIN of (s1, _) \<Rightarrow>
     \<exists>s2. tty_readat s1 4 [0] = (s2, [105], Ok 1) \<and> tt_buffer (tty_of s2 2) = [104]"
  using poll_steals_input [of 2 "dev_state_new (\<lambda>_. undefined) [104, 105]" 4 104 105 "[]" "[0]"]
  by (simp add: dev_state_new_def tty_new_def numeral_eq_Suc)

text \<open>C0: what a terminal is told by \<open>TCSETS\<close>, \<open>TIOCSPGRP\<close> and \<open>TIOCSWINSZ\<close> is what \<open>TCGETS\<close>, \<open>TIOCGPGRP\<close> and \<open>TIOCGWINSZ\<close>
  report afterwards, wherever the answer is stored; the other terminals keep their settings.\<close>

theorem ioctl_set_get:
  assumes "t < length (ds_ttys s)" "arg \<noteq> 0" "arg' \<noteq> 0"
    and "(set_cmd, get_cmd) \<in> {(0x5402, 0x5401), (0x5410, 0x540F), (0x5414, 0x5413)}"
  shows "case tty_ioctl s t set_cmd arg of (s1, r) \<Rightarrow> r = Ok 0 \<and> (\<forall>u. u \<noteq> t \<longrightarrow> tty_of s1 u = tty_of s u) \<and>
    (case tty_ioctl s1 t get_cmd arg' of (s2, r') \<Rightarrow> r' = Ok 0 \<and>
       (set_cmd = 0x5402 \<longrightarrow> ua_termios (ds_user s2 arg') = ua_termios (ds_user s arg)) \<and>
       (set_cmd = 0x5410 \<longrightarrow> ua_u32 (ds_user s2 arg') = ua_u32 (ds_user s arg)) \<and>
       (set_cmd = 0x5414 \<longrightarrow> ua_winsize (ds_user s2 arg') = ua_winsize (ds_user s arg)))"
  using assms by (auto simp: tty_ioctl_def tty_cmd_from_def Let_def)

theorem ioctl_set_get_witness:
  "case tty_ioctl (dev_state_new (\<lambda>_. \<lparr>ua_termios = termios_default, ua_u32 = 7, ua_winsize = win_size_default, ua_rtc = []\<rparr>) []) 0 0x5410 64
   of (s1, r) \<Rightarrow> r = Ok 0 \<and> (case tty_ioctl s1 0 0x540F 128 of (s2, r') \<Rightarrow> r' = Ok 0 \<and> ua_u32 (ds_user s2 128) = 7)"
  using ioctl_set_get [of 0 "dev_state_new (\<lambda>_. \<lparr>ua_termios = termios_default, ua_u32 = 7, ua_winsize = win_size_default, ua_rtc = []\<rparr>) []"
      64 128 "0x5410" "0x540F"]
  by (simp add: dev_state_new_def case_prod_beta)

end
