(* ===== verification/KernelFs.thy ===== *)
theory KernelFs
  imports DevFs
begin

unbundle bit_operations_syntax

text \<open>
  The file systems of the kernel together, \<open>filesystem/fs/src/lib.rs\<close>: one mount table over the RAM file systems, the
  device and the process file system, and the root file system of the disk.

  \<^item> An \<open>Arc<dyn INodeInterface>\<close> of the running kernel is a \<open>vnode\<close>; \<open>kernel_ops\<close> is the call of a method on it.  The
    file system on the disk (a shim over the crates \<open>lwext4_rust\<close>, \<open>ext4_rs\<close> or \<open>fatfs\<close>) is the parameter \<open>rops\<close> with its
    state \<open>kf_root\<close>.
  \<^item> All RAM file systems share the frame allocator.  \<open>kfs_ok\<close> says that no two files of any of them share a frame, and
    every operation keeps it.
  \<^item> \<open>io_poll\<close> gives the answer of a poll; that polling a terminal buffers a character is in \<open>DevFs\<close>.
\<close>

section \<open>Inodes of the kernel\<close>

datatype 'r vnode = NRoot 'r | NRam nat inode | NDev dev_node | NProc proc_node

record 'q kernel_fs =
  kf_root :: 'q
  kf_phys :: phys
  kf_rams :: "ram_fs list"
  kf_dev :: dev_state

abbreviation ram_of :: "'q kernel_fs \<Rightarrow> nat \<Rightarrow> phys \<times> ram_fs" where
  "ram_of s i \<equiv> (kf_phys s, kf_rams s ! i)"

definition put_root :: "'q kernel_fs \<Rightarrow> 'q \<times> 'a \<Rightarrow> 'q kernel_fs \<times> 'a" where
  "put_root s m = (s\<lparr>kf_root := fst m\<rparr>, snd m)"

definition put_ram :: "'q kernel_fs \<Rightarrow> nat \<Rightarrow> (phys \<times> ram_fs) \<times> 'a \<Rightarrow> 'q kernel_fs \<times> 'a" where
  "put_ram s i m = (s\<lparr>kf_phys := fst (fst m), kf_rams := (kf_rams s)[i := snd (fst m)]\<rparr>, snd m)"

definition put_dev :: "'q kernel_fs \<Rightarrow> dev_state \<times> 'a \<Rightarrow> 'q kernel_fs \<times> 'a" where
  "put_dev s m = (s\<lparr>kf_dev := fst m\<rparr>, snd m)"

abbreviation stat_of :: "('q, 'r) name_ops \<Rightarrow> 'q kernel_fs \<Rightarrow> 'r vnode \<Rightarrow> (inode \<Rightarrow> usize) \<Rightarrow> file_stat \<Rightarrow> file_stat res" where
  "stat_of rnames s n addr stat \<equiv>
     (case n of
        NRoot r \<Rightarrow> io_stat rnames (kf_root s) r stat
      | NRam i x \<Rightarrow> io_stat (ram_names addr) (ram_of s i) x stat
      | NDev d \<Rightarrow> dev_stat d stat
      | NProc p \<Rightarrow> proc_stat p stat)"

definition kernel_names :: "('q, 'r) name_ops \<Rightarrow> (inode \<Rightarrow> usize) \<Rightarrow> ('q kernel_fs, 'r vnode) name_ops" where
  "kernel_names rnames addr = default_names\<lparr>
     io_mkdir := \<lambda>s n name.
       (case n of
          NRoot r \<Rightarrow> put_root s (io_mkdir rnames (kf_root s) r name)
        | NRam i x \<Rightarrow> put_ram s i (io_mkdir (ram_names addr) (ram_of s i) x name)
        | _ \<Rightarrow> io_mkdir default_names s n name),
     io_stat := \<lambda>s n stat. stat_of rnames s n addr stat,
     io_statfs := \<lambda>s n sf.
       (case n of NRoot r \<Rightarrow> io_statfs rnames (kf_root s) r sf | _ \<Rightarrow> io_statfs default_names s n sf),
     io_utimes := \<lambda>s n tms.
       (case n of
          NRoot r \<Rightarrow> map_option (put_root s) (io_utimes rnames (kf_root s) r tms)
        | NRam i x \<Rightarrow> map_option (put_ram s i) (io_utimes (ram_names addr) (ram_of s i) x tms)
        | _ \<Rightarrow> io_utimes default_names s n tms),
     io_resolve_link := \<lambda>s n.
       (case n of NRoot r \<Rightarrow> io_resolve_link rnames (kf_root s) r | _ \<Rightarrow> io_resolve_link default_names s n),
     io_symlink := \<lambda>s n name target.
       (case n of
          NRoot r \<Rightarrow> put_root s (io_symlink rnames (kf_root s) r name target)
        | _ \<Rightarrow> io_symlink default_names s n name target),
     io_mount := \<lambda>s n path.
       (case n of NRoot r \<Rightarrow> put_root s (io_mount rnames (kf_root s) r path) | _ \<Rightarrow> io_mount default_names s n path),
     io_umount := \<lambda>s n.
       (case n of NRoot r \<Rightarrow> put_root s (io_umount rnames (kf_root s) r) | _ \<Rightarrow> io_umount default_names s n)\<rparr>"

definition kernel_ops :: "('q, 'r) inode_ops \<Rightarrow> ('q, 'r) name_ops \<Rightarrow> ('q kernel_fs, 'r vnode) inode_ops" where
  "kernel_ops rops rnames =
     \<lparr>io_lookup = \<lambda>s n name.
        (case n of
           NRoot r \<Rightarrow> res_bind (io_lookup rops (kf_root s) r name) (\<lambda>x. Ok (NRoot x))
         | NRam i x \<Rightarrow> res_bind (io_lookup ram_ops (ram_of s i) x name) (\<lambda>x. Ok (NRam i x))
         | NDev d \<Rightarrow> res_bind (dev_lookup d name) (\<lambda>d. Ok (NDev d))
         | NProc p \<Rightarrow> res_bind (proc_lookup p name) (\<lambda>p. Ok (NProc p))),
      io_create = \<lambda>s n name ty.
        (case n of
           NRoot r \<Rightarrow> put_root s (io_create rops (kf_root s) r name ty)
         | NRam i x \<Rightarrow> put_ram s i (io_create ram_ops (ram_of s i) x name ty)
         | _ \<Rightarrow> io_create default_ops s n name ty),
      io_remove = \<lambda>s n name.
        (case n of
           NRoot r \<Rightarrow> put_root s (io_remove rops (kf_root s) r name)
         | NRam i x \<Rightarrow> put_ram s i (io_remove ram_ops (ram_of s i) x name)
         | _ \<Rightarrow> io_remove default_ops s n name),
      io_readat = \<lambda>s n off buf.
        (case n of
           NRoot r \<Rightarrow> put_root s (io_readat rops (kf_root s) r off buf)
         | NRam i x \<Rightarrow> put_ram s i (io_readat ram_ops (ram_of s i) x off buf)
         | NDev d \<Rightarrow> put_dev s (dev_readat (kf_dev s) d buf)
         | NProc p \<Rightarrow> (s, proc_readat p off buf)),
      io_writeat = \<lambda>s n off buf.
        (case n of
           NRoot r \<Rightarrow> map_option (put_root s) (io_writeat rops (kf_root s) r off buf)
         | NRam i x \<Rightarrow> map_option (put_ram s i) (io_writeat ram_ops (ram_of s i) x off buf)
         | NDev d \<Rightarrow> Some (put_dev s (dev_writeat (kf_dev s) d buf))
         | NProc p \<Rightarrow> io_writeat default_ops s n off buf),
      io_truncate = \<lambda>s n sz.
        (case n of
           NRoot r \<Rightarrow> map_option (put_root s) (io_truncate rops (kf_root s) r sz)
         | NRam i x \<Rightarrow> map_option (put_ram s i) (io_truncate ram_ops (ram_of s i) x sz)
         | _ \<Rightarrow> io_truncate default_ops s n sz),
      io_size = \<lambda>s n. res_bind (stat_of rnames s n (\<lambda>_. 0) stat_default) (\<lambda>stat. Ok (st_size stat)),
      io_type = \<lambda>s n. res_bind (stat_of rnames s n (\<lambda>_. 0) stat_default) (\<lambda>stat.
        case file_type_of_mode (st_mode stat) of None \<Rightarrow> Panic | Some t \<Rightarrow> Ok t),
      io_read_dir = \<lambda>s n.
        (case n of
           NRoot r \<Rightarrow> io_read_dir rops (kf_root s) r
         | NRam i x \<Rightarrow> io_read_dir ram_ops (ram_of s i) x
         | NDev d \<Rightarrow> dev_read_dir d
         | NProc p \<Rightarrow> proc_read_dir p),
      io_ioctl = \<lambda>s n command arg.
        (case n of
           NRoot r \<Rightarrow> put_root s (io_ioctl rops (kf_root s) r command arg)
         | NDev d \<Rightarrow> put_dev s (dev_ioctl (kf_dev s) d command arg)
         | _ \<Rightarrow> io_ioctl default_ops s n command arg),
      io_poll = \<lambda>s n events.
        (case n of
           NRoot r \<Rightarrow> io_poll rops (kf_root s) r events
         | NDev d \<Rightarrow> dev_poll (kf_dev s) d events
         | _ \<Rightarrow> io_poll default_ops s n events)\<rparr>"

section \<open>Boot\<close>

text \<open>\<open>root\<close> is the root directory of the file system on the disk, if there is a block device; without one the root is a
  fifth RAM file system.\<close>

definition build_devfs :: dev_node where
  "build_devfs = DevDirContainer"

definition fs_mounts :: "'r option \<Rightarrow> 'r vnode mounts" where
  "fs_mounts root =
     (let mt = mount_fs [] (case root of Some r \<Rightarrow> NRoot r | None \<Rightarrow> NRam 4 root_dir) ''/'';
          mt = mount_fs mt (NDev build_devfs) ''/dev'';
          mt = mount_fs mt (NRam 0 root_dir) ''/tmp'';
          mt = mount_fs mt (NRam 1 root_dir) ''/dev/shm'';
          mt = mount_fs mt (NRam 2 root_dir) ''/home'';
          mt = mount_fs mt (NRam 3 root_dir) ''/var''
      in mount_fs mt (NProc ProcDir) ''/proc'')"

definition expect :: "'s \<times> 'a res \<Rightarrow> ('s \<times> 'a) run" where
  "expect m = (case m of (s, Ok x) \<Rightarrow> Some (s, x) | _ \<Rightarrow> None)"

fun expect_mkdirs :: "('s, 'n) name_ops \<Rightarrow> 's \<Rightarrow> 'n open_file \<Rightarrow> string list \<Rightarrow> 's run" where
  "expect_mkdirs nops s f [] = Some s"
| "expect_mkdirs nops s f (name # names) =
     (case expect (io_mkdir nops s (of_inner f) name) of
        None \<Rightarrow> None
      | Some (s, _) \<Rightarrow> expect_mkdirs nops s f names)"

definition fs_init ::
  "('q, 'r) inode_ops \<Rightarrow> ('q, 'r) name_ops \<Rightarrow> (inode \<Rightarrow> usize) \<Rightarrow> 'q \<Rightarrow> 'r option \<Rightarrow> phys \<Rightarrow> dev_state
   \<Rightarrow> ('r vnode mounts \<times> 'q kernel_fs) run" where
  "fs_init rops rnames addr q root ph dev =
     (let mt = fs_mounts root; ops = kernel_ops rops rnames; nops = kernel_names rnames addr;
          s = \<lparr>kf_root = q, kf_phys = ph, kf_rams = replicate (if root = None then 5 else 4) ram_fs_new, kf_dev = dev\<rparr>
      in do {
        (s, rootfs) \<leftarrow> expect (open_path ops mt s [] O_RDONLY);
        s \<leftarrow> expect_mkdirs nops s rootfs [''dev'', ''tmp'', ''home'', ''var'', ''proc'', ''bin''];
        (s, var_dir) \<leftarrow> expect (open_path ops mt s (path_from ''/var'') O_RDONLY);
        (case io_mkdir nops s (of_inner var_dir) ''tmp'' of
           (s, Panic) \<Rightarrow> None
         | (s, _) \<Rightarrow> Some (mt, s))
      })"

section \<open>Files do not share frames\<close>

text \<open>What a write or a truncation of one file does to memory, whatever it returns: it takes frames from the free ones, and
  touches no byte outside the file's own frames.\<close>

definition confined :: "phys \<Rightarrow> ram_file \<Rightarrow> phys \<Rightarrow> ram_file \<Rightarrow> bool" where
  "confined ph f ph' f' \<longleftrightarrow>
     phys_ok ph' \<and> pages_ok (rf_pages f') \<and> fa_extent (ph_frames ph') = fa_extent (ph_frames ph) \<and>
     (\<exists>ps. rf_pages f' = rf_pages f @ ps \<and> set ps \<subseteq> fa_free (ph_frames ph) \<and>
        fa_free (ph_frames ph') = fa_free (ph_frames ph) - set ps) \<and>
     (\<forall>x. \<not> in_pages (rf_pages f') x \<longrightarrow> ph_mem ph' x = ph_mem ph x)"

abbreviation owned :: "phys \<Rightarrow> ram_file \<Rightarrow> bool" where
  "owned ph f \<equiv> phys_ok ph \<and> pages_ok (rf_pages f) \<and> set (rf_pages f) \<subseteq> fa_extent (ph_frames ph) - fa_free (ph_frames ph)"

lemma grow_confined:
  assumes "owned ph f" "grow frame_alloc n ph (rf_pages f) = Some (ph', pages, c)" "rf_pages f' = pages"
  shows "confined ph f ph' f'" "ph_mem ph' = ph_mem ph"
proof -
  have ok: "phys_ok ph" "set (rf_pages f) \<inter> fa_free (ph_frames ph) = {}" "distinct (rf_pages f)" "pages_ok (rf_pages f)"
    using assms(1) by (auto simp: pages_ok_def)
  obtain ps where g: "pages = rf_pages f @ ps" "phys_ok ph'" "fa_extent (ph_frames ph') = fa_extent (ph_frames ph)"
      "distinct (rf_pages f @ ps)" "set ps \<subseteq> fa_free (ph_frames ph)" "fa_free (ph_frames ph') = fa_free (ph_frames ph) - set ps"
    using phl.grow_spec [OF ok(1-3), of n] assms(2) by auto
  show m: "ph_mem ph' = ph_mem ph" using grow_mem [OF assms(2)] .
  have "set ps \<subseteq> fa_extent (ph_frames ph)" using g(5) phl.avail_extent [OF ok(1)] by blast
  then have "pages_ok (rf_pages f @ ps)" using ok(4) g(4) by (auto simp: pages_ok_def dest: fa_extent_aligned)
  then show "confined ph f ph' f'" using g(1-3,5,6) assms(3) m by (auto simp: confined_def)
qed

lemma confined_store:
  assumes "confined ph f ph' f'" "owned ph f" "\<forall>x. \<not> in_pages (rf_pages f') x \<longrightarrow> mem x = ph_mem ph' x" "rf_pages f'' = rf_pages f'"
  shows "confined ph f (ph'\<lparr>ph_mem := mem\<rparr>) f''"
proof -
  have "set (rf_pages f') \<inter> fa_free (ph_frames ph') = {}" using assms(1,2) by (auto simp: confined_def)
  then have "phys_ok (ph'\<lparr>ph_mem := mem\<rparr>)"
    using phys_ok_store [of ph' "rf_pages f'" mem] assms(1,3) by (simp add: confined_def)
  then show ?thesis using assms(1,3,4) by (simp add: confined_def)
qed

lemma rf_writeat_confined:
  assumes "owned ph f" "rf_writeat ph f off buf = Some (ph', f', r)"
  shows "confined ph f ph' f'"
proof -
  obtain ph1 inner c where g: "grow frame_alloc (div_ceil (wadd off (length buf)) PAGE_SIZE - length (rf_pages f)) ph (rf_pages f) = Some (ph1, inner, c)"
    using assms(2) by (auto simp: rf_writeat_def Let_def split: option.splits)
  note c = grow_confined(1) [OF assms(1) g]
  show ?thesis
  proof (cases "\<not> c \<and> length inner = length (rf_pages f)")
    case True
    then show ?thesis using assms(2) g c by (auto simp: rf_writeat_def Let_def)
  next
    case False
    define k where "k = min (length buf) (if off < length inner * PAGE_SIZE then length inner * PAGE_SIZE - off else 0)"
    obtain mem w where m: "rf_write_loop (ph_mem ph1) inner off (take k buf) = (mem, w)" by fastforce
    have p: "pages_ok inner" using c [of "f\<lparr>rf_pages := inner\<rparr>"] by (simp add: confined_def)
    have "\<forall>x. \<not> in_pages inner x \<longrightarrow> mem x = ph_mem ph1 x"
    proof (cases "off < length inner * PAGE_SIZE")
      case True
      then have "off + length (take k buf) \<le> length inner * PAGE_SIZE" by (auto simp: k_def min_def)
      from rf_write_loop_spec [OF p this, of "ph_mem ph1"] m show ?thesis by auto
    next
      case False
      then have "take k buf = []" by (simp add: k_def)
      with m show ?thesis by (simp add: rf_write_loop.simps)
    qed
    moreover have "ph' = ph1\<lparr>ph_mem := mem\<rparr>" "rf_pages f' = inner"
      using assms(2) g False m unfolding k_def by (auto simp: rf_writeat_def Let_def)
    ultimately show ?thesis
      using confined_store [OF c [of "f\<lparr>rf_pages := inner\<rparr>"] assms(1), of mem f'] by simp
  qed
qed

lemma mem_store_outside: "\<not> (a \<le> x \<and> x < a + length bs) \<Longrightarrow> mem_store mem a bs x = mem x"
  by (auto simp: mem_store_def)

lemma rf_clear_tail_frame:
  assumes "\<not> in_pages pages x"
  shows "rf_clear_tail mem pages sz x = mem x"
proof -
  let ?mem = "foldl (\<lambda>m p. mem_store m p (replicate PAGE_SIZE 0)) mem (drop (div_ceil sz PAGE_SIZE) pages)"
  have "\<not> in_pages (drop k pages) x" for k using assms by (auto simp: in_pages_def dest: in_set_dropD)
  then have m: "?mem x = mem x" by (simp only: clear_pages if_False)
  show ?thesis
  proof (cases "sz mod PAGE_SIZE \<noteq> 0 \<and> sz div PAGE_SIZE < length pages")
    case True
    let ?a = "pages ! (sz div PAGE_SIZE)"
    have "\<not> (?a \<le> x \<and> x < ?a + PAGE_SIZE)" using assms True nth_mem by (auto simp: in_pages_def)
    moreover have "sz mod PAGE_SIZE < PAGE_SIZE" by simp
    ultimately have "\<not> (?a + sz mod PAGE_SIZE \<le> x \<and> x < ?a + sz mod PAGE_SIZE + length (replicate (PAGE_SIZE - sz mod PAGE_SIZE) (0::u8)))"
      unfolding length_replicate by linarith
    then show ?thesis using True m mem_store_outside by (simp only: rf_clear_tail_def Let_def if_True simp_thms)
  next
    case False
    then show ?thesis using m by (simp only: rf_clear_tail_def Let_def if_False)
  qed
qed

lemma rf_truncate_confined:
  assumes "owned ph f" "rf_truncate ph f sz = Some (ph', f', r)"
  shows "confined ph f ph' f'"
proof -
  let ?ph = "ph\<lparr>ph_mem := rf_clear_tail (ph_mem ph) (rf_pages f) sz\<rparr>"
  have self: "confined ph f ph f" using assms(1) by (auto simp: confined_def)
  have c: "confined ph f ?ph f" using confined_store [OF self assms(1), of _ f] rf_clear_tail_frame by simp
  then have o: "owned ?ph f" using assms(1) by (auto simp: confined_def)
  obtain inner c where g: "grow frame_alloc (div_ceil sz PAGE_SIZE - length (rf_pages f)) ?ph (rf_pages f) = Some (ph', inner, c)"
      "rf_pages f' = inner"
    using assms(2) by (auto simp: rf_truncate_def Let_def)
  have d: "confined ?ph f ph' f'" "ph_mem ph' = ph_mem ?ph" using grow_confined [OF o g] .
  have "ph_mem ph' x = ph_mem ph x" if "\<not> in_pages (rf_pages f') x" for x
  proof -
    have "\<not> in_pages (rf_pages f) x" using that d(1) by (auto simp: confined_def in_pages_def)
    then show ?thesis using d(2) by (simp add: rf_clear_tail_frame)
  qed
  with d(1) show ?thesis by (simp add: confined_def)
qed

lemma confined_other:
  assumes "confined ph f ph' f'" "rf_ok ph g" "set (rf_pages g) \<inter> set (rf_pages f) = {}"
  shows "rf_ok ph' g" "rf_bytes ph' g = rf_bytes ph g"
proof -
  have g: "pages_ok (rf_pages g)" "set (rf_pages g) \<subseteq> fa_extent (ph_frames ph) - fa_free (ph_frames ph)"
      "rf_len g \<le> length (rf_pages g) * PAGE_SIZE"
      "\<forall>i. rf_len g \<le> i \<and> i < length (rf_pages g) * PAGE_SIZE \<longrightarrow> ph_mem ph (page_byte (rf_pages g) i) = 0"
    using assms(2) by (simp_all add: rf_ok_def)
  have c: "phys_ok ph'" "pages_ok (rf_pages f')" "fa_extent (ph_frames ph') = fa_extent (ph_frames ph)"
      "fa_free (ph_frames ph') \<subseteq> fa_free (ph_frames ph)" "set (rf_pages f') \<subseteq> set (rf_pages f) \<union> fa_free (ph_frames ph)"
      "\<forall>x. \<not> in_pages (rf_pages f') x \<longrightarrow> ph_mem ph' x = ph_mem ph x"
    using assms(1) by (auto simp: confined_def)
  have mem: "ph_mem ph' (page_byte (rf_pages g) i) = ph_mem ph (page_byte (rf_pages g) i)" if "i < length (rf_pages g) * PAGE_SIZE" for i
  proof -
    have k: "rf_pages g ! (i div PAGE_SIZE) \<in> set (rf_pages g)" using page_index_less [OF that] by simp
    then have "rf_pages g ! (i div PAGE_SIZE) mod PAGE_SIZE = 0" using g(1) by (simp add: pages_ok_def)
    moreover have "rf_pages g ! (i div PAGE_SIZE) \<notin> set (rf_pages f')" using k assms(3) g(2) c(5) by blast
    ultimately have "\<not> in_pages (rf_pages f') (page_byte (rf_pages g) i)"
      unfolding page_byte_def by (intro not_in_pages [OF c(2)]) simp_all
    then show ?thesis using c(6) by blast
  qed
  show "rf_ok ph' g" unfolding rf_ok_def using g c(1,3,4) mem by auto
  show "rf_bytes ph' g = rf_bytes ph g" using g(3) mem by (auto simp: rf_bytes_def)
qed

text \<open>The files of all RAM file systems: each owns its frames, and no frame belongs to two of them.\<close>

abbreviation file_at :: "'q kernel_fs \<Rightarrow> nat \<times> nat \<Rightarrow> ram_file" where
  "file_at s k \<equiv> fs_files (kf_rams s ! fst k) ! snd k"

definition file_keys :: "'q kernel_fs \<Rightarrow> (nat \<times> nat) set" where
  "file_keys s = {(i, j). i < length (kf_rams s) \<and> j < length (fs_files (kf_rams s ! i))}"

definition kfs_ok :: "'q kernel_fs \<Rightarrow> bool" where
  "kfs_ok s \<longleftrightarrow> phys_ok (kf_phys s) \<and> (\<forall>k \<in> file_keys s. owned (kf_phys s) (file_at s k)) \<and>
     (\<forall>k \<in> file_keys s. \<forall>l \<in> file_keys s. k \<noteq> l \<longrightarrow> set (rf_pages (file_at s k)) \<inter> set (rf_pages (file_at s l)) = {})"

lemma kfs_ok_confined:
  assumes "kfs_ok s" "k \<in> file_keys s" "confined (kf_phys s) (file_at s k) ph' f'"
    and s': "kf_phys s' = ph'" "file_keys s' = file_keys s" "file_at s' k = f'"
    and others: "\<And>l. l \<in> file_keys s \<Longrightarrow> l \<noteq> k \<Longrightarrow> file_at s' l = file_at s l"
  shows "kfs_ok s'"
proof -
  have c: "phys_ok ph'" "pages_ok (rf_pages f')" "fa_extent (ph_frames ph') = fa_extent (ph_frames (kf_phys s))"
    using assms(3) by (simp_all add: confined_def)
  obtain ps where ps: "rf_pages f' = rf_pages (file_at s k) @ ps" "set ps \<subseteq> fa_free (ph_frames (kf_phys s))"
      "fa_free (ph_frames ph') = fa_free (ph_frames (kf_phys s)) - set ps"
    using assms(3) by (auto simp: confined_def)
  have own: "owned (kf_phys s) (file_at s l)" if "l \<in> file_keys s" for l using assms(1) that by (simp add: kfs_ok_def)
  have ext: "set ps \<subseteq> fa_extent (ph_frames (kf_phys s))"
    using ps(2) phl.avail_extent [of "kf_phys s"] assms(1) by (auto simp: kfs_ok_def)
  have "owned ph' f'" using c ps ext own [OF assms(2)] by auto
  moreover have "owned ph' (file_at s l)" if "l \<in> file_keys s" for l using c ps(3) own [OF that] by auto
  moreover have disj: "set (rf_pages (file_at s l)) \<inter> set (rf_pages (file_at s m)) = {}"
    if "l \<in> file_keys s" "m \<in> file_keys s" "l \<noteq> m" for l m
    using assms(1) that by (simp add: kfs_ok_def)
  moreover have "set (rf_pages (file_at s l)) \<inter> set (rf_pages f') = {}" if "l \<in> file_keys s" "l \<noteq> k" for l
    using ps(1,2) own [OF that(1)] disj [OF that(1) assms(2) that(2)] by auto
  ultimately show ?thesis
    unfolding kfs_ok_def s' using c(1) s'(3) others by (metis Int_commute)
qed

lemma kfs_ok_cong:
  assumes "kfs_ok s" "kf_phys s' = kf_phys s" "map fs_files (kf_rams s') = map fs_files (kf_rams s)"
  shows "kfs_ok s'"
proof -
  have len: "length (kf_rams s') = length (kf_rams s)" using assms(3) by (rule map_eq_imp_length_eq)
  have files: "fs_files (kf_rams s' ! i) = fs_files (kf_rams s ! i)" if "i < length (kf_rams s)" for i
    using assms(3) that len nth_map by metis
  then have "file_keys s' = file_keys s" by (auto simp: file_keys_def len)
  moreover have "file_at s' k = file_at s k" if "k \<in> file_keys s" for k using that files by (auto simp: file_keys_def)
  ultimately show ?thesis using assms(1,2) unfolding kfs_ok_def by (metis (no_types, lifting))
qed

lemma map_files_update:
  "(i < length fss \<Longrightarrow> fs_files fs' = fs_files (fss ! i)) \<Longrightarrow> map fs_files (fss[i := fs']) = map fs_files fss"
  by (cases "i < length fss") (simp_all add: map_update list_update_same_conv list_update_beyond)

lemma kfs_ok_new_file:
  assumes "kfs_ok s" "i < length (kf_rams s)" "fs_files fs' = fs_files (kf_rams s ! i) @ [ram_file_new name]"
  shows "kfs_ok (s\<lparr>kf_rams := (kf_rams s)[i := fs']\<rparr>)"
proof -
  let ?s = "s\<lparr>kf_rams := (kf_rams s)[i := fs']\<rparr>" and ?k = "(i, length (fs_files (kf_rams s ! i)))"
  have keys: "file_keys ?s = insert ?k (file_keys s)" using assms(2,3) by (auto simp: file_keys_def nth_list_update split: if_splits)
  have new: "rf_pages (file_at ?s ?k) = []" using assms(2,3) by (simp add: ram_file_new_def)
  have old: "file_at ?s k = file_at s k" if "k \<in> file_keys s" for k
    using that assms(2,3) by (auto simp: file_keys_def nth_list_update nth_append)
  have k: "?k \<notin> file_keys s" by (simp add: file_keys_def)
  show ?thesis
    unfolding kfs_ok_def keys using assms(1) old new k by (simp add: kfs_ok_def pages_ok_def)
qed

section \<open>Steps of the file systems\<close>

definition node_valid :: "'q kernel_fs \<Rightarrow> 'r vnode \<Rightarrow> bool" where
  "node_valid s n = (case n of NRam i x \<Rightarrow> i < length (kf_rams s) \<and> inode_valid (kf_rams s ! i) x | _ \<Rightarrow> True)"

text \<open>A call of a method on an inode that some directory or open file refers to.\<close>

inductive fs_step ::
  "('q, 'r) inode_ops \<Rightarrow> ('q, 'r) name_ops \<Rightarrow> (inode \<Rightarrow> usize) \<Rightarrow> 'q kernel_fs \<Rightarrow> 'q kernel_fs \<Rightarrow> bool"
  for rops rnames addr where
  step_read: "fs_step rops rnames addr s s'"
    if "node_valid s n" "io_readat (kernel_ops rops rnames) s n off buf = (s', r)"
| step_write: "fs_step rops rnames addr s s'"
    if "node_valid s n" "io_writeat (kernel_ops rops rnames) s n off buf = Some (s', r)"
| step_truncate: "fs_step rops rnames addr s s'"
    if "node_valid s n" "io_truncate (kernel_ops rops rnames) s n sz = Some (s', r)"
| step_create: "fs_step rops rnames addr s s'"
    if "node_valid s n" "io_create (kernel_ops rops rnames) s n name ty = (s', r)"
| step_remove: "fs_step rops rnames addr s s'"
    if "node_valid s n" "io_remove (kernel_ops rops rnames) s n name = (s', r)"
| step_mkdir: "fs_step rops rnames addr s s'"
    if "node_valid s n" "io_mkdir (kernel_names rnames addr) s n name = (s', r)"
| step_ioctl: "fs_step rops rnames addr s s'"
    if "node_valid s n" "io_ioctl (kernel_ops rops rnames) s n command arg = (s', r)"
| step_utimes: "fs_step rops rnames addr s s'"
    if "node_valid s n" "io_utimes (kernel_names rnames addr) s n tms = Some (s', r)"

lemma link_target_valid: "inode_valid fs x \<Longrightarrow> inode_valid fs (link_target x)"
  by (induction x rule: link_target.induct) auto

text \<open>The operations that change a file's bytes act on the file a chain of links ends at.\<close>

lemma link_target_cases:
  assumes "inode_valid fs x"
  obtains (stored) j where "link_target x = IFile j" "j < length (fs_files fs)" | (other) d where "link_target x = IDir d"
proof -
  have "link_target x \<noteq> ILink n t" for n t by (induction x rule: link_target.induct) auto
  then show ?thesis using that link_target_valid [OF assms] by (cases "link_target x") auto
qed

lemma inode_writeat_target: "inode_writeat ph fs x off buf = inode_writeat ph fs (link_target x) off buf"
  by (induction x rule: link_target.induct) auto

lemma inode_truncate_target: "inode_truncate ph fs x sz = inode_truncate ph fs (link_target x) sz"
  by (induction x rule: link_target.induct) auto

lemma kfs_ok_put_file:
  assumes "kfs_ok s" "i < length (kf_rams s)" "j < length (fs_files (kf_rams s ! i))"
    and "confined (kf_phys s) (fs_files (kf_rams s ! i) ! j) ph' f'"
  shows "kfs_ok (s\<lparr>kf_phys := ph', kf_rams := (kf_rams s)[i := (kf_rams s ! i)\<lparr>fs_files := (fs_files (kf_rams s ! i))[j := f']\<rparr>]\<rparr>)"
proof (rule kfs_ok_confined [of s "(i, j)" ph' f'])
  show "(i, j) \<in> file_keys s" using assms(2,3) by (simp add: file_keys_def)
qed (use assms in \<open>auto simp: file_keys_def nth_list_update split: if_splits\<close>)

lemma kfs_ok_on_target:
  assumes "kfs_ok s" "node_valid s (NRam i x)"
    and "\<And>j. link_target x = IFile j \<Longrightarrow> owned (kf_phys s) (fs_files (kf_rams s ! i) ! j) \<Longrightarrow>
      \<exists>f'. fs' = (kf_rams s ! i)\<lparr>fs_files := (fs_files (kf_rams s ! i))[j := f']\<rparr> \<and>
        confined (kf_phys s) (fs_files (kf_rams s ! i) ! j) ph' f'"
    and "\<And>d. link_target x = IDir d \<Longrightarrow> ph' = kf_phys s \<and> fs' = kf_rams s ! i"
  shows "kfs_ok (s\<lparr>kf_phys := ph', kf_rams := (kf_rams s)[i := fs']\<rparr>)"
proof -
  have v: "i < length (kf_rams s)" "inode_valid (kf_rams s ! i) x" using assms(2) by (simp_all add: node_valid_def)
  from v(2) show ?thesis
  proof (cases rule: link_target_cases)
    case (stored j)
    have "owned (kf_phys s) (fs_files (kf_rams s ! i) ! j)" using assms(1) v(1) stored(2) by (auto simp: kfs_ok_def file_keys_def)
    from assms(3) [OF stored(1) this] show ?thesis using kfs_ok_put_file [OF assms(1) v(1) stored(2)] by blast
  next
    case (other d)
    then show ?thesis using assms(4) [OF other] assms(1) by (auto intro: kfs_ok_cong)
  qed
qed

text \<open>A call on an inode of the disk or of a device changes neither memory nor RAM files.\<close>

lemmas outside_ram = kernel_ops_def kernel_names_def put_root_def put_dev_def default_ops_def default_names_def

lemma kfs_ok_write:
  assumes "kfs_ok s" "node_valid s n" "io_writeat (kernel_ops rops rnames) s n off buf = Some (s', r)"
  shows "kfs_ok s'"
proof (cases n)
  case (NRam i x)
  obtain ph' fs' where w: "inode_writeat (kf_phys s) (kf_rams s ! i) (link_target x) off buf = Some (ph', fs', r)"
      "s' = s\<lparr>kf_phys := ph', kf_rams := (kf_rams s)[i := fs']\<rparr>"
    using assms(3) NRam inode_writeat_target [of "kf_phys s" "kf_rams s ! i" x]
    by (auto simp: kernel_ops_def ram_ops_def put_ram_def)
  show ?thesis unfolding w(2) using assms(1,2) w(1) NRam
    by (intro kfs_ok_on_target [of s i x]) (auto, blast intro: rf_writeat_confined)
qed (use assms in \<open>auto simp: outside_ram intro: kfs_ok_cong\<close>)

lemma kfs_ok_truncate:
  assumes "kfs_ok s" "node_valid s n" "io_truncate (kernel_ops rops rnames) s n sz = Some (s', r)"
  shows "kfs_ok s'"
proof (cases n)
  case (NRam i x)
  obtain ph' fs' where w: "inode_truncate (kf_phys s) (kf_rams s ! i) (link_target x) sz = Some (ph', fs', r)"
      "s' = s\<lparr>kf_phys := ph', kf_rams := (kf_rams s)[i := fs']\<rparr>"
    using assms(3) NRam inode_truncate_target [of "kf_phys s" "kf_rams s ! i" x]
    by (auto simp: kernel_ops_def ram_ops_def put_ram_def)
  show ?thesis unfolding w(2) using assms(1,2) w(1) NRam
    by (intro kfs_ok_on_target [of s i x]) (auto, blast intro: rf_truncate_confined)
qed (use assms in \<open>auto simp: outside_ram intro: kfs_ok_cong\<close>)

lemma kfs_ok_utimes:
  assumes "kfs_ok s" "node_valid s n" "io_utimes (kernel_names rnames addr) s n tms = Some (s', r)"
  shows "kfs_ok s'"
proof (cases n)
  case (NRam i x)
  show ?thesis
  proof (cases x)
    case (IFile j)
    then obtain f' where f: "rf_utimes (fs_files (kf_rams s ! i) ! j) tms = Some f'"
        "s' = s\<lparr>kf_phys := kf_phys s, kf_rams := (kf_rams s)[i := (kf_rams s ! i)\<lparr>fs_files := (fs_files (kf_rams s ! i))[j := f']\<rparr>]\<rparr>"
      using assms(3) NRam by (auto simp: kernel_names_def ram_names_def ram_utimes_def put_ram_def)
    have "rf_pages f' = rf_pages (fs_files (kf_rams s ! i) ! j)"
      using f(1) by (auto simp: rf_utimes_def Let_def split: if_splits)
    then show ?thesis unfolding f(2) using assms(1,2) NRam IFile
      by (intro kfs_ok_on_target [of s i x]) (auto simp: confined_def intro: exI [of _ f'])
  next
    case (IDir d)
    with NRam assms(1,3) show ?thesis
      by (auto simp: kernel_names_def ram_names_def ram_utimes_def put_ram_def intro: kfs_ok_cong)
  next
    case (ILink m t)
    with NRam assms(1,3) show ?thesis
      by (auto simp: kernel_names_def ram_names_def ram_utimes_def put_ram_def intro: kfs_ok_cong)
  qed
qed (use assms in \<open>auto simp: outside_ram intro: kfs_ok_cong\<close>)

lemma kfs_ok_create:
  assumes "kfs_ok s" "node_valid s n" "io_create (kernel_ops rops rnames) s n name ty = (s', r)"
  shows "kfs_ok s'"
proof (cases n)
  case (NRam i x)
  then have v: "i < length (kf_rams s)" using assms(2) by (simp add: node_valid_def)
  obtain fs' where c: "inode_create (kf_rams s ! i) x name ty = (fs', r)" "s' = s\<lparr>kf_rams := (kf_rams s)[i := fs']\<rparr>"
    using assms(3) NRam by (auto simp: kernel_ops_def ram_ops_def put_ram_def split: prod.splits)
  then have "fs_files fs' = fs_files (kf_rams s ! i) \<or> fs_files fs' = fs_files (kf_rams s ! i) @ [ram_file_new name]"
    by (cases x) (auto simp: rd_create_def add_dir_def Let_def split: if_splits)
  then show ?thesis
    using kfs_ok_new_file [OF assms(1) v] kfs_ok_cong [OF assms(1), of s'] c(2) by (elim disjE) (simp_all add: map_files_update)
qed (use assms in \<open>auto simp: outside_ram intro: kfs_ok_cong\<close>)

lemma kfs_ok_dirs:
  assumes "kfs_ok s" "fs_files (snd (fst m)) = fs_files (kf_rams s ! i)" "fst (fst m) = kf_phys s" "put_ram s i m = (s', r)"
  shows "kfs_ok s'"
  using assms by (auto simp: put_ram_def map_files_update intro: kfs_ok_cong)

lemma kfs_ok_remove:
  assumes "kfs_ok s" "io_remove (kernel_ops rops rnames) s n name = (s', r)"
  shows "kfs_ok s'"
proof (cases n)
  case (NRam i x)
  let ?m = "io_remove ram_ops (ram_of s i) x name"
  have "fs_files (snd (fst ?m)) = fs_files (kf_rams s ! i)" "fst (fst ?m) = kf_phys s"
    by (cases x; simp add: ram_ops_def default_ops_def rd_remove_def extract_children_def)+
  moreover have "put_ram s i ?m = (s', r)" using assms(2) NRam by (simp add: kernel_ops_def)
  ultimately show ?thesis by (rule kfs_ok_dirs [OF assms(1)])
qed (use assms in \<open>auto simp: outside_ram intro: kfs_ok_cong\<close>)

lemma kfs_ok_mkdir:
  assumes "kfs_ok s" "io_mkdir (kernel_names rnames addr) s n name = (s', r)"
  shows "kfs_ok s'"
proof (cases n)
  case (NRam i x)
  let ?m = "io_mkdir (ram_names addr) (ram_of s i) x name"
  have "fs_files (snd (fst ?m)) = fs_files (kf_rams s ! i)" "fst (fst ?m) = kf_phys s"
    by (cases x; simp add: ram_names_def rd_mkdir_def add_dir_def Let_def split: option.splits)+
  moreover have "put_ram s i ?m = (s', r)" using assms(2) NRam by (simp add: kernel_names_def)
  ultimately show ?thesis by (rule kfs_ok_dirs [OF assms(1)])
qed (use assms in \<open>auto simp: outside_ram intro: kfs_ok_cong\<close>)

lemma kfs_ok_read:
  assumes "kfs_ok s" "io_readat (kernel_ops rops rnames) s n off buf = (s', r)"
  shows "kfs_ok s'"
proof (cases n)
  case (NRam i x)
  let ?m = "io_readat ram_ops (ram_of s i) x off buf"
  have "fs_files (snd (fst ?m)) = fs_files (kf_rams s ! i)" "fst (fst ?m) = kf_phys s"
    by (simp_all add: ram_ops_def split: prod.splits)
  moreover have "put_ram s i ?m = (s', r)" using assms(2) NRam by (simp add: kernel_ops_def)
  ultimately show ?thesis by (rule kfs_ok_dirs [OF assms(1)])
qed (use assms in \<open>auto simp: outside_ram intro: kfs_ok_cong\<close>)

lemma fs_step_ok: "fs_step rops rnames addr s s' \<Longrightarrow> kfs_ok s \<Longrightarrow> kfs_ok s'"
proof (induction rule: fs_step.induct)
  case (step_ioctl s n command arg s' r)
  then show ?case by (cases n) (auto simp: outside_ram intro: kfs_ok_cong)
qed (blast intro: kfs_ok_read kfs_ok_write kfs_ok_truncate kfs_ok_create kfs_ok_remove kfs_ok_mkdir kfs_ok_utimes)+

section \<open>Boot\<close>

text \<open>Which file system answers for a path, and with what rest.\<close>

definition route :: "'r vnode \<Rightarrow> path_buf \<Rightarrow> 'r vnode \<times> path_buf" where
  "route root p =
     (if prefix [''proc''] p then (NProc ProcDir, drop 1 p)
      else if prefix [''var''] p then (NRam 3 root_dir, drop 1 p)
      else if prefix [''home''] p then (NRam 2 root_dir, drop 1 p)
      else if prefix [''dev'', ''shm''] p then (NRam 1 root_dir, drop 2 p)
      else if prefix [''tmp''] p then (NRam 0 root_dir, drop 1 p)
      else if prefix [''dev''] p then (NDev DevDirContainer, drop 1 p)
      else (root, p))"

lemma fs_mounts_list:
  "fs_mounts root =
     [([], case root of Some r \<Rightarrow> NRoot r | None \<Rightarrow> NRam 4 root_dir), ([''dev''], NDev DevDirContainer), ([''tmp''], NRam 0 root_dir),
      ([''dev'', ''shm''], NRam 1 root_dir), ([''home''], NRam 2 root_dir), ([''var''], NRam 3 root_dir), ([''proc''], NProc ProcDir)]"
  by (simp add: fs_mounts_def mount_fs_def path_from_def path_join_def join_step_def build_devfs_def)

lemma fs_mounts_route: "get_mounted (fs_mounts root) p = Some (route (case root of Some r \<Rightarrow> NRoot r | None \<Rightarrow> NRam 4 root_dir) p)"
  by (simp add: fs_mounts_list get_mounted_def path_starts_with_def path_trim_start_def route_def numeral_2_eq_2)

lemma expect_mkdirs_ok: "expect_mkdirs (kernel_names rnames addr) s f names = Some s' \<Longrightarrow> kfs_ok s \<Longrightarrow> kfs_ok s'"
proof (induction names arbitrary: s)
  case (Cons name names)
  obtain s1 r where m: "io_mkdir (kernel_names rnames addr) s (of_inner f) name = (s1, r)" by fastforce
  then show ?case using Cons kfs_ok_mkdir [OF Cons.prems(2) m] by (auto simp: expect_def split: res.splits)
qed simp

lemma kfs_ok_start: "phys_ok ph \<Longrightarrow> kfs_ok \<lparr>kf_root = q, kf_phys = ph, kf_rams = replicate n ram_fs_new, kf_dev = dev\<rparr>"
  by (auto simp: kfs_ok_def file_keys_def ram_fs_new_def)

lemma open_reads_only: "fst (open_path ops mt s p O_RDONLY) = s"
  by (auto simp: open_path_def file_open_def flags_contain_def Let_def split: option.splits res.splits)

lemma fs_init_ok:
  assumes "fs_init rops rnames addr q root ph dev = Some (mt, s)" "phys_ok ph"
  shows "kfs_ok s" "mt = fs_mounts root"
proof -
  let ?s = "\<lparr>kf_root = q, kf_phys = ph, kf_rams = replicate (if root = None then 5 else 4) ram_fs_new, kf_dev = dev\<rparr>"
  have e: "t = s0" if "expect (open_path ops mt' s0 p O_RDONLY) = Some (t, f)" for ops mt' s0 p t f
    using that open_reads_only [of ops mt' s0 p] by (auto simp: expect_def split: prod.splits res.splits)
  obtain s0 f s1 s2 f2 where i: "expect (open_path (kernel_ops rops rnames) (fs_mounts root) ?s [] O_RDONLY) = Some (s0, f)"
      "expect_mkdirs (kernel_names rnames addr) s0 f [''dev'', ''tmp'', ''home'', ''var'', ''proc'', ''bin''] = Some s1"
      "expect (open_path (kernel_ops rops rnames) (fs_mounts root) s1 (path_from ''/var'') O_RDONLY) = Some (s2, f2)"
      "(case io_mkdir (kernel_names rnames addr) s2 (of_inner f2) ''tmp'' of (s, Panic) \<Rightarrow> None | (s, _) \<Rightarrow> Some (fs_mounts root, s)) = Some (mt, s)"
    using assms(1) unfolding fs_init_def Let_def by (auto simp: bind_eq_Some_conv simp del: expect_mkdirs.simps)
  obtain r where m: "io_mkdir (kernel_names rnames addr) s1 (of_inner f2) ''tmp'' = (s, r)" "mt = fs_mounts root"
    using i(4) e [OF i(3)] by (auto split: prod.splits res.splits)
  show "mt = fs_mounts root" by fact
  show "kfs_ok s" using kfs_ok_mkdir [OF expect_mkdirs_ok [OF i(2) [unfolded e [OF i(1)]] kfs_ok_start [OF assms(2)]] m(1)] .
qed

section \<open>Reading a process file\<close>

text \<open>What a program gets that reads with a buffer of \<open>n\<close> bytes until a read returns 0.\<close>

fun read_to_end ::
  "('s, 'n) inode_ops \<Rightarrow> nat \<Rightarrow> 's \<Rightarrow> ('n, 'm) fd_state_scheme \<Rightarrow> usize \<Rightarrow> usize \<Rightarrow> u8 list option" where
  "read_to_end ops 0 s st fd n = None"
| "read_to_end ops (Suc k) s st fd n =
     (case sys_read ops s st fd (replicate n 0) of
        (s', st', Ready (b, Ok m)) \<Rightarrow>
          if m = 0 then Some [] else map_option (append (take m b)) (read_to_end ops k s' st' fd n)
      | _ \<Rightarrow> None)"

lemma length_text: "length (text_lines ls) = sum_list (map (\<lambda>l. length l + 1) ls)"
  by (induction ls) (simp_all add: text_lines_def)

lemma length_proc_content: "length (proc_content node) \<le> 4096"
  by (cases node)
    (simp_all add: proc_content_def meminfo_content_def version_content_def stat_content_def cpuinfo_content_def length_text)

lemma proc_readat_start: "proc_readat Interrupts 0 buffer = (buffer, Ok 0)"
  by (simp add: proc_readat_def interrupts_readat_def slice_set_def wsub_def wadd_def)

lemma proc_readat_any:
  assumes "node \<noteq> ProcDir" "pos \<le> length (proc_content node)" "n < 2 ^ 63"
  shows "proc_readat node pos (replicate n 0) =
    (slice_set (replicate n 0) 0 (take n (drop pos (proc_content node))), Ok (min (length (proc_content node) - pos) n))"
proof (cases "node = Interrupts")
  case True
  then show ?thesis using assms(2) proc_readat_start by (simp add: proc_content_def slice_set_def)
next
  case False
  have "pos + length (replicate n (0::u8)) < 2 ^ 64" using assms(2,3) length_proc_content [of node] by simp
  then show ?thesis using proc_readat_spec [OF assms(1) False] by simp
qed

lemma read_to_end_proc:
  fixes st :: "('r vnode, 'm) fd_state_scheme"
  assumes "node \<noteq> ProcDir" "0 < n" "n < 2 ^ 63"
  shows "fd_view st fd = Some h \<Longrightarrow> h < length (open_files st) \<Longrightarrow>
    deref st h = \<lparr>of_inner = NProc node, of_path = p, of_offset = pos, of_flags = O_RDONLY\<rparr> \<Longrightarrow>
    pos \<le> length (proc_content node) \<Longrightarrow> length (proc_content node) - pos < k \<Longrightarrow>
    read_to_end (kernel_ops rops rnames) k s st fd n = Some (drop pos (proc_content node))"
proof (induction k arbitrary: s st pos)
  case (Suc k)
  let ?c = "proc_content node" and ?m = "min (length (proc_content node) - pos) n"
  let ?f = "\<lparr>of_inner = NProc node, of_path = p, of_offset = pos + ?m, of_flags = O_RDONLY\<rparr>"
  have "fetch st fd EBADF = Ok h" using Suc.prems(1) by (rule fetch_view)
  moreover have "wadd pos ?m = pos + ?m" using Suc.prems(4) length_proc_content [of node] by (intro wadd_exact) auto
  ultimately have r: "sys_read (kernel_ops rops rnames) s st fd (replicate n 0) =
      (s, put_file st h ?f, Ready (slice_set (replicate n 0) 0 (take n (drop pos ?c)), Ok ?m))"
    using Suc.prems(3) proc_readat_any [OF assms(1) Suc.prems(4) assms(3)]
    by (simp add: sys_read_def file_async_read_def kernel_ops_def flags_contain_def advance_def Let_def)
  show ?case
  proof (cases "pos = length ?c")
    case True
    then show ?thesis using r by simp
  next
    case False
    then have m: "0 < ?m" using Suc.prems(4) assms(2) by auto
    have "read_to_end (kernel_ops rops rnames) k s (put_file st h ?f) fd n = Some (drop (pos + ?m) ?c)"
      using Suc.prems m by (intro Suc.IH) auto
    moreover have "take ?m (slice_set (replicate n 0) 0 (take n (drop pos ?c))) = take ?m (drop pos ?c)"
      by (simp add: slice_set_def min_def)
    moreover have "take ?m (drop pos ?c) @ drop (pos + ?m) ?c = drop pos ?c"
      by (metis append_take_drop_id drop_drop add.commute)
    ultimately show ?thesis using r m by (simp only: read_to_end.simps prod.case poll.case res.case option.map if_False) simp
  qed
qed simp

lemma proc_names:
  assumes "map_of proc_dir_new name = Some node"
  shows "component_ok name" "node \<noteq> ProcDir"
  using map_of_SomeD [OF assms] by (auto simp: proc_dir_new_def component_ok_def)

lemma proc_path: "component_ok name \<Longrightarrow> path_from (''/proc/'' @ name) = [''proc'', name]"
  by (simp add: path_from_def path_join_def join_step_def component_ok_def split_slash_single)

lemma proc_open:
  assumes "map_of proc_dir_new name = Some node"
  shows "fd_open (kernel_ops rops rnames) (fs_mounts root) s st dir_fd (''/proc/'' @ name) O_RDONLY =
    (s, Ok \<lparr>of_inner = NProc node, of_path = [''proc'', name], of_offset = 0, of_flags = O_RDONLY\<rparr>)"
proof -
  have "fd_resolve st dir_fd (''/proc/'' @ name) = Ok [''proc'', name]"
    unfolding fd_resolve_def using proc_path [OF proc_names(1) [OF assms]] by simp
  moreover have "get_mounted (fs_mounts root) [''proc'', name] = Some (NProc ProcDir, [name])"
    unfolding fs_mounts_route by (simp add: route_def)
  moreover have "io_lookup (kernel_ops rops rnames) s (NProc ProcDir) name = Ok (NProc node)"
    using assms by (simp add: kernel_ops_def proc_lookup_def)
  ultimately show ?thesis
    by (simp add: fd_open_def open_path_def file_open_def path_levels_def path_dir_def path_filename_def flags_contain_def)
qed

section \<open>Properties\<close>

abbreviation boot_fs :: "'q \<Rightarrow> phys \<Rightarrow> dev_state \<Rightarrow> 'q kernel_fs" where
  "boot_fs q ph dev \<equiv> \<lparr>kf_root = q, kf_phys = ph, kf_rams =
     [ram_fs_new, ram_fs_new, ram_fs_new, \<lparr>fs_dirs = [([], [CDir ''tmp'' 1]), (''tmp'', [])], fs_files = []\<rparr>,
      \<lparr>fs_dirs = [([], [CDir ''dev'' 1, CDir ''tmp'' 2, CDir ''home'' 3, CDir ''var'' 4, CDir ''proc'' 5, CDir ''bin'' 6]),
         (''dev'', []), (''tmp'', []), (''home'', []), (''var'', []), (''proc'', []), (''bin'', [])], fs_files = []\<rparr>], kf_dev = dev\<rparr>"

lemma boot_state: "fs_init rops rnames addr q None ph dev = Some (fs_mounts None, boot_fs q ph dev)"
  by (simp add: fs_init_def expect_def open_path_def file_open_def fs_mounts_route route_def path_levels_def path_from_def
      path_join_def join_step_def kernel_names_def ram_names_def root_dir_def put_ram_def rd_mkdir_def add_dir_def ram_fs_new_def
      set_children_def Let_def numeral_eq_Suc flags_contain_def)

text \<open>Without a disk the kernel's file systems come up: no step of \<open>init\<close> panics, the root and \<open>/var\<close> have the directories
  it creates, and every path is answered by the file system mounted deepest on it, \<open>/dev/shm\<close> before \<open>/dev\<close>.\<close>

theorem boot_layout:
  "\<exists>s. fs_init rops rnames addr q None ph dev = Some (fs_mounts None, s) \<and> kf_phys s = ph \<and> kf_dev s = dev \<and>
     map filename (children (kf_rams s ! 4) 0) = [''dev'', ''tmp'', ''home'', ''var'', ''proc'', ''bin''] \<and>
     map filename (children (kf_rams s ! 3) 0) = [''tmp''] \<and>
     (\<forall>p. get_mounted (fs_mounts None :: 'r vnode mounts) p = Some (route (NRam 4 root_dir) p))"
  using boot_state [of rops rnames addr q ph dev] fs_mounts_route [of None] by auto

abbreviation demo_dev :: dev_state where
  "demo_dev \<equiv> dev_state_new (\<lambda>_. \<lparr>ua_termios = termios_default, ua_u32 = 0, ua_winsize = win_size_default, ua_rtc = []\<rparr>) []"

abbreviation demo_tmp :: "ram_file \<Rightarrow> ram_file \<Rightarrow> ram_fs" where
  "demo_tmp a b \<equiv> \<lparr>fs_dirs = [([], [CFile ''a'' 0, CFile ''b'' 1])], fs_files = [a, b]\<rparr>"

abbreviation demo_kfs :: "phys \<Rightarrow> ram_fs \<Rightarrow> unit kernel_fs" where
  "demo_kfs ph tmp \<equiv> (boot_fs () ph demo_dev)\<lparr>kf_rams := (kf_rams (boot_fs () ph demo_dev))[0 := tmp]\<rparr>"

lemma demo_creates:
  "(fs_step (default_ops :: (unit, unit) inode_ops) default_names (\<lambda>_. 0))\<^sup>*\<^sup>* (boot_fs () demo_phys demo_dev)
     (demo_kfs demo_phys (demo_tmp (ram_file_new ''a'') (ram_file_new ''b'')))"
proof -
  let ?step = "fs_step (default_ops :: (unit, unit) inode_ops) default_names (\<lambda>_. 0)"
  let ?s1 = "demo_kfs demo_phys \<lparr>fs_dirs = [([], [CFile ''a'' 0])], fs_files = [ram_file_new ''a'']\<rparr>"
  note defs = kernel_ops_def ram_ops_def put_ram_def rd_create_def ram_fs_new_def set_children_def Let_def
  have "?step (boot_fs () demo_phys demo_dev) ?s1"
    by (rule step_create [where n = "NRam 0 (IDir 0)" and name = "''a''" and ty = FtFile and r = "Ok ()"])
      (simp_all add: node_valid_def defs)
  moreover have "?step ?s1 (demo_kfs demo_phys (demo_tmp (ram_file_new ''a'') (ram_file_new ''b'')))"
    by (rule step_create [where n = "NRam 0 (IDir 0)" and name = "''b''" and ty = FtFile and r = "Ok ()"])
      (simp_all add: node_valid_def defs)
  ultimately show ?thesis by (rule converse_rtranclp_into_rtranclp [OF _ r_into_rtranclp])
qed

lemma rf_writeat_total:
  assumes "owned ph f"
  shows "\<exists>ph' f' r. rf_writeat ph f off buf = Some (ph', f', r)"
proof -
  have "phys_ok ph" "set (rf_pages f) \<inter> fa_free (ph_frames ph) = {}" "distinct (rf_pages f)" using assms by (auto simp: pages_ok_def)
  then obtain ph1 inner c where "grow frame_alloc (div_ceil (wadd off (length buf)) PAGE_SIZE - length (rf_pages f)) ph (rf_pages f) =
      Some (ph1, inner, c)"
    using phl.grow_spec by blast
  then show ?thesis by (cases "\<not> c \<and> length inner = length (rf_pages f)") (simp_all add: rf_writeat_def Let_def case_prod_beta)
qed

lemma demo_write_b:
  "\<exists>ph b. fs_step (default_ops :: (unit, unit) inode_ops) default_names (\<lambda>_. 0) (demo_kfs demo_phys (demo_tmp (ram_file_new ''a'') (ram_file_new ''b'')))
     (demo_kfs ph (demo_tmp (ram_file_new ''a'') b)) \<and> rf_ok ph b \<and> rf_bytes ph b = [9]"
proof -
  have ok: "rf_ok demo_phys (ram_file_new n)" for n by (simp add: rf_ok_def phys_ok_def demo_frames_ok ram_file_new_def pages_ok_def)
  have "spec_write (rf_bytes demo_phys (ram_file_new ''b'')) 0 [9] = [9]" by (simp add: rf_bytes_def ram_file_new_def spec_write_def slice_set_def)
  moreover have "div_ceil (0 + length [9 :: u8]) PAGE_SIZE - length (rf_pages (ram_file_new ''b'')) \<le> card (fa_free (ph_frames demo_phys))"
    by (simp add: div_ceil_def demo_frames_free)
  ultimately obtain ph b where w: "rf_writeat demo_phys (ram_file_new ''b'') 0 [9] = Some (ph, b, Ok 1)" "rf_ok ph b" "rf_bytes ph b = [9]"
    using rf_writeat_spec [OF ok, of 0 "[9]" "''b''"] by auto
  have "fs_step (default_ops :: (unit, unit) inode_ops) default_names (\<lambda>_. 0) (demo_kfs demo_phys (demo_tmp (ram_file_new ''a'') (ram_file_new ''b'')))
     (demo_kfs ph (demo_tmp (ram_file_new ''a'') b))"
    by (rule step_write [where n = "NRam 0 (IFile 1)" and off = 0 and buf = "[9]" and r = "Ok 1"])
      (simp_all add: node_valid_def kernel_ops_def ram_ops_def put_ram_def w(1))
  with w(2,3) show ?thesis by blast
qed



text \<open>C22: a program that opens a file of \<open>/proc\<close> and reads it until a read returns 0, with a buffer of any size, gets exactly the
  file's text; one read more than the text has bytes is always enough.\<close>

theorem proc_file_read:
  assumes "map_of proc_dir_new name = Some node" "free_fds st \<noteq> {}" "0 < n" "n < 2 ^ 63" "length (proc_content node) < k"
  shows "\<exists>st' fd. sys_openat (kernel_ops rops rnames) (fs_mounts root) s st dir_fd (Some (Some (''/proc/'' @ name))) 0 = ((s, st'), Ok fd) \<and>
    read_to_end (kernel_ops rops rnames) k s st' fd n = Some (proc_content node)"
proof -
  let ?f = "\<lparr>of_inner = NProc node, of_path = [''proc'', name], of_offset = 0, of_flags = O_RDONLY\<rparr>"
  have fl: "from_bits_truncate 0 = O_RDONLY" by (simp add: from_bits_truncate_def)
  obtain st' where i: "install st ?f EMFILE = (st', Ok (Min (free_fds st)))"
      "fd_view st' = (fd_view st)(Min (free_fds st) := Some (length (open_files st)))" "open_files st' = open_files st @ [?f]"
    using install_lowest [OF assms(2), of ?f EMFILE] by blast
  have "sys_openat (kernel_ops rops rnames) (fs_mounts root) s st dir_fd (Some (Some (''/proc/'' @ name))) 0 = ((s, st'), Ok (Min (free_fds st)))"
    unfolding sys_openat_def Let_def fl option.case cstr_def sbind.simps
    by (simp add: proc_open [OF assms(1)] lift_fs_def lift_st_def i(1) del: append.simps)
  moreover have "read_to_end (kernel_ops rops rnames) k s st' (Min (free_fds st)) n = Some (drop 0 (proc_content node))"
    using i(2,3) assms(5) by (intro read_to_end_proc [OF proc_names(2) [OF assms(1)] assms(3,4), where p = "[''proc'', name]" and h = "length (open_files st)"]) simp_all
  ultimately show ?thesis by auto
qed

theorem proc_file_read_witness:
  "\<exists>st' fd. sys_openat (kernel_ops (default_ops :: (unit, unit) inode_ops) default_names) (fs_mounts None) (boot_fs () demo_phys demo_dev)
       \<lparr>open_files = [], fd_table = [None], rlimits = demo_limits 1, curr_dir = 0\<rparr> AT_CWD (Some (Some (''/proc/'' @ ''version''))) 0 =
       ((boot_fs () demo_phys demo_dev, st'), Ok fd) \<and>
     read_to_end (kernel_ops (default_ops :: (unit, unit) inode_ops) default_names) 5000 (boot_fs () demo_phys demo_dev) st' fd 16 =
       Some version_content"
proof -
  have "free_fds (\<lparr>open_files = [], fd_table = [None], rlimits = demo_limits 1, curr_dir = 0\<rparr> :: unit vnode fd_state) \<noteq> {}"
    by (auto simp: free_fds_def fd_view_def)
  moreover have "length (proc_content Version) < 5000" using length_proc_content [of Version] by simp
  moreover have "map_of proc_dir_new ''version'' = Some Version" by (simp add: proc_dir_new_def)
  moreover have "proc_content Version = version_content" by (simp add: proc_content_def)
  ultimately show ?thesis
    using proc_file_read [of "''version''" Version _ 16 5000 default_ops default_names None "boot_fs () demo_phys demo_dev" AT_CWD] by simp
qed

end
