(* ===== verification/Sockets.thy ===== *)
theory Sockets
  imports KernelFs Signals
begin

unbundle bit_operations_syntax

text \<open>
  Sockets: the inode \<open>Socket\<close> (\<open>kernel/src/socket.rs\<close>) and the system calls on it (\<open>kernel/src/syscall/socket.rs\<close>).

  \<^item> The network stack is the crate \<open>lose_net_stack\<close>.  Its \<open>NetServer\<close> and the trait \<open>SocketInterface\<close> are the parameter
    \<open>net_ops\<close>, on a state \<open>'w\<close> of the stack and with handles \<open>'i\<close> for \<open>Arc<dyn SocketInterface>\<close>.
  \<^item> A descriptor of the process refers to a socket, to a socket pair or to an inode of the file systems; the sockets are a
    heap, like the open files.
  \<^item> A call that waits is split where it yields: what it does before the loop, and one round of the loop.
  \<^item> The address structures behind user pointers are a map from addresses, as for \<open>ioctl\<close>; the bytes a call stores in a
    buffer are its result.
\<close>

section \<open>The network stack\<close>

record sock_addr =
  sa_ip :: "32 word"
  sa_port :: "16 word"

datatype net_error = Unsupported | EmptyClient | EmptyData | NoUdpRemoteAddress | ServerNotExists | PortWasUsed | Blocking

datatype socket_type = TCP | UDP | RawSocket

record ('w, 'i) net_ops =
  nt_blank_tcp :: "'w \<Rightarrow> 'w \<times> 'i"
  nt_blank_udp :: "'w \<Rightarrow> 'w \<times> 'i"
  nt_tcp_is_used :: "'w \<Rightarrow> 16 word \<Rightarrow> bool"
  nt_udp_is_used :: "'w \<Rightarrow> 16 word \<Rightarrow> bool"
  nt_get_tcp :: "'w \<Rightarrow> 16 word \<Rightarrow> 'i option"
  nt_get_udp :: "'w \<Rightarrow> 16 word \<Rightarrow> 'i option"
  nt_sendto :: "'w \<Rightarrow> 'i \<Rightarrow> u8 list \<Rightarrow> sock_addr option \<Rightarrow> 'w \<times> (net_error + usize)"
  nt_recv_from :: "'w \<Rightarrow> 'i \<Rightarrow> 'w \<times> (net_error + u8 list \<times> sock_addr)"
  nt_bind :: "'w \<Rightarrow> 'i \<Rightarrow> sock_addr \<Rightarrow> 'w \<times> (net_error + unit)"
  nt_listen :: "'w \<Rightarrow> 'i \<Rightarrow> 'w \<times> (net_error + unit)"
  nt_connect :: "'w \<Rightarrow> 'i \<Rightarrow> sock_addr \<Rightarrow> 'w \<times> (net_error + unit)"
  nt_accept :: "'w \<Rightarrow> 'i \<Rightarrow> 'w \<times> (net_error + 'i)"
  nt_readable :: "'w \<Rightarrow> 'i \<Rightarrow> net_error + bool"
  nt_get_local :: "'w \<Rightarrow> 'i \<Rightarrow> net_error + sock_addr"
  nt_get_protocol :: "'w \<Rightarrow> 'i \<Rightarrow> net_error + socket_type"
  nt_get_remote :: "'w \<Rightarrow> 'i \<Rightarrow> net_error + sock_addr"
  nt_is_closed :: "'w \<Rightarrow> 'i \<Rightarrow> net_error + bool"
  nt_close :: "'w \<Rightarrow> 'i \<Rightarrow> 'w \<times> (net_error + unit)"

text \<open>\<open>Result::unwrap\<close> and \<open>Result::map_err\<close>.\<close>

definition net_unwrap :: "net_error + 'a \<Rightarrow> 'a res" where
  "net_unwrap r = (case r of Inl e \<Rightarrow> Panic | Inr x \<Rightarrow> Ok x)"

definition net_map_err :: "errno \<Rightarrow> net_error + 'a \<Rightarrow> 'a res" where
  "net_map_err err r = (case r of Inl e \<Rightarrow> Err err | Inr x \<Rightarrow> Ok x)"

section \<open>The socket inode\<close>

datatype net_type = STEAM | DGRAME | RAW

definition net_type_from_usize :: "usize \<Rightarrow> net_type option" where
  "net_type_from_usize v = (if v = 1 then Some STEAM else if v = 2 then Some DGRAME else None)"

record 'i socket =
  so_domain :: usize
  so_net_type :: net_type
  so_inner :: 'i
  so_wsize :: usize
  so_rsize :: usize
  so_buf :: "u8 list"

definition new_with_inner :: "usize \<Rightarrow> net_type \<Rightarrow> 'i \<Rightarrow> 'i socket" where
  "new_with_inner domain net_type inner =
     \<lparr>so_domain = domain, so_net_type = net_type, so_inner = inner, so_wsize = 0, so_rsize = 0, so_buf = []\<rparr>"

definition socket_new :: "('w, 'i) net_ops \<Rightarrow> 'w \<Rightarrow> usize \<Rightarrow> net_type \<Rightarrow> 'w \<times> 'i socket res" where
  "socket_new nt w domain net_type =
     (case net_type of
        STEAM \<Rightarrow> (case nt_blank_tcp nt w of (w, inner) \<Rightarrow> (w, Ok (new_with_inner domain net_type inner)))
      | DGRAME \<Rightarrow> (case nt_blank_udp nt w of (w, inner) \<Rightarrow> (w, Ok (new_with_inner domain net_type inner)))
      | RAW \<Rightarrow> (w, Panic))"

text \<open>\<open>log::warn!\<close> formats the local address, so its \<open>unwrap\<close> is part of the function.\<close>

definition socket_recv_from :: "('w, 'i) net_ops \<Rightarrow> 'w \<Rightarrow> 'i socket \<Rightarrow> 'w \<times> (u8 list \<times> sock_addr) res" where
  "socket_recv_from nt w so =
     (case net_unwrap (nt_get_local nt w (so_inner so)) of
        Ok _ \<Rightarrow>
          (case nt_recv_from nt w (so_inner so) of
             (w, Inr x) \<Rightarrow> (w, Ok x)
           | (w, Inl _) \<Rightarrow> (w, Err EWOULDBLOCK))
      | _ \<Rightarrow> (w, Panic))"

definition socket_reuse :: "('w, 'i) net_ops \<Rightarrow> 'w \<Rightarrow> 'i socket \<Rightarrow> 16 word \<Rightarrow> 'i socket res" where
  "socket_reuse nt w so port =
     res_bind (net_unwrap (nt_get_protocol nt w (so_inner so))) (\<lambda>protocol.
       case (case protocol of TCP \<Rightarrow> nt_get_tcp nt w port | UDP \<Rightarrow> nt_get_udp nt w port | RawSocket \<Rightarrow> None) of
         Some inner \<Rightarrow> Ok (so\<lparr>so_inner := inner, so_buf := []\<rparr>)
       | None \<Rightarrow> Panic)"

text \<open>\<open>Drop\<close>, with the number of references to the stack's socket.\<close>

definition socket_drop :: "('w, 'i) net_ops \<Rightarrow> nat \<Rightarrow> 'w \<Rightarrow> 'i socket \<Rightarrow> 'w \<times> unit res" where
  "socket_drop nt strong_count w so =
     (case net_unwrap (nt_is_closed nt w (so_inner so)) of
        Ok closed \<Rightarrow>
          if \<not> closed \<and> (strong_count = 2 \<or> strong_count = 1) then (fst (nt_close nt w (so_inner so)), Ok ()) else (w, Ok ())
      | _ \<Rightarrow> (w, Panic))"

text \<open>The character a read of length 1 echoes on the debug console is not part of the state.\<close>

definition socket_readat ::
  "('w, 'i) net_ops \<Rightarrow> 'w \<Rightarrow> 'i socket \<Rightarrow> u8 list \<Rightarrow> 'w \<times> 'i socket \<times> u8 list \<times> usize res" where
  "socket_readat nt w so buffer =
     (let deliver = (\<lambda>w data.
        let rlen = min (length data) (length buffer);
            so = so\<lparr>so_rsize := wadd (so_rsize so) rlen, so_buf := (if rlen < length data then drop rlen data else [])\<rparr>
        in (w, so, slice_set buffer 0 (take rlen data), Ok rlen))
      in if length (so_buf so) = 0
         then (case nt_recv_from nt w (so_inner so) of
                 (w, Inr (data, _)) \<Rightarrow> deliver w data
               | (w, Inl _) \<Rightarrow> (w, so, buffer, Err EWOULDBLOCK))
         else deliver w (so_buf so))"

definition socket_writeat :: "('w, 'i) net_ops \<Rightarrow> 'w \<Rightarrow> 'i socket \<Rightarrow> u8 list \<Rightarrow> 'w \<times> 'i socket \<times> usize res" where
  "socket_writeat nt w so buffer =
     (case nt_sendto nt w (so_inner so) buffer None of
        (w, Inr len) \<Rightarrow> (w, so\<lparr>so_wsize := wadd (so_wsize so) len\<rparr>, Ok len)
      | (w, Inl _) \<Rightarrow> (w, so, Err EPERM))"

definition socket_poll :: "('w, 'i) net_ops \<Rightarrow> 'w \<Rightarrow> 'i socket \<Rightarrow> poll_event \<Rightarrow> poll_event res" where
  "socket_poll nt w so events =
     res_bind
       (if events AND POLLOUT = POLLOUT
        then res_bind (net_unwrap (nt_is_closed nt w (so_inner so))) (\<lambda>closed.
          Ok (if \<not> closed \<and> \<not> isl (nt_get_remote nt w (so_inner so)) then POLLOUT else 0))
        else Ok 0) (\<lambda>res.
     res_bind (net_unwrap (nt_readable nt w (so_inner so))) (\<lambda>readable.
       Ok (if readable \<and> events AND POLLIN = POLLIN then res OR POLLIN else res)))"

definition socket_stat :: "file_stat \<Rightarrow> file_stat res" where
  "socket_stat stat = Ok (stat\<lparr>st_mode := 0xC000\<rparr>)"

section \<open>System calls\<close>

datatype 'n snode = NSocket nat | NPair nat | NInode 'n

record sock_addr_in =
  in_family :: "16 word"
  in_port :: "16 word"
  in_addr :: "32 word"

record ('w, 'i) sock_state =
  sk_net :: 'w
  sk_sockets :: "'i socket list"
  sk_pairs :: "socket_pair list"
  sk_user :: "usize \<Rightarrow> sock_addr_in"

abbreviation socket_at :: "('w, 'i) sock_state \<Rightarrow> nat \<Rightarrow> 'i socket" where
  "socket_at s k \<equiv> sk_sockets s ! k"

abbreviation inner_of :: "('w, 'i) sock_state \<Rightarrow> nat \<Rightarrow> 'i" where
  "inner_of s k \<equiv> so_inner (socket_at s k)"

text \<open>\<open>u16::to_be\<close> on a little-endian machine.\<close>

definition to_be :: "16 word \<Rightarrow> 16 word" where
  "to_be x = push_bit 8 x OR drop_bit 8 x"

text \<open>\<open>Arc::new\<close> of a socket, and \<open>set_fd(fd, File::new_dev(node))\<close>.\<close>

definition add_socket :: "('w, 'i) sock_state \<Rightarrow> 'i socket \<Rightarrow> ('w, 'i) sock_state \<times> nat" where
  "add_socket s so = (s\<lparr>sk_sockets := sk_sockets s @ [so]\<rparr>, length (sk_sockets s))"

definition set_dev_file ::
  "('n snode, 'm) fd_state_scheme \<Rightarrow> usize \<Rightarrow> 'n snode open_file \<Rightarrow> ('n snode, 'm) fd_state_scheme \<times> unit res" where
  "set_dev_file st fd file =
     (let (st, h) = arc_new st file in case set_fd st fd h of None \<Rightarrow> (st, Panic) | Some st \<Rightarrow> (st, Ok ()))"

definition alloc_or :: "('n, 'm) fd_state_scheme \<Rightarrow> errno \<Rightarrow> ('n, 'm) fd_state_scheme \<times> usize res" where
  "alloc_or st e = (case alloc_fd st of (st, Some fd) \<Rightarrow> (st, Ok fd) | (st, None) \<Rightarrow> (st, Err e))"

text \<open>\<open>get_fd(fd).ok_or(EINVAL)?.get_bare_file().downcast_arc::<Socket>().map_err(|_| EINVAL)?\<close>: the file and the socket.\<close>

definition get_socket :: "('n snode, 'm) fd_state_scheme \<Rightarrow> usize \<Rightarrow> (nat \<times> nat) res" where
  "get_socket st fd =
     res_bind (fetch st fd EINVAL) (\<lambda>h. case of_inner (deref st h) of NSocket k \<Rightarrow> Ok (h, k) | _ \<Rightarrow> Err EINVAL)"

definition sys_socket ::
  "('w, 'i) net_ops \<Rightarrow> ('w, 'i) sock_state \<Rightarrow> ('n snode, 'm) fd_state_scheme \<Rightarrow> usize \<Rightarrow> usize
   \<Rightarrow> (('w, 'i) sock_state \<times> ('n snode, 'm) fd_state_scheme) \<times> usize res" where
  "sys_socket nt s st domain net_type =
     sbind (lift_st s (alloc_or st EMFILE)) (\<lambda>(s, st) fd.
     sbind ((s, st), case net_type_from_usize net_type of None \<Rightarrow> Err EINVAL | Some ty \<Rightarrow> Ok ty) (\<lambda>(s, st) ty.
     sbind (case socket_new nt (sk_net s) domain ty of (w, r) \<Rightarrow> ((s\<lparr>sk_net := w\<rparr>, st), r)) (\<lambda>(s, st) so.
       case add_socket s so of (s, k) \<Rightarrow>
       sbind (lift_st s (set_dev_file st fd (new_dev (NSocket k)))) (\<lambda>p _. (p, Ok fd)))))"

text \<open>The two numbers \<open>socketpair\<close> stores are returned with its result.\<close>

definition sys_socket_pair ::
  "('w, 'i) sock_state \<Rightarrow> ('n snode, 'm) fd_state_scheme
   \<Rightarrow> (('w, 'i) sock_state \<times> ('n snode, 'm) fd_state_scheme) \<times> (usize \<times> usize) res" where
  "sys_socket_pair s st =
     (let k = length (sk_pairs s); s = s\<lparr>sk_pairs := sk_pairs s @ [[]]\<rparr>
      in sbind (lift_st s (alloc_or st ENFILE)) (\<lambda>(s, st) rx_fd.
         sbind (lift_st s (set_dev_file st rx_fd (new_dev (NPair k)))) (\<lambda>(s, st) _.
         sbind (lift_st s (alloc_or st ENFILE)) (\<lambda>(s, st) tx_fd.
         sbind (lift_st s (set_dev_file st tx_fd (new_dev (NPair k)))) (\<lambda>p _. (p, Ok (rx_fd, tx_fd)))))))"

definition sys_bind ::
  "('w, 'i) net_ops \<Rightarrow> ('w, 'i) sock_state \<Rightarrow> ('n snode, 'm) fd_state_scheme \<Rightarrow> usize \<Rightarrow> usize
   \<Rightarrow> (('w, 'i) sock_state \<times> ('n snode, 'm) fd_state_scheme) \<times> usize res" where
  "sys_bind nt s st socket_fd addr_ptr =
     (let socket_addr = sk_user s addr_ptr
      in sbind ((s, st), get_socket st socket_fd) (\<lambda>(s, st) (h, k).
         let port = to_be (in_port socket_addr); ty = so_net_type (socket_at s k); w = sk_net s
         in if in_family socket_addr \<noteq> 2 then ((s, st), Err EAFNOSUPPORT)
            else if ty = STEAM \<and> nt_tcp_is_used nt w port \<or> ty = DGRAME \<and> nt_udp_is_used nt w port
            then sbind ((s, st), socket_reuse nt w (socket_at s k) port) (\<lambda>(s, st) sock.
                   case add_socket s sock of (s, k) \<Rightarrow>
                   sbind (lift_st s (set_dev_file st socket_fd (new_dev (NSocket k)))) (\<lambda>p _. (p, Ok 0)))
            else (case nt_bind nt w (inner_of s k) \<lparr>sa_ip = in_addr socket_addr, sa_port = port\<rparr> of
                    (w, r) \<Rightarrow> ((s\<lparr>sk_net := w\<rparr>, st), res_bind (net_map_err EALREADY r) (\<lambda>_. Ok 0)))))"

definition sys_listen ::
  "('w, 'i) net_ops \<Rightarrow> ('w, 'i) sock_state \<Rightarrow> ('n snode, 'm) fd_state_scheme \<Rightarrow> usize \<Rightarrow> ('w, 'i) sock_state \<times> usize res" where
  "sys_listen nt s st socket_fd =
     sbind (s, get_socket st socket_fd) (\<lambda>s (h, k). (s\<lparr>sk_net := fst (nt_listen nt (sk_net s) (inner_of s k))\<rparr>, Ok 0))"

text \<open>\<open>accept\<close>: the socket and the new descriptor are determined before the first wait.\<close>

definition accept_begin ::
  "('n snode, 'm) fd_state_scheme \<Rightarrow> usize \<Rightarrow> ('n snode, 'm) fd_state_scheme \<times> (nat \<times> nat \<times> usize) res" where
  "accept_begin st socket_fd =
     sbind (st, get_socket st socket_fd) (\<lambda>st (h, k).
     sbind (alloc_or st EMFILE) (\<lambda>st fd. (st, Ok (h, k, fd))))"

definition accepted_file :: "('w, 'i) sock_state \<Rightarrow> nat \<Rightarrow> 'i \<Rightarrow> ('w, 'i) sock_state \<times> 'n snode open_file" where
  "accepted_file s k new_socket =
     (case add_socket s (new_with_inner (so_domain (socket_at s k)) (so_net_type (socket_at s k)) new_socket) of
        (s, k) \<Rightarrow> (s, new_dev (NSocket k)))"

definition accept_round ::
  "('w, 'i) net_ops \<Rightarrow> u64 \<Rightarrow> ('w, 'i) sock_state \<Rightarrow> ('n snode, 'm) fd_state_scheme \<Rightarrow> nat \<times> nat \<times> usize
   \<Rightarrow> (('w, 'i) sock_state \<times> ('n snode, 'm) fd_state_scheme) \<times> usize res poll" where
  "accept_round nt signal s st a =
     (case a of (h, k, fd) \<Rightarrow>
      case nt_accept nt (sk_net s) (inner_of s k) of
        (w, Inr new_socket) \<Rightarrow>
          (case accepted_file (s\<lparr>sk_net := w\<rparr>) k new_socket of
             (s, file) \<Rightarrow>
               (case sbind (lift_st s (set_dev_file st fd file)) (\<lambda>p _. (p, Ok fd)) of (p, r) \<Rightarrow> (p, Ready r)))
      | (w, Inl _) \<Rightarrow>
          ((s\<lparr>sk_net := w\<rparr>, st), if has_signal signal then Ready (Err EINTR) else Pending))"

definition accept4_round ::
  "('w, 'i) net_ops \<Rightarrow> usize \<Rightarrow> open_flags \<Rightarrow> ('w, 'i) sock_state \<Rightarrow> ('n snode, 'm) fd_state_scheme \<Rightarrow> nat \<times> nat \<times> usize
   \<Rightarrow> (('w, 'i) sock_state \<times> ('n snode, 'm) fd_state_scheme) \<times> usize res poll" where
  "accept4_round nt socket_addr flags s st a =
     (case a of (h, k, fd) \<Rightarrow>
      case nt_accept nt (sk_net s) (inner_of s k) of
        (w, Inr new_socket) \<Rightarrow>
          (case net_unwrap (nt_get_remote nt w new_socket) of
             Ok remote \<Rightarrow>
               (let sa = (sk_user s socket_addr)\<lparr>in_family := 2, in_port := sa_port remote, in_addr := sa_ip remote\<rparr>;
                    s = s\<lparr>sk_net := w, sk_user := (sk_user s)(socket_addr := sa)\<rparr>
                in case accepted_file s k new_socket of
                     (s, file) \<Rightarrow>
                       (case sbind (lift_st s (set_dev_file st fd (file\<lparr>of_flags := flags\<rparr>))) (\<lambda>p _. (p, Ok fd)) of
                          (p, r) \<Rightarrow> (p, Ready r)))
           | _ \<Rightarrow> ((s\<lparr>sk_net := w\<rparr>, st), Ready Panic))
      | (w, Inl _) \<Rightarrow>
          ((s\<lparr>sk_net := w\<rparr>, st), if flags_contain (of_flags (deref st h)) O_NONBLOCK then Ready (Err EAGAIN) else Pending))"

definition connect_round ::
  "('w, 'i) net_ops \<Rightarrow> ('w, 'i) sock_state \<Rightarrow> nat \<Rightarrow> usize \<Rightarrow> ('w, 'i) sock_state \<times> usize res poll" where
  "connect_round nt s k socket_addr =
     (let a = sk_user s socket_addr
      in case nt_connect nt (sk_net s) (inner_of s k) \<lparr>sa_ip = in_addr a, sa_port = to_be (in_port a)\<rparr> of
           (w, r) \<Rightarrow> (s\<lparr>sk_net := w\<rparr>, if r = Inl Blocking then Pending else Ready (Ok 0)))"

definition recvfrom_round ::
  "('w, 'i) net_ops \<Rightarrow> ('w, 'i) sock_state \<Rightarrow> ('n snode, 'm) fd_state_scheme \<Rightarrow> nat \<times> nat \<Rightarrow> u8 list \<Rightarrow> usize
   \<Rightarrow> ('w, 'i) sock_state \<times> (u8 list \<times> usize res) poll" where
  "recvfrom_round nt s st a buffer addr =
     (case a of (h, k) \<Rightarrow>
      case socket_recv_from nt (sk_net s) (socket_at s k) of
        (w, Ok (data, remote)) \<Rightarrow>
          (let rlen = min (length data) (length buffer); s = s\<lparr>sk_net := w\<rparr>;
               sa = (sk_user s addr)\<lparr>in_port := to_be (sa_port remote), in_family := 2, in_addr := sa_ip remote\<rparr>
           in (if addr \<noteq> 0 then s\<lparr>sk_user := (sk_user s)(addr := sa)\<rparr> else s,
               Ready (slice_set buffer 0 (take rlen data), Ok rlen)))
      | (w, Err _) \<Rightarrow>
          (s\<lparr>sk_net := w\<rparr>,
           if flags_contain (of_flags (deref st h)) O_NONBLOCK then Ready (buffer, Err EAGAIN) else Pending)
      | (w, Panic) \<Rightarrow> (s\<lparr>sk_net := w\<rparr>, Ready (buffer, Panic)))"

definition store_name :: "('w, 'i) sock_state \<Rightarrow> usize \<Rightarrow> net_error + sock_addr \<Rightarrow> ('w, 'i) sock_state \<times> usize res" where
  "store_name s addr_ptr r =
     (case net_unwrap r of
        Ok a \<Rightarrow>
          (let sa = (sk_user s addr_ptr)\<lparr>in_family := 2, in_addr := sa_ip a, in_port := to_be (sa_port a)\<rparr>
           in (s\<lparr>sk_user := (sk_user s)(addr_ptr := sa)\<rparr>, Ok 0))
      | _ \<Rightarrow> (s, Panic))"

definition sys_getsockname ::
  "('w, 'i) net_ops \<Rightarrow> ('w, 'i) sock_state \<Rightarrow> ('n snode, 'm) fd_state_scheme \<Rightarrow> usize \<Rightarrow> usize \<Rightarrow> ('w, 'i) sock_state \<times> usize res" where
  "sys_getsockname nt s st socket_fd addr_ptr =
     sbind (s, get_socket st socket_fd) (\<lambda>s (h, k).
       if addr_ptr \<noteq> 0 then store_name s addr_ptr (nt_get_local nt (sk_net s) (inner_of s k)) else (s, Ok 0))"

definition sys_getpeername ::
  "('w, 'i) net_ops \<Rightarrow> ('w, 'i) sock_state \<Rightarrow> ('n snode, 'm) fd_state_scheme \<Rightarrow> usize \<Rightarrow> usize \<Rightarrow> ('w, 'i) sock_state \<times> usize res" where
  "sys_getpeername nt s st socket_fd addr_ptr =
     sbind (s, get_socket st socket_fd) (\<lambda>s (h, k).
       if addr_ptr \<noteq> 0 then store_name s addr_ptr (nt_get_remote nt (sk_net s) (inner_of s k)) else (s, Ok 0))"

definition sys_setsockopt :: "usize \<Rightarrow> usize \<Rightarrow> usize res" where
  "sys_setsockopt level optname = Ok 0"

text \<open>\<open>getsockopt\<close> on the old value behind its pointer.\<close>

definition sys_getsockopt :: "usize \<Rightarrow> 32 word \<Rightarrow> 32 word res" where
  "sys_getsockopt optname optval =
     (if optname = 7 then Ok 32000
      else if optname = 8 then Ok 32000
      else if optname = 2 then Ok 2000
      else if optname = 4 then Err EPERM
      else Ok optval)"

definition sys_sendto ::
  "('w, 'i) net_ops \<Rightarrow> ('w, 'i) sock_state \<Rightarrow> ('n snode, 'm) fd_state_scheme \<Rightarrow> usize \<Rightarrow> u8 list \<Rightarrow> usize
   \<Rightarrow> ('w, 'i) sock_state \<times> usize res" where
  "sys_sendto nt s st socket_fd buffer addr_ptr =
     sbind (s, get_socket st socket_fd) (\<lambda>s (h, k).
     sbind (s, net_unwrap (nt_get_local nt (sk_net s) (inner_of s k))) (\<lambda>s local.
     sbind (if sa_port local = 0
            then (case nt_bind nt (sk_net s) (inner_of s k) \<lparr>sa_ip = 0x7F000001, sa_port = 0\<rparr> of
                    (w, r) \<Rightarrow> (s\<lparr>sk_net := w\<rparr>, net_map_err EALREADY r))
            else (s, Ok ())) (\<lambda>s _.
       let a = sk_user s addr_ptr;
           remote = (if addr_ptr \<noteq> 0 then Some \<lparr>sa_ip = in_addr a, sa_port = to_be (in_port a)\<rparr> else None)
       in case nt_sendto nt (sk_net s) (inner_of s k) buffer remote of
            (w, r) \<Rightarrow> (s\<lparr>sk_net := w\<rparr>, net_unwrap r))))"

definition sys_shutdown ::
  "('w, 'i) net_ops \<Rightarrow> ('w, 'i) sock_state \<Rightarrow> ('n snode, 'm) fd_state_scheme \<Rightarrow> usize \<Rightarrow> ('w, 'i) sock_state \<times> usize res" where
  "sys_shutdown nt s st socket_fd =
     sbind (s, get_socket st socket_fd) (\<lambda>s (h, k). (s\<lparr>sk_net := fst (nt_close nt (sk_net s) (inner_of s k))\<rparr>, Ok 0))"

section \<open>Reading a stream\<close>

text \<open>A sequence of reads into buffers of given lengths: what they deliver, and what the stack hands over meanwhile.\<close>

fun run_reads ::
  "('w, 'i) net_ops \<Rightarrow> 'w \<Rightarrow> 'i socket \<Rightarrow> usize list \<Rightarrow> 'w \<times> 'i socket \<times> u8 list \<times> u8 list" where
  "run_reads nt w so [] = (w, so, [], [])"
| "run_reads nt w so (n # ns) =
     (let received = (if so_buf so = [] then (case nt_recv_from nt w (so_inner so) of (_, Inr (data, _)) \<Rightarrow> data | _ \<Rightarrow> []) else []);
          (w, so, b, r) = socket_readat nt w so (replicate n 0);
          (w, so, delivered, rest) = run_reads nt w so ns
      in (w, so, (case r of Ok k \<Rightarrow> take k b | _ \<Rightarrow> []) @ delivered, received @ rest))"

lemma socket_readat_bytes:
  assumes "socket_readat nt w so (replicate n 0) = (w', so', b, r)"
  shows "so_buf so @ (if so_buf so = [] then (case nt_recv_from nt w (so_inner so) of (_, Inr (data, _)) \<Rightarrow> data | _ \<Rightarrow> []) else []) =
    (case r of Ok k \<Rightarrow> take k b | _ \<Rightarrow> []) @ so_buf so'"
  using assms
  by (cases "so_buf so = []"; cases "nt_recv_from nt w (so_inner so)")
    (auto simp: socket_readat_def Let_def slice_set_def min_def split: sum.splits if_splits)

section \<open>Properties\<close>

text \<open>C26: reading a socket with \<open>read\<close> loses and reorders nothing, on any network stack.  Over any sequence of reads with buffers
  of any length, empty ones and failing reads included, the bytes buffered at the start followed by those the stack hands over
  are the bytes delivered followed by those still buffered.\<close>

theorem socket_reads_in_order:
  "case run_reads nt w so ns of (w', so', delivered, received) \<Rightarrow> so_buf so @ received = delivered @ so_buf so'"
proof (induction nt w so ns rule: run_reads.induct)
  case (2 nt w so n ns)
  obtain w1 so1 b r where a: "socket_readat nt w so (replicate n 0) = (w1, so1, b, r)" by (metis prod_cases4)
  obtain w2 so2 d rest where t: "run_reads nt w1 so1 ns = (w2, so2, d, rest)" by (metis prod_cases4)
  have "so_buf so1 @ rest = d @ so_buf so2" using 2 a t by fastforce
  moreover note socket_readat_bytes [OF a]
  ultimately show ?case using a t by (simp only: run_reads.simps Let_def prod.case) (metis append_assoc)
qed simp

text \<open>\<open>recvfrom\<close> passes over what an earlier short \<open>read\<close> left in the socket's buffer, and drops what does not fit its own: it
  delivers the front of the next packet, the buffer stays as it was, and the rest of the packet is nowhere.\<close>

theorem recvfrom_skips_buffer:
  assumes "nt_get_local nt (sk_net s) (inner_of s k) = Inr local"
    and "nt_recv_from nt (sk_net s) (inner_of s k) = (w, Inr (data, remote))" "length buffer \<le> length data"
  shows "\<exists>s'. recvfrom_round nt s st (h, k) buffer addr = (s', Ready (take (length buffer) data, Ok (length buffer))) \<and>
    sk_net s' = w \<and> sk_sockets s' = sk_sockets s"
  using assms by (auto simp: recvfrom_round_def socket_recv_from_def net_unwrap_def Let_def slice_set_def min_def)

lemma to_be_to_be: "to_be (to_be x) = x"
proof (rule bit_word_eqI)
  fix n assume "n < LENGTH(16)"
  then show "bit (to_be (to_be x)) n = bit x n"
    by (cases "n < 8") (auto simp: to_be_def bit_simps)
qed

lemma set_dev_file_open:
  assumes "fd_view st fd = Some x"
  shows "\<exists>st'. set_dev_file st fd f = (st', Ok ()) \<and> fd_view st' = (fd_view st)(fd := Some (length (open_files st))) \<and>
    open_files st' = open_files st @ [f]"
proof -
  have b: "fd < nofile st" "fd < length (fd_table st)" using assms by (auto simp: fd_view_def split: if_splits)
  then have "set_fd (st\<lparr>open_files := open_files st @ [f]\<rparr>) fd (length (open_files st)) =
      Some (st\<lparr>open_files := open_files st @ [f], fd_table := (fd_table st)[fd := Some (length (open_files st))]\<rparr>)"
    by (simp add: set_fd_def)
  then show ?thesis using b by (auto simp: set_dev_file_def arc_new_def fd_view_def fun_eq_iff)
qed

text \<open>C25: a process that waits in \<open>accept\<close> takes a descriptor away from its other threads.  \<open>accept\<close> chooses its descriptor before
  it waits and does not mark it as taken: a file that another thread opens meanwhile gets the same number, and when a
  connection arrives the socket replaces that file, which no descriptor refers to any more.\<close>

theorem accept_takes_open_descriptor:
  assumes "files_ok st" "accept_begin st socket_fd = (st1, Ok (h, k, fd))" "install st1 f EMFILE = (st2, Ok fd2)"
    and "nt_accept nt (sk_net s) (inner_of s k) = (w, Inr new_socket)"
  shows "fd2 = fd \<and> fd_view st2 fd = Some (length (open_files st)) \<and> deref st2 (length (open_files st)) = f \<and>
    (\<exists>s3 st3. accept_round nt signal s st2 (h, k, fd) = ((s3, st3), Ready (Ok fd)) \<and>
       (\<forall>i. fd_view st3 i \<noteq> Some (length (open_files st))) \<and>
       (\<exists>g. fd_view st3 fd = Some g \<and> of_inner (deref st3 g) = NSocket (length (sk_sockets s))))"
proof -
  have al: "alloc_fd st = (st1, Some fd)"
    using assms(2) by (auto simp: accept_begin_def alloc_or_def run_simps split: prod.splits option.splits)
  have v1: "fd_view st1 = fd_view st" "nofile st1 = nofile st" "open_files st1 = open_files st"
    using fdt.alloc_view [of st] alloc_fd_keeps(1) [of st] al by auto
  then have fr: "free_fds st1 = free_fds st" by (simp add: free_fds_def)
  have mn: "fd = Min (free_fds st)" "free_fds st \<noteq> {}" using fdt.alloc_Min [of st] al by (auto split: if_splits)
  obtain i: "fd2 = fd" "fd_view st2 = (fd_view st)(fd := Some (length (open_files st)))" "open_files st2 = open_files st @ [f]"
    using install_lowest [of st1 f EMFILE] assms(3) mn fr v1 by auto
  obtain st3 where st3: "set_dev_file st2 fd (new_dev (NSocket (length (sk_sockets s)))) = (st3, Ok ())"
      "fd_view st3 = (fd_view st2)(fd := Some (length (open_files st2)))"
      "open_files st3 = open_files st2 @ [new_dev (NSocket (length (sk_sockets s)))]"
    using set_dev_file_open [of st2 fd] i(2) by fastforce
  then obtain s3 where "accept_round nt signal s st2 (h, k, fd) = ((s3, st3), Ready (Ok fd))"
    using assms(4) by (simp add: accept_round_def lift_st_def accepted_file_def add_socket_def)
  moreover have "fd_view st j \<noteq> Some (length (open_files st))" for j
    using get_fd_ok [OF assms(1) get_fd_view, of j "length (open_files st)"] by blast
  ultimately show ?thesis using i st3(2,3) by (auto simp: new_dev_def nth_append)
qed

text \<open>A stack with one connection waiting.\<close>

definition demo_net :: "(nat list, nat) net_ops" where
  "demo_net =
     \<lparr>nt_blank_tcp = \<lambda>w. (w, 0), nt_blank_udp = \<lambda>w. (w, 0), nt_tcp_is_used = \<lambda>w p. False, nt_udp_is_used = \<lambda>w p. False,
      nt_get_tcp = \<lambda>w p. None, nt_get_udp = \<lambda>w p. None, nt_sendto = \<lambda>w i d r. (w, Inr (length d)),
      nt_recv_from = \<lambda>w i. (w, Inr ([1, 2, 3], \<lparr>sa_ip = 0, sa_port = 80\<rparr>)), nt_bind = \<lambda>w i a. (w, Inr ()), nt_listen = \<lambda>w i. (w, Inr ()),
      nt_connect = \<lambda>w i a. (w, Inr ()),
      nt_accept = \<lambda>w i. (case w of [] \<Rightarrow> (w, Inl EmptyClient) | c # cs \<Rightarrow> (cs, Inr c)),
      nt_readable = \<lambda>w i. Inr True, nt_get_local = \<lambda>w i. Inr \<lparr>sa_ip = 0, sa_port = 80\<rparr>, nt_get_protocol = \<lambda>w i. Inr TCP,
      nt_get_remote = \<lambda>w i. Inr \<lparr>sa_ip = 0, sa_port = 81\<rparr>, nt_is_closed = \<lambda>w i. Inr False, nt_close = \<lambda>w i. (w, Inr ())\<rparr>"

abbreviation demo_sock :: "(nat list, nat) sock_state" where
  "demo_sock \<equiv> \<lparr>sk_net = [7], sk_sockets = [new_with_inner 2 STEAM 0], sk_pairs = [],
     sk_user = \<lambda>_. \<lparr>in_family = 0, in_port = 0, in_addr = 0\<rparr>\<rparr>"

abbreviation demo_sock_fds :: "nat snode fd_state" where
  "demo_sock_fds \<equiv> \<lparr>open_files = [new_dev (NSocket 0)], fd_table = [Some 0, None], rlimits = demo_limits 2, curr_dir = 0\<rparr>"

theorem accept_takes_open_descriptor_witness:
  "\<exists>st2 s3 st3. accept_begin demo_sock_fds 0 = (demo_sock_fds, Ok (0, 0, 1)) \<and>
     install demo_sock_fds (new_dev (NInode 5)) EMFILE = (st2, Ok 1) \<and> of_inner (deref st2 1) = NInode 5 \<and>
     accept_round demo_net 0 demo_sock st2 (0, 0, 1) = ((s3, st3), Ready (Ok 1)) \<and> (\<forall>i. fd_view st3 i \<noteq> Some 1)"
proof -
  have ok: "files_ok demo_sock_fds" by (simp add: files_ok_def)
  have a: "accept_begin demo_sock_fds 0 = (demo_sock_fds, Ok (0, 0, 1))"
    by (simp add: accept_begin_def get_socket_def fetch_def get_fd_def vec_get_def new_dev_def alloc_or_def alloc_fd_def)
  obtain st2 where i: "install demo_sock_fds (new_dev (NInode 5)) EMFILE = (st2, Ok 1)"
    by (simp add: install_def arc_new_def alloc_fd_def set_fd_def)
  have n: "nt_accept demo_net (sk_net demo_sock) (inner_of demo_sock 0) = ([], Inr 7)" by (simp add: demo_net_def)
  show ?thesis using accept_takes_open_descriptor [OF ok a i n, of 0] a i by (auto simp: new_dev_def)
qed

theorem recvfrom_skips_buffer_witness:
  "\<exists>s'. recvfrom_round demo_net (demo_sock\<lparr>sk_sockets := [(new_with_inner 2 STEAM 0)\<lparr>so_buf := [9]\<rparr>]\<rparr>) demo_sock_fds (0, 0) [0, 0] 0 =
     (s', Ready ([1, 2], Ok 2)) \<and> sk_sockets s' = [(new_with_inner 2 STEAM 0)\<lparr>so_buf := [9]\<rparr>]"
  using recvfrom_skips_buffer [of demo_net "demo_sock\<lparr>sk_sockets := [(new_with_inner 2 STEAM 0)\<lparr>so_buf := [9]\<rparr>]\<rparr>" 0 _ _ "[1, 2, 3]" _ "[0, 0]"
      demo_sock_fds 0 0]
  by (auto simp: demo_net_def numeral_2_eq_2)

text \<open>What \<open>bind\<close> was given is what \<open>getsockname\<close> reports, in the byte order of the caller, for a stack that reports the address
  it was bound to.\<close>

theorem bind_then_getsockname:
  assumes "get_socket st fd = Ok (h, k)" "in_family (sk_user s a) = 2" "b \<noteq> 0"
    and "\<not> nt_tcp_is_used nt (sk_net s) (to_be (in_port (sk_user s a)))" "\<not> nt_udp_is_used nt (sk_net s) (to_be (in_port (sk_user s a)))"
    and "nt_bind nt (sk_net s) (inner_of s k) \<lparr>sa_ip = in_addr (sk_user s a), sa_port = to_be (in_port (sk_user s a))\<rparr> = (w, Inr ())"
    and reports: "\<And>x. nt_bind nt (sk_net s) (inner_of s k) x = (w, Inr ()) \<Longrightarrow> nt_get_local nt w (inner_of s k) = Inr x"
  shows "\<exists>s1 s2. sys_bind nt s st fd a = ((s1, st), Ok 0) \<and> sys_getsockname nt s1 st fd b = (s2, Ok 0) \<and>
    sk_user s2 b = (sk_user s b)\<lparr>in_family := 2, in_addr := in_addr (sk_user s a), in_port := in_port (sk_user s a)\<rparr>"
  using assms(1-6) reports [OF assms(6)]
  by (simp add: sys_bind_def sys_getsockname_def store_name_def net_map_err_def net_unwrap_def to_be_to_be Let_def)

text \<open>The port \<open>accept4\<close> stores for the peer is in the byte order of the machine; the one \<open>getpeername\<close> stores is in network
  order, and the two differ by a swap of their bytes.\<close>

theorem accept4_port_order:
  assumes "nt_accept nt (sk_net s) (inner_of s k) = (w, Inr new_socket)" "nt_get_remote nt w new_socket = Inr remote"
    and "fd_view st fd = Some x" "a \<noteq> 0" "b \<noteq> 0"
  shows "\<exists>s1 st1 s2. accept4_round nt a flags s st (h, k, fd) = ((s1, st1), Ready (Ok fd)) \<and>
    sys_getpeername nt s1 st1 fd b = (s2, Ok 0) \<and> in_port (sk_user s2 b) = to_be (in_port (sk_user s1 a))"
proof -
  let ?f = "\<lparr>of_inner = NSocket (length (sk_sockets s)), of_path = [], of_offset = 0, of_flags = flags\<rparr>"
  obtain st1 where st1: "set_dev_file st fd ?f = (st1, Ok ())" "fd_view st1 = (fd_view st)(fd := Some (length (open_files st)))"
      "open_files st1 = open_files st @ [?f]"
    using set_dev_file_open [OF assms(3)] by blast
  have "get_socket st1 fd = Ok (length (open_files st), length (sk_sockets s))"
    using fetch_view [of st1 fd] st1(2,3) by (simp add: get_socket_def)
  then show ?thesis using assms(1,2,4,5) st1(1)
    by (simp add: accept4_round_def accepted_file_def add_socket_def net_unwrap_def new_dev_def lift_st_def sys_getpeername_def
        store_name_def new_with_inner_def Let_def)
qed

end
