(* ===== verification/MemSet.thy ===== *)
theory MemSet
  imports Frames
begin

text \<open>
  The memory areas of a process, \<open>kernel/src/tasks/memset.rs\<close>.

  An area is a range of virtual addresses with the pages allocated in it so far, each a page
  address and the frame behind it.  \<open>MemArea::sub\<close> removes a range from an area and
  \<open>MemSet::sub_area\<close> from all of them.

  \<^item> The page table (\<open>vendor/polyhal\<close>) is the map it implements, from page addresses to frames
    and flags; \<open>unmap_page\<close> removes the entry of a page.
  \<^item> Writing a page back to its file goes through the argument \<open>wb\<close>, which takes the world of the
    file systems, the file, the offset, the frame and the number of bytes, and is \<open>None\<close> when the
    write fails, since the callers \<open>expect\<close> it not to.
  \<^item> Trackers are reference counted.  The operations return the trackers they drop, and \<open>sc\<close> gives
    the number of references to a frame where the code asks for it.

  The lemmas show that subtraction is set difference on the addresses covered and keeps areas
  disjoint, and what becomes of the pages.
\<close>

section \<open>Areas\<close>

datatype mem_type = CodeSection | Stack | Mmap | Shared | ShareFile

record map_track =
  mt_vaddr :: usize
  mt_frame :: usize

record 'f mem_area =
  ma_type :: mem_type
  ma_tracks :: "map_track list"
  ma_file :: "'f option"
  ma_offset :: usize
  ma_start :: usize
  ma_len :: usize

type_synonym page_table = "usize \<rightharpoonup> usize \<times> u64"

definition page_floor :: "usize \<Rightarrow> usize" where
  "page_floor v = v div PAGE_SIZE * PAGE_SIZE"

definition unmap_page :: "page_table \<Rightarrow> usize \<Rightarrow> page_table" where
  "unmap_page pt v = pt(page_floor v := None)"

abbreviation in_range :: "usize \<Rightarrow> usize \<Rightarrow> usize \<Rightarrow> bool" where
  "in_range s e x \<equiv> s \<le> x \<and> x < e"

abbreviation ma_end :: "'f mem_area \<Rightarrow> usize" where
  "ma_end a \<equiv> wadd (ma_start a) (ma_len a)"

definition ma_overlapping :: "'f mem_area \<Rightarrow> usize \<Rightarrow> usize \<Rightarrow> bool" where
  "ma_overlapping a start end =
     (\<not> ((start \<le> ma_start a \<and> end \<le> ma_start a) \<or> (start \<ge> ma_end a \<and> end \<ge> ma_end a)))"

definition ma_contains :: "'f mem_area \<Rightarrow> usize \<Rightarrow> bool" where
  "ma_contains a addr \<longleftrightarrow> ma_start a \<le> addr \<and> addr < ma_end a"

type_synonym ('w, 'f) write_back = "'w \<Rightarrow> 'f \<Rightarrow> usize \<Rightarrow> usize \<Rightarrow> usize \<Rightarrow> 'w run"

definition write_page :: "('w, 'f) write_back \<Rightarrow> 'w \<Rightarrow> 'f mem_area \<Rightarrow> map_track \<Rightarrow> 'w run" where
  "write_page wb w a t =
     (case ma_file a of
        None \<Rightarrow> None
      | Some f \<Rightarrow> wb w f (wsub (wadd (mt_vaddr t) (ma_offset a)) (ma_start a)) (mt_frame t) PAGE_SIZE)"

fun write_pages :: "('w, 'f) write_back \<Rightarrow> 'w \<Rightarrow> 'f mem_area \<Rightarrow> map_track list \<Rightarrow> 'w run" where
  "write_pages wb w a [] = Some w"
| "write_pages wb w a (t # ts) = Option.bind (write_page wb w a t) (\<lambda>w. write_pages wb w a ts)"

text \<open>Writing back what lies in a range, when the area has a file.\<close>

definition write_range :: "('w, 'f) write_back \<Rightarrow> 'w \<Rightarrow> 'f mem_area \<Rightarrow> usize \<Rightarrow> usize \<Rightarrow> 'w run" where
  "write_range wb w a start end =
     (if ma_file a = None then Some w
      else write_pages wb w a (filter (\<lambda>t. in_range start end (mt_vaddr t)) (ma_tracks a)))"

record ('w, 'f) subbed =
  sb_area :: "'f mem_area"
  sb_pt :: page_table
  sb_world :: 'w
  sb_new :: "'f mem_area option"
  sb_dropped :: "map_track list"

definition ma_sub ::
  "('w, 'f) write_back \<Rightarrow> 'w \<Rightarrow> page_table \<Rightarrow> 'f mem_area \<Rightarrow> usize \<Rightarrow> usize \<Rightarrow> ('w, 'f) subbed run" where
  "ma_sub wb w pt a start end =
     (if \<not> ma_overlapping a start end then Some \<lparr>sb_area = a, sb_pt = pt, sb_world = w, sb_new = None, sb_dropped = []\<rparr>
      else let rs = ma_start a; re = ma_end a in
      if in_range rs re start \<and> in_range rs re end then
        (let a = a\<lparr>ma_len := wsub start rs\<rparr>
         in Option.bind (write_range wb w a start end) (\<lambda>w.
            let kept = filter (\<lambda>t. \<not> in_range end re (mt_vaddr t)) (ma_tracks a);
                moved = filter (\<lambda>t. in_range end re (mt_vaddr t)) kept
            in Some \<lparr>sb_area = a\<lparr>ma_tracks := filter (\<lambda>t. \<not> in_range end re (mt_vaddr t)) kept\<rparr>,
                     sb_pt = pt, sb_world = w,
                     sb_new = Some \<lparr>ma_type = ma_type a, ma_tracks = moved, ma_file = ma_file a,
                                    ma_offset = wsub end rs, ma_start = end, ma_len = re - end\<rparr>,
                     sb_dropped = filter (\<lambda>t. in_range end re (mt_vaddr t)) (ma_tracks a)\<rparr>))
      else if in_range start end rs \<and> in_range start end re then
        (let a = a\<lparr>ma_len := 0\<rparr>
         in Option.bind (write_range wb w a start end) (\<lambda>w.
            Some \<lparr>sb_area = a\<lparr>ma_tracks := []\<rparr>,
                  sb_pt = foldl (\<lambda>pt t. unmap_page pt (mt_vaddr t)) pt (ma_tracks a), sb_world = w,
                  sb_new = None, sb_dropped = ma_tracks a\<rparr>))
      else
        (let a = (if in_range rs re start then a\<lparr>ma_len := wsub start rs\<rparr>
                  else if in_range start end rs then a\<lparr>ma_len := wsub re end, ma_start := end\<rparr>
                  else a)
         in Option.bind (write_range wb w a start end) (\<lambda>w.
            let out = filter (\<lambda>t. \<not> in_range (ma_start a) (ma_end a) (mt_vaddr t)) (ma_tracks a)
            in Some \<lparr>sb_area = a\<lparr>ma_tracks := filter (\<lambda>t. in_range (ma_start a) (ma_end a) (mt_vaddr t)) (ma_tracks a)\<rparr>,
                     sb_pt = foldl (\<lambda>pt t. unmap_page pt (mt_vaddr t)) pt out, sb_world = w,
                     sb_new = None, sb_dropped = out\<rparr>)))"

text \<open>\<open>Drop for MemArea\<close>.\<close>

fun drop_tracks :: "('w, 'f) write_back \<Rightarrow> (usize \<Rightarrow> nat) \<Rightarrow> 'w \<Rightarrow> 'f \<Rightarrow> usize \<Rightarrow> usize \<Rightarrow> map_track list \<Rightarrow> 'w run" where
  "drop_tracks wb sc w f start len [] = Some w"
| "drop_tracks wb sc w f start len (t # ts) =
     (if sc (mt_frame t) > 1 then drop_tracks wb sc w f start len ts
      else let offset = wsub (mt_vaddr t) start; wlen = min (wsub len offset) PAGE_SIZE
           in Option.bind (wb w f offset (mt_frame t) wlen) (\<lambda>w. drop_tracks wb sc w f start len ts))"

definition ma_drop :: "('w, 'f) write_back \<Rightarrow> (usize \<Rightarrow> nat) \<Rightarrow> 'w \<Rightarrow> 'f mem_area \<Rightarrow> 'w run" where
  "ma_drop wb sc w a =
     (if ma_type a = ShareFile
      then (case ma_file a of None \<Rightarrow> None | Some f \<Rightarrow> drop_tracks wb sc w f (ma_start a) (ma_len a) (ma_tracks a))
      else Some w)"

section \<open>Sets of areas\<close>

definition ms_overlapping :: "'f mem_area list \<Rightarrow> usize \<Rightarrow> usize \<Rightarrow> bool" where
  "ms_overlapping ms start end \<longleftrightarrow> (\<exists>a \<in> set ms. ma_overlapping a start end)"

text \<open>\<open>retain_mut\<close> of \<open>sub_area\<close>: the areas kept, the areas split off, and the trackers dropped.\<close>

fun sub_loop ::
  "('w, 'f) write_back \<Rightarrow> (usize \<Rightarrow> nat) \<Rightarrow> 'w \<Rightarrow> page_table \<Rightarrow> 'f mem_area list \<Rightarrow> usize \<Rightarrow> usize
   \<Rightarrow> ('w \<times> page_table \<times> 'f mem_area list \<times> 'f mem_area list \<times> map_track list) run" where
  "sub_loop wb sc w pt [] start end = Some (w, pt, [], [], [])"
| "sub_loop wb sc w pt (a # ms) start end =
     Option.bind (ma_sub wb w pt a start end) (\<lambda>r.
     Option.bind (if ma_len (sb_area r) \<noteq> 0 then Some (sb_world r) else ma_drop wb sc (sb_world r) (sb_area r)) (\<lambda>w.
     Option.bind (sub_loop wb sc w (sb_pt r) ms start end) (\<lambda>(w, pt, kept, new_set, dropped).
     Some (w, pt, (if ma_len (sb_area r) \<noteq> 0 then sb_area r # kept else kept),
           (case sb_new r of Some n \<Rightarrow> n # new_set | None \<Rightarrow> new_set),
           sb_dropped r @ (if ma_len (sb_area r) \<noteq> 0 then [] else ma_tracks (sb_area r)) @ dropped))))"

definition sub_area ::
  "('w, 'f) write_back \<Rightarrow> (usize \<Rightarrow> nat) \<Rightarrow> 'w \<Rightarrow> page_table \<Rightarrow> 'f mem_area list \<Rightarrow> usize \<Rightarrow> usize
   \<Rightarrow> ('w \<times> page_table \<times> 'f mem_area list \<times> map_track list) run" where
  "sub_area wb sc w pt ms start end =
     map_option (\<lambda>(w, pt, kept, new_set, dropped). (w, pt, kept @ new_set, dropped))
       (sub_loop wb sc w pt ms start end)"

section \<open>Subtraction is set difference\<close>

definition area_ok :: "'f mem_area \<Rightarrow> bool" where
  "area_ok a \<longleftrightarrow> ma_start a + ma_len a < 2 ^ 64"

definition covered :: "'f mem_area \<Rightarrow> usize set" where
  "covered a = {ma_start a ..< ma_start a + ma_len a}"

definition cover :: "'f mem_area list \<Rightarrow> usize set" where
  "cover ms = (\<Union>a \<in> set ms. covered a)"

fun areas_ok :: "'f mem_area list \<Rightarrow> bool" where
  "areas_ok [] \<longleftrightarrow> True"
| "areas_ok (a # ms) \<longleftrightarrow> area_ok a \<and> covered a \<inter> cover ms = {} \<and> areas_ok ms"

lemma ma_end_exact [usize_simps]: "area_ok a \<Longrightarrow> ma_end a = ma_start a + ma_len a"
  by (simp add: area_ok_def wadd_exact)

lemma ma_contains_iff: "area_ok a \<Longrightarrow> ma_contains a x \<longleftrightarrow> x \<in> covered a"
  by (auto simp: ma_contains_def covered_def ma_end_exact)

lemma ma_overlapping_iff:
  assumes "area_ok a" "s < e" "ma_len a > 0"
  shows "ma_overlapping a s e \<longleftrightarrow> covered a \<inter> {s ..< e} \<noteq> {}"
proof -
  have "covered a \<inter> {s ..< e} = {max (ma_start a) s ..< min (ma_start a + ma_len a) e}"
    by (auto simp: covered_def)
  then show ?thesis
    using assms by (auto simp: ma_overlapping_def ma_end_exact)
qed

lemma not_overlapping_disjoint:
  "area_ok a \<Longrightarrow> s \<le> e \<Longrightarrow> \<not> ma_overlapping a s e \<Longrightarrow> covered a \<inter> {s ..< e} = {}"
  by (auto simp: ma_overlapping_def covered_def ma_end_exact)

definition sub_parts :: "('w, 'f) subbed \<Rightarrow> usize set" where
  "sub_parts r = (case sb_new r of None \<Rightarrow> {} | Some n \<Rightarrow> covered n)"

lemma ma_sub_cover:
  assumes "area_ok a" "s \<le> e" "ma_sub wb w pt a s e = Some r"
  shows "area_ok (sb_area r) \<and> (\<forall>n. sb_new r = Some n \<longrightarrow> area_ok n) \<and>
    covered (sb_area r) \<union> sub_parts r = covered a - {s ..< e} \<and> covered (sb_area r) \<inter> sub_parts r = {}"
proof -
  let ?rs = "ma_start a" and ?re = "ma_start a + ma_len a"
  have re: "ma_end a = ?re" "?re < 2 ^ 64" using assms(1) by (simp_all add: ma_end_exact area_ok_def)
  consider (out) "\<not> ma_overlapping a s e"
    | (mid) "ma_overlapping a s e" "in_range ?rs ?re s \<and> in_range ?rs ?re e"
    | (all) "ma_overlapping a s e" "\<not> (in_range ?rs ?re s \<and> in_range ?rs ?re e)" "in_range s e ?rs \<and> in_range s e ?re"
    | (part) "ma_overlapping a s e" "\<not> (in_range ?rs ?re s \<and> in_range ?rs ?re e)" "\<not> (in_range s e ?rs \<and> in_range s e ?re)"
    by blast
  then show ?thesis
  proof cases
    case out
    with assms(3) have "r = \<lparr>sb_area = a, sb_pt = pt, sb_world = w, sb_new = None, sb_dropped = []\<rparr>"
      by (simp add: ma_sub_def)
    then show ?thesis using assms(1) not_overlapping_disjoint [OF assms(1,2) out] by (auto simp: sub_parts_def)
  next
    case mid
    then have "ma_start (sb_area r) = ?rs" "ma_len (sb_area r) = s - ?rs"
        "\<exists>n. sb_new r = Some n \<and> ma_start n = e \<and> ma_len n = ?re - e"
      using assms(3) re by (auto simp: ma_sub_def Let_def bind_Some_iff wsub_exact)
    then show ?thesis using mid re assms(2) by (auto simp: sub_parts_def covered_def area_ok_def)
  next
    case all
    then have "ma_len (sb_area r) = 0" "ma_start (sb_area r) = ?rs" "sb_new r = None"
      using assms(3) re by (auto simp: ma_sub_def Let_def bind_Some_iff)
    then show ?thesis using all re by (auto simp: sub_parts_def covered_def area_ok_def)
  next
    case part
    show ?thesis
    proof (cases "in_range ?rs ?re s")
      case True
      then have "ma_len (sb_area r) = s - ?rs" "ma_start (sb_area r) = ?rs" "sb_new r = None"
        using assms(3) part re by (auto simp: ma_sub_def Let_def bind_Some_iff wsub_exact)
      then show ?thesis using True part re assms(2) by (auto simp: sub_parts_def covered_def area_ok_def)
    next
      case False
      then have b: "in_range s e ?rs" using part re assms(2) by (auto simp: ma_overlapping_def)
      then have le: "e \<le> ?re" using part by auto
      have "ma_len (sb_area r) = ?re - e" "ma_start (sb_area r) = e" "sb_new r = None"
        using assms(3) part re False b le by (auto simp: ma_sub_def Let_def bind_Some_iff wsub_exact)
      then show ?thesis using b le re by (auto simp: sub_parts_def covered_def area_ok_def)
    qed
  qed
qed

lemma cover_simps [simp]:
  "cover [] = {}" "cover (a # ms) = covered a \<union> cover ms" "cover (ms @ ns) = cover ms \<union> cover ns"
  by (auto simp: cover_def)

lemma covered_empty: "ma_len a = 0 \<Longrightarrow> covered a = {}"
  by (simp add: covered_def)

lemma areas_ok_append:
  "areas_ok (ms @ ns) \<longleftrightarrow> areas_ok ms \<and> areas_ok ns \<and> cover ms \<inter> cover ns = {}"
  by (induction ms) auto

lemma areas_ok_mem: "areas_ok ms \<Longrightarrow> a \<in> set ms \<Longrightarrow> area_ok a"
  by (induction ms) auto

lemma sub_loop_cover:
  "areas_ok ms \<Longrightarrow> s \<le> e \<Longrightarrow> sub_loop wb sc w pt ms s e = Some (w', pt', kept, news, dropped) \<Longrightarrow>
   areas_ok kept \<and> areas_ok news \<and> cover kept \<inter> cover news = {} \<and> cover kept \<union> cover news = cover ms - {s ..< e}"
proof (induction ms arbitrary: w pt w' pt' kept news dropped)
  case (Cons a ms)
  obtain r w1 w2 pt2 k2 n2 d2 where r: "ma_sub wb w pt a s e = Some r"
      "sub_loop wb sc w1 (sb_pt r) ms s e = Some (w2, pt2, k2, n2, d2)"
      "kept = (if ma_len (sb_area r) \<noteq> 0 then sb_area r # k2 else k2)"
      "news = (case sb_new r of Some n \<Rightarrow> n # n2 | None \<Rightarrow> n2)"
    using Cons.prems(3) by (auto simp: bind_Some_iff)
  have a: "area_ok (sb_area r)" "\<forall>n. sb_new r = Some n \<longrightarrow> area_ok n"
      "covered (sb_area r) \<union> sub_parts r = covered a - {s ..< e}" "covered (sb_area r) \<inter> sub_parts r = {}"
    using ma_sub_cover [OF _ Cons.prems(2) r(1)] Cons.prems(1) by auto
  have ih: "areas_ok k2" "areas_ok n2" "cover k2 \<inter> cover n2 = {}" "cover k2 \<union> cover n2 = cover ms - {s ..< e}"
    using Cons.IH [OF _ Cons.prems(2) r(2)] Cons.prems(1) by auto
  have k: "cover kept = covered (sb_area r) \<union> cover k2" using r(3) covered_empty [of "sb_area r"] by auto
  have n: "cover news = sub_parts r \<union> cover n2" using r(4) by (auto simp: sub_parts_def split: option.splits)
  have apart: "(covered (sb_area r) \<union> sub_parts r) \<inter> (cover k2 \<union> cover n2) = {}"
    using Cons.prems(1) unfolding a(3) ih(4) by auto
  have "areas_ok kept" using r(3) a(1) ih(1) apart by auto
  moreover have "areas_ok news" using r(4) a(2) ih(2) apart by (auto simp: sub_parts_def split: option.splits)
  moreover have "cover kept \<inter> cover news = {}" using k n a(4) ih(3) apart by blast
  moreover have "cover kept \<union> cover news = cover (a # ms) - {s ..< e}" using k n a(3) ih(4) by (simp add: Un_Diff) blast
  ultimately show ?case by blast
qed auto

lemma sub_area_cover:
  assumes "areas_ok ms" "s \<le> e" "sub_area wb sc w pt ms s e = Some (w', pt', ms', dropped)"
  shows "areas_ok ms' \<and> cover ms' = cover ms - {s ..< e}"
  using sub_loop_cover [OF assms(1,2), of wb sc w pt] assms(3)
  by (auto simp: sub_area_def areas_ok_append)

section \<open>What becomes of the pages\<close>

definition files_present :: "'f mem_area list \<Rightarrow> bool" where
  "files_present ms \<longleftrightarrow> (\<forall>a \<in> set ms. ma_type a = ShareFile \<longrightarrow> ma_file a \<noteq> None)"

definition total_wb :: "('w, 'f) write_back \<Rightarrow> bool" where
  "total_wb wb \<longleftrightarrow> (\<forall>w f off p n. wb w f off p n \<noteq> None)"

lemma write_pages_total: "total_wb wb \<Longrightarrow> ma_file a \<noteq> None \<Longrightarrow> \<exists>w'. write_pages wb w a ts = Some w'"
proof (induction ts arbitrary: w)
  case (Cons t ts)
  obtain w1 where "write_page wb w a t = Some w1"
    using Cons.prems unfolding write_page_def total_wb_def by fastforce
  then show ?case using Cons by simp
qed simp

lemma write_range_total: "total_wb wb \<Longrightarrow> \<exists>w'. write_range wb w a s e = Some w'"
  by (cases "ma_file a = None") (simp_all add: write_range_def write_pages_total)

lemma drop_tracks_total: "total_wb wb \<Longrightarrow> \<exists>w'. drop_tracks wb sc w f st len ts = Some w'"
proof (induction ts arbitrary: w)
  case (Cons t ts)
  obtain w1 where "wb w f (wsub (mt_vaddr t) st) (mt_frame t) (min (wsub len (wsub (mt_vaddr t) st)) PAGE_SIZE) = Some w1"
    using Cons.prems unfolding total_wb_def by fastforce
  then show ?case using Cons by (simp add: Let_def)
qed simp

definition same_backing :: "'f mem_area \<Rightarrow> 'f mem_area \<Rightarrow> bool" where
  "same_backing a b \<longleftrightarrow> ma_type b = ma_type a \<and> ma_file b = ma_file a"

lemma ma_sub_shape:
  assumes wr: "\<And>x. ma_file x = ma_file a \<Longrightarrow> write_range wb w x s e = Some (wr x)"
  shows "\<exists>r. ma_sub wb w pt a s e = Some r \<and> same_backing a (sb_area r) \<and> pred_option (same_backing a) (sb_new r) \<and>
    set (sb_dropped r) \<union> set (ma_tracks (sb_area r)) \<subseteq> set (ma_tracks a) \<and> sb_world r \<in> insert w (range wr)"
proof -
  let ?m = "in_range (ma_start a) (ma_end a) s \<and> in_range (ma_start a) (ma_end a) e"
    and ?c = "in_range s e (ma_start a) \<and> in_range s e (ma_end a)"
  have w1: "write_range wb w (a\<lparr>ma_len := l\<rparr>) s e = Some (wr (a\<lparr>ma_len := l\<rparr>))" for l
    by (rule wr) simp
  have w2: "write_range wb w (a\<lparr>ma_len := l, ma_start := b\<rparr>) s e = Some (wr (a\<lparr>ma_len := l, ma_start := b\<rparr>))" for l b
    by (rule wr) simp
  consider "\<not> ma_overlapping a s e" | "ma_overlapping a s e" ?m | "ma_overlapping a s e" "\<not> ?m" ?c
    | "ma_overlapping a s e" "\<not> ?m" "\<not> ?c" "in_range (ma_start a) (ma_end a) s"
    | "ma_overlapping a s e" "\<not> ?m" "\<not> ?c" "\<not> in_range (ma_start a) (ma_end a) s" "in_range s e (ma_start a)"
    | "ma_overlapping a s e" "\<not> ?m" "\<not> ?c" "\<not> in_range (ma_start a) (ma_end a) s" "\<not> in_range s e (ma_start a)"
    by blast
  then show ?thesis
    by cases (simp_all only: ma_sub_def Let_def w1 w2 wr [OF refl] Option.bind.bind_lunit if_True if_False
        simp_thms, auto simp: same_backing_def)
qed

lemma ma_sub_total:
  fixes wb :: "('a, 'b) write_back"
  assumes "total_wb wb"
  shows "\<exists>r. ma_sub wb w pt a s e = Some r \<and> same_backing a (sb_area r) \<and> pred_option (same_backing a) (sb_new r)"
proof -
  have "write_range wb w x s e = Some (the (write_range wb w x s e))" for x :: "'b mem_area"
    using write_range_total [OF assms, of w x s e] by auto
  from ma_sub_shape [OF this] show ?thesis by blast
qed

lemma files_present_backing:
  "files_present (a # ms) \<Longrightarrow> same_backing a b \<Longrightarrow> files_present ns \<Longrightarrow> files_present (b # ns)"
  by (auto simp: files_present_def same_backing_def)

lemma sub_loop_total:
  "total_wb wb \<Longrightarrow> files_present ms \<Longrightarrow>
   \<exists>w' pt' kept news dropped. sub_loop wb sc w pt ms s e = Some (w', pt', kept, news, dropped) \<and>
     files_present kept \<and> files_present news"
proof (induction ms arbitrary: w pt)
  case (Cons a ms)
  obtain r where r: "ma_sub wb w pt a s e = Some r" "same_backing a (sb_area r)" "pred_option (same_backing a) (sb_new r)"
    using ma_sub_total [OF Cons.prems(1), of w pt a s e] by blast
  have fp: "files_present [sb_area r]" "files_present ms"
    using files_present_backing [OF Cons.prems(2) r(2), of "[]"] Cons.prems(2) by (simp_all add: files_present_def)
  have "\<exists>w1. ma_drop wb sc (sb_world r) (sb_area r) = Some w1"
    using fp(1) drop_tracks_total [OF Cons.prems(1)] by (auto simp: ma_drop_def files_present_def)
  then obtain w1 where w1:
      "(if ma_len (sb_area r) \<noteq> 0 then Some (sb_world r) else ma_drop wb sc (sb_world r) (sb_area r)) = Some w1"
    by (cases "ma_len (sb_area r) = 0") auto
  obtain w2 pt2 k n d where l: "sub_loop wb sc w1 (sb_pt r) ms s e = Some (w2, pt2, k, n, d)" "files_present k" "files_present n"
    using Cons.IH [OF Cons.prems(1) fp(2), of w1 "sb_pt r"] by blast
  have "files_present (if ma_len (sb_area r) \<noteq> 0 then sb_area r # k else k)"
    using l(2) files_present_backing [OF Cons.prems(2) r(2)] by simp
  moreover have "files_present (case sb_new r of Some x \<Rightarrow> x # n | None \<Rightarrow> n)"
    using l(3) r(3) files_present_backing [OF Cons.prems(2)] by (cases "sb_new r") simp_all
  ultimately show ?case
    by (simp only: sub_loop.simps r(1) Option.bind.bind_lunit w1 l(1) prod.case) blast
qed (simp add: files_present_def)

lemma sub_area_total:
  assumes "total_wb wb" "files_present ms"
  shows "\<exists>w' pt' ms' dropped. sub_area wb sc w pt ms s e = Some (w', pt', ms', dropped) \<and> files_present ms'"
proof -
  obtain w' pt' k n d where "sub_loop wb sc w pt ms s e = Some (w', pt', k, n, d)" "files_present k" "files_present n"
    using sub_loop_total [OF assms, of sc w pt s e] by blast
  then show ?thesis by (simp add: sub_area_def files_present_def ball_Un)
qed

lemma ma_sub_middle:
  assumes "area_ok a" "ma_file a = None" "ma_start a \<le> s" "s \<le> e" "e < ma_start a + ma_len a" "s < e \<or> ma_start a < s"
  shows "ma_sub wb w pt a s e = Some
    \<lparr>sb_area = a\<lparr>ma_len := s - ma_start a,
        ma_tracks := filter (\<lambda>t. \<not> in_range e (ma_start a + ma_len a) (mt_vaddr t)) (ma_tracks a)\<rparr>,
     sb_pt = pt, sb_world = w,
     sb_new = Some \<lparr>ma_type = ma_type a, ma_tracks = [], ma_file = None, ma_offset = e - ma_start a, ma_start = e,
        ma_len = ma_start a + ma_len a - e\<rparr>,
     sb_dropped = filter (\<lambda>t. in_range e (ma_start a + ma_len a) (mt_vaddr t)) (ma_tracks a)\<rparr>"
proof -
  have "ma_end a = ma_start a + ma_len a" "ma_start a + ma_len a < 2 ^ 64"
    using assms(1) by (simp_all add: ma_end_exact area_ok_def)
  moreover have "ma_overlapping a s e"
    using assms(3-6) calculation(1) by (auto simp: ma_overlapping_def)
  ultimately show ?thesis
    using assms by (simp add: ma_sub_def Let_def write_range_def wsub_exact)
qed

section \<open>Properties\<close>

abbreviation demo_area :: "nat mem_area" where
  "demo_area \<equiv> \<lparr>ma_type = Mmap, ma_tracks = [\<lparr>mt_vaddr = 0x12000, mt_frame = 0x80000000\<rparr>], ma_file = None,
     ma_offset = 0, ma_start = 0x10000, ma_len = 0x3000\<rparr>"

text \<open>Unmapping a range inside an area drops the frames of the pages behind that range although
  the addresses still belong to the process and the page table still maps them.\<close>

theorem unmap_middle_frees_mapped_pages:
  assumes "area_ok a" "ma_file a = None" "ma_type a \<noteq> ShareFile" "ma_start a \<le> s" "s < e" "e < ma_start a + ma_len a"
    "t \<in> set (ma_tracks a)" "e \<le> mt_vaddr t" "mt_vaddr t < ma_start a + ma_len a"
    "pt (page_floor (mt_vaddr t)) = Some (mt_frame t, fl)"
  shows "\<exists>pt' ms' dropped. sub_area wb sc w pt [a] s e = Some (w, pt', ms', dropped) \<and> t \<in> set dropped \<and>
    pt' (page_floor (mt_vaddr t)) = Some (mt_frame t, fl) \<and> mt_vaddr t \<in> cover ms'"
proof -
  note m = ma_sub_middle [OF assms(1,2,4) less_imp_le [OF assms(5)] assms(6), simplified assms(5) disj.left_neutral simp_thms,
      of wb w pt]
  show ?thesis
    using assms(3-10) by (cases "ma_start a = s") (auto simp: sub_area_def m ma_drop_def covered_def)
qed

theorem unmap_middle_frees_mapped_pages_witness:
  "\<exists>pt' ms' dropped. sub_area (\<lambda>w f off p n. Some w) (\<lambda>_. 1) () [0x12000 \<mapsto> (0x80000000, 30)] [demo_area] 0x11000 0x12000 =
      Some ((), pt', ms', dropped) \<and> \<lparr>mt_vaddr = 0x12000, mt_frame = 0x80000000\<rparr> \<in> set dropped \<and>
    pt' 0x12000 = Some (0x80000000, 30) \<and> 0x12000 \<in> cover ms'"
  using unmap_middle_frees_mapped_pages [of demo_area "0x11000" "0x12000" "\<lparr>mt_vaddr = 0x12000, mt_frame = 0x80000000\<rparr>"
      "[0x12000 \<mapsto> (0x80000000, 30)]" 30 "\<lambda>w f off p n. Some w" "\<lambda>_. 1" "()"]
  by (simp add: area_ok_def page_floor_def)

end
