(* ===== verification/AddrSpace.thy ===== *)
theory AddrSpace
  imports MemSet FdTable
begin

unbundle bit_operations_syntax

text \<open>
  The address space of a process: allocation of user pages (\<open>UserTask::frame_alloc\<close>, \<open>map_frames\<close>,
  \<open>sbrk\<close> in \<open>kernel/src/tasks/task.rs\<close>), \<open>brk\<close>, \<open>mmap\<close> and \<open>munmap\<close> (\<open>kernel/src/syscall/mm.rs\<close>),
  and the handling of a page fault inside an area (\<open>user_cow_int\<close> in \<open>kernel/src/user/mod.rs\<close>).

  \<open>phys\<close> is the physical memory with its allocator.  File system states are pairs of it and a
  rest, as \<open>ram_ops\<close> has them, because file pages live in the same memory.  \<open>sc\<close> gives the
  number of references to a frame; a tracker that is dropped returns its frame when it held the
  last one.
\<close>

section \<open>Pages\<close>

abbreviation URW :: u64 where "URW \<equiv> 14"
abbreviation URWX :: u64 where "URWX \<equiv> 30"

record 'f vm =
  vm_pt :: page_table
  vm_areas :: "'f mem_area list"
  vm_shms :: "(usize \<times> usize) list"
  vm_heap :: usize

definition user_map :: "'f vm \<Rightarrow> usize \<Rightarrow> usize \<Rightarrow> u64 \<Rightarrow> 'f vm run" where
  "user_map vm paddr vaddr flags =
     (if paddr mod PAGE_SIZE \<noteq> 0 \<or> vaddr mod PAGE_SIZE \<noteq> 0 then None
      else Some (vm\<lparr>vm_pt := (vm_pt vm)(vaddr \<mapsto> (paddr, flags))\<rparr>))"

fun map_tracks :: "'f vm \<Rightarrow> map_track list \<Rightarrow> u64 \<Rightarrow> 'f vm run" where
  "map_tracks vm [] flags = Some vm"
| "map_tracks vm (t # ts) flags =
     (if mt_vaddr t \<noteq> 0
      then Option.bind (user_map vm (mt_frame t) (mt_vaddr t) flags) (\<lambda>vm. map_tracks vm ts flags)
      else map_tracks vm ts flags)"

definition tracks_at :: "usize \<Rightarrow> usize list \<Rightarrow> map_track list" where
  "tracks_at vaddr ps =
     map (\<lambda>(i, p). \<lparr>mt_vaddr = (if vaddr = 0 then vaddr else wadd vaddr (wmul i PAGE_SIZE)), mt_frame = p\<rparr>)
       (enumerate 0 ps)"

definition push_area :: "'f vm \<Rightarrow> 'f mem_area \<Rightarrow> 'f vm" where
  "push_area vm a = vm\<lparr>vm_areas := vm_areas vm @ [a]\<rparr>"

text \<open>Pages of the stack join the first stack area, or a new one of fixed extent.\<close>

fun push_stack :: "'f mem_area list \<Rightarrow> map_track list \<Rightarrow> 'f mem_area list" where
  "push_stack [] ts =
     [\<lparr>ma_type = Stack, ma_tracks = ts, ma_file = None, ma_offset = 0, ma_start = 0x70000000, ma_len = 0x10000000\<rparr>]"
| "push_stack (a # ms) ts =
     (if ma_type a = Stack then a\<lparr>ma_tracks := ma_tracks a @ ts\<rparr> # ms else a # push_stack ms ts)"

definition map_frames ::
  "phys \<Rightarrow> 'f vm \<Rightarrow> usize \<Rightarrow> mem_type \<Rightarrow> usize \<Rightarrow> 'f option \<Rightarrow> usize \<Rightarrow> usize \<Rightarrow> usize \<Rightarrow> u64
   \<Rightarrow> (phys \<times> 'f vm \<times> usize option) run" where
  "map_frames ph vm vaddr mtype count mfile offset start len flags =
     (if count = 0 then None
      else Option.bind (frame_alloc_much ph count) (\<lambda>(ph, r).
        case r of
          None \<Rightarrow> Some (ph, vm, None)
        | Some ps \<Rightarrow>
            (let ts = tracks_at vaddr ps
             in Option.bind (if vaddr \<noteq> 0 then map_tracks vm ts flags else Some vm) (\<lambda>vm.
                Option.bind (vec_get ts 0) (\<lambda>t.
                Some (ph,
                  if mtype = Stack then vm\<lparr>vm_areas := push_stack (vm_areas vm) ts\<rparr>
                  else push_area vm \<lparr>ma_type = mtype, ma_tracks = ts, ma_file = mfile, ma_offset = offset,
                                     ma_start = start, ma_len = len\<rparr>,
                  Some (mt_frame t)))))))"

text \<open>The fallback of \<open>frame_alloc\<close>: segments of half of what remains, between 1 and 16 pages.  When a
  segment cannot be had, the trackers collected so far are dropped.\<close>

function seg_alloc :: "phys \<Rightarrow> usize \<Rightarrow> usize \<Rightarrow> map_track list \<Rightarrow> (phys \<times> map_track list option) run" where
  "seg_alloc ph remaining cur acc =
     (if remaining = 0 then Some (ph, Some acc)
      else let seg = min (max (remaining div 2) 1) 16
           in Option.bind (frame_alloc_much ph seg) (\<lambda>(ph, r).
              case r of
                Some ps \<Rightarrow>
                  seg_alloc ph (remaining - seg) (if cur \<noteq> 0 then wadd cur (wmul seg PAGE_SIZE) else cur)
                    (acc @ tracks_at cur ps)
              | None \<Rightarrow> map_option (\<lambda>ph. (ph, None)) (release_all frame_drop ph (map mt_frame acc))))"
  by pat_completeness auto
termination
  by (relation "measure (\<lambda>(ph, remaining, cur, acc). remaining)") (auto simp: min_def max_def)

declare seg_alloc.simps [simp del]

definition user_frame_alloc ::
  "phys \<Rightarrow> 'f vm \<Rightarrow> usize \<Rightarrow> mem_type \<Rightarrow> usize \<Rightarrow> (phys \<times> 'f vm \<times> usize option) run" where
  "user_frame_alloc ph vm vaddr mtype count =
     (let flags = (if mtype = ShareFile then URW else URWX);
          finish = (\<lambda>ph ts p.
            Option.bind (if vaddr \<noteq> 0 then map_tracks vm ts flags else Some vm) (\<lambda>vm.
            Some (ph, push_area vm \<lparr>ma_type = mtype, ma_tracks = ts, ma_file = None, ma_offset = 0, ma_start = vaddr,
                                    ma_len = wmul count PAGE_SIZE\<rparr>, Some p)));
          plain = (\<lambda>ph. map_frames ph vm vaddr mtype count None 0 vaddr (wmul count PAGE_SIZE) flags)
      in if mtype = Mmap \<and> count > 1 then
           Option.bind (frame_alloc_much ph count) (\<lambda>(ph, r).
             case r of
               Some ps \<Rightarrow> Option.bind (vec_get ps 0) (\<lambda>p. finish ph (tracks_at vaddr ps) p)
             | None \<Rightarrow>
                 Option.bind (seg_alloc ph count vaddr []) (\<lambda>(ph, r).
                   case r of
                     None \<Rightarrow> Some (ph, vm, None)
                   | Some [] \<Rightarrow> plain ph
                   | Some (t # ts) \<Rightarrow> finish ph (t # ts) (mt_frame t)))
         else plain ph)"

fun sbrk_loop :: "phys \<Rightarrow> 'f vm \<Rightarrow> usize list \<Rightarrow> (phys \<times> 'f vm) run" where
  "sbrk_loop ph vm [] = Some (ph, vm)"
| "sbrk_loop ph vm (i # is) =
     Option.bind (user_frame_alloc ph vm (wmul i PAGE_SIZE) Mmap 1) (\<lambda>(ph, vm, _). sbrk_loop ph vm is)"

definition sbrk :: "phys \<Rightarrow> 'f vm \<Rightarrow> usize \<Rightarrow> (phys \<times> 'f vm \<times> usize) run" where
  "sbrk ph vm addr =
     map_option (\<lambda>(ph, vm). (ph, vm\<lparr>vm_heap := addr\<rparr>, addr))
       (sbrk_loop ph vm [div_ceil (vm_heap vm) PAGE_SIZE ..< div_ceil addr PAGE_SIZE])"

definition sys_brk :: "phys \<Rightarrow> 'f vm \<Rightarrow> usize \<Rightarrow> (phys \<times> 'f vm \<times> usize) run" where
  "sys_brk ph vm addr = (if addr = 0 then Some (ph, vm, vm_heap vm) else sbrk ph vm addr)"

definition get_last_free_addr :: "'f vm \<Rightarrow> usize" where
  "get_last_free_addr vm =
     max (foldl (\<lambda>acc a. max acc (ma_end a)) 0 (filter (\<lambda>a. ma_type a \<noteq> Stack) (vm_areas vm)))
         (foldl (\<lambda>acc (st, sz). max (wadd st sz) acc) 0 (vm_shms vm))"

section \<open>User memory\<close>

text \<open>A byte of user memory and access to a range; an unmapped page is a fault inside the kernel.\<close>

definition user_addr :: "'f vm \<Rightarrow> usize \<Rightarrow> usize run" where
  "user_addr vm v = map_option (\<lambda>(p, fl). p + v mod PAGE_SIZE) (vm_pt vm (page_floor v))"

primrec user_load :: "phys \<Rightarrow> 'f vm \<Rightarrow> usize \<Rightarrow> nat \<Rightarrow> u8 list run" where
  "user_load ph vm v 0 = Some []"
| "user_load ph vm v (Suc n) =
     Option.bind (user_addr vm v) (\<lambda>a. map_option ((#) (ph_mem ph a)) (user_load ph vm (v + 1) n))"

primrec user_store :: "phys \<Rightarrow> 'f vm \<Rightarrow> usize \<Rightarrow> u8 list \<Rightarrow> phys run" where
  "user_store ph vm v [] = Some ph"
| "user_store ph vm v (b # bs) =
     Option.bind (user_addr vm v) (\<lambda>a. user_store (ph\<lparr>ph_mem := (ph_mem ph)(a := b)\<rparr>) vm (v + 1) bs)"

definition frame_bytes :: "phys \<Rightarrow> usize \<Rightarrow> nat \<Rightarrow> u8 list" where
  "frame_bytes ph p n = map (\<lambda>i. ph_mem ph (p + i)) [0 ..< n]"

section \<open>System calls\<close>

text \<open>Write-back through the inode interface, and the frames that dropped trackers return.\<close>

definition inode_wb :: "(phys \<times> 's, 'n) inode_ops \<Rightarrow> (phys \<times> 's, 'n) write_back" where
  "inode_wb ops s f off p n =
     (case io_writeat ops s f off (frame_bytes (fst s) p n) of
        Some (s', Ok _) \<Rightarrow> Some s'
      | _ \<Rightarrow> None)"

definition drop_frames :: "(usize \<Rightarrow> nat) \<Rightarrow> phys \<Rightarrow> map_track list \<Rightarrow> phys run" where
  "drop_frames sc ph ts = release_all frame_drop ph (filter (\<lambda>p. sc p \<le> 1) (map mt_frame ts))"

definition vm_sub_area ::
  "(phys \<times> 's, 'n) inode_ops \<Rightarrow> (usize \<Rightarrow> nat) \<Rightarrow> phys \<times> 's \<Rightarrow> 'n vm \<Rightarrow> usize \<Rightarrow> usize
   \<Rightarrow> ((phys \<times> 's) \<times> 'n vm) run" where
  "vm_sub_area ops sc s vm start end =
     Option.bind (sub_area (inode_wb ops) sc s (vm_pt vm) (vm_areas vm) start end) (\<lambda>((ph, s), pt, ms, dropped).
     Option.bind (drop_frames sc ph dropped) (\<lambda>ph.
     Some ((ph, s), vm\<lparr>vm_pt := pt, vm_areas := ms\<rparr>)))"

definition sys_munmap ::
  "(phys \<times> 's, 'n) inode_ops \<Rightarrow> (usize \<Rightarrow> nat) \<Rightarrow> phys \<times> 's \<Rightarrow> 'n vm \<Rightarrow> usize \<Rightarrow> usize
   \<Rightarrow> ((phys \<times> 's) \<times> 'n vm) \<times> usize res" where
  "sys_munmap ops sc s vm start len =
     of_run (s, vm) (map_option (\<lambda>m. (m, Ok 0)) (vm_sub_area ops sc s vm start (wadd start len)))"

abbreviation MAP_AREA_START :: usize where "MAP_AREA_START \<equiv> 0x200000000"

abbreviation flag32 :: "usize \<Rightarrow> nat \<Rightarrow> bool" where
  "flag32 flags k \<equiv> bit (word_of_nat flags :: 32 word) k"

definition prot_flags :: "usize \<Rightarrow> u64" where
  "prot_flags prot = 2 OR (if flag32 prot 0 then 4 else 0) OR (if flag32 prot 1 then 8 else 0) OR
     (if flag32 prot 2 then 16 else 0)"

fun remap_loop :: "'f vm \<Rightarrow> usize \<Rightarrow> usize \<Rightarrow> u64 \<Rightarrow> usize list \<Rightarrow> 'f vm run" where
  "remap_loop vm paddr addr flags [] = Some vm"
| "remap_loop vm paddr addr flags (i # is) =
     Option.bind (user_map vm (wadd paddr (wmul i PAGE_SIZE)) (wadd addr (wmul i PAGE_SIZE)) flags) (\<lambda>vm.
     remap_loop vm paddr addr flags is)"

text \<open>The part of \<open>mmap\<close> that makes room: with \<open>MAP_FIXED\<close> the old areas are cut back, otherwise an
  overlap is refused.\<close>

definition mmap_room ::
  "(phys \<times> 's, 'n) inode_ops \<Rightarrow> (usize \<Rightarrow> nat) \<Rightarrow> phys \<times> 's \<Rightarrow> 'n vm \<Rightarrow> bool \<Rightarrow> usize \<Rightarrow> usize
   \<Rightarrow> ((phys \<times> 's) \<times> 'n vm) \<times> unit res" where
  "mmap_room ops sc s vm map_fixed addr len =
     (if map_fixed then
        (if ms_overlapping (vm_areas vm) addr (wadd addr len)
         then of_run (s, vm) (map_option (\<lambda>m. (m, Ok ())) (vm_sub_area ops sc s vm addr (wadd addr len)))
         else ((s, vm), Ok ()))
      else if ms_overlapping (vm_areas vm) addr (wadd addr len) then ((s, vm), Err EINVAL)
      else ((s, vm), Ok ()))"

text \<open>The part that maps: a shared file, shared anonymous memory, a private file (pages now), private
  anonymous memory (pages on demand).\<close>

definition mmap_back ::
  "phys \<times> 's \<Rightarrow> 'n vm \<Rightarrow> bool \<Rightarrow> 'n option \<Rightarrow> usize \<Rightarrow> usize \<Rightarrow> usize \<Rightarrow> usize
   \<Rightarrow> ((phys \<times> 's) \<times> 'n vm) \<times> unit res" where
  "mmap_back s vm map_shared mfile addr len off prot =
     (let alloc = (\<lambda>m. case m of
                      None \<Rightarrow> ((s, vm), Panic)
                    | Some (ph, vm, None) \<Rightarrow> (((ph, snd s), vm), Err EFAULT)
                    | Some (ph, vm, Some p) \<Rightarrow> (((ph, snd s), vm), Ok p))
      in if map_shared then
           (case mfile of
              Some f \<Rightarrow>
                sbind (alloc (map_frames (fst s) vm addr ShareFile ((len + PAGE_SIZE - 1) div PAGE_SIZE) (Some f) off addr len
                         (prot_flags prot)))
                  (\<lambda>m _. (m, Ok ()))
            | None \<Rightarrow>
                sbind (alloc (user_frame_alloc (fst s) vm addr Shared (div_ceil len PAGE_SIZE)))
                  (\<lambda>(s, vm) paddr.
                     of_run (s, vm) (map_option (\<lambda>vm. ((s, vm), Ok ()))
                       (remap_loop vm paddr addr (prot_flags prot) [0 ..< (len + PAGE_SIZE - 1) div PAGE_SIZE]))))
         else if mfile \<noteq> None then
           sbind (alloc (user_frame_alloc (fst s) vm addr Mmap (div_ceil len PAGE_SIZE))) (\<lambda>m _. (m, Ok ()))
         else ((s, push_area vm \<lparr>ma_type = Mmap, ma_tracks = [], ma_file = None, ma_offset = 0, ma_start = addr,
                                 ma_len = len\<rparr>), Ok ()))"

text \<open>The part that fills the mapping from the file and undoes it when the read fails.\<close>

definition mmap_fill ::
  "(phys \<times> 's, 'n) inode_ops \<Rightarrow> (usize \<Rightarrow> nat) \<Rightarrow> phys \<times> 's \<Rightarrow> 'n vm \<Rightarrow> 'n option \<Rightarrow> usize \<Rightarrow> usize \<Rightarrow> usize
   \<Rightarrow> ((phys \<times> 's) \<times> 'n vm) \<times> unit res" where
  "mmap_fill ops sc s vm mfile addr len off =
     (case mfile of
        None \<Rightarrow> ((s, vm), Ok ())
      | Some f \<Rightarrow>
          (case user_load (fst s) vm addr len of
             None \<Rightarrow> ((s, vm), Panic)
           | Some buffer \<Rightarrow>
               (case io_readat ops s f off buffer of
                  (s, b, r) \<Rightarrow>
                    (case user_store (fst s) vm addr b of
                       None \<Rightarrow> ((s, vm), Panic)
                     | Some ph \<Rightarrow>
                         (case r of
                            Ok _ \<Rightarrow> (((ph, snd s), vm), Ok ())
                          | Panic \<Rightarrow> (((ph, snd s), vm), Panic)
                          | Err e \<Rightarrow> of_run ((ph, snd s), vm)
                              (map_option (\<lambda>m. (m, Err e)) (vm_sub_area ops sc (ph, snd s) vm addr (wadd addr len))))))))"

definition mmap_addr :: "'f vm \<Rightarrow> usize \<Rightarrow> usize" where
  "mmap_addr vm start =
     (let addr = get_last_free_addr vm
      in if start = 0 then (if addr \<ge> MAP_AREA_START then addr else MAP_AREA_START) else start)"

text \<open>\<open>mmap\<close>; \<open>user_max\<close> is the bound checked on loongarch64, \<open>None\<close> on the other targets.\<close>

definition sys_mmap ::
  "usize option \<Rightarrow> (phys \<times> 's, 'n) inode_ops \<Rightarrow> (usize \<Rightarrow> nat) \<Rightarrow> phys \<times> 's \<Rightarrow> ('n, 'm) fd_state_scheme \<Rightarrow> 'n vm
   \<Rightarrow> usize \<Rightarrow> usize \<Rightarrow> usize \<Rightarrow> usize \<Rightarrow> usize \<Rightarrow> usize \<Rightarrow> ((phys \<times> 's) \<times> 'n vm) \<times> usize res" where
  "sys_mmap user_max ops sc s st vm start len prot flags fd off =
     (let len = alignup len PAGE_SIZE
      in case (if fd = 2 ^ 64 - 1 \<or> flag32 flags 5 then Some None else get_fd st fd) of
           None \<Rightarrow> ((s, vm), Panic)
         | Some h \<Rightarrow>
             (let mfile = map_option (\<lambda>h. of_inner (deref st h)) h;
                  addr = mmap_addr vm start
              in if len = 0 then ((s, vm), Ok addr)
                 else if (case user_max of Some m \<Rightarrow> wadd addr len > m | None \<Rightarrow> False) then ((s, vm), Err ENOMEM)
                 else sbind (mmap_room ops sc s vm (flag32 flags 4) addr len) (\<lambda>(s, vm) _.
                      sbind (mmap_back s vm (flag32 flags 0) mfile addr len off prot) (\<lambda>(s, vm) _.
                      sbind (mmap_fill ops sc s vm mfile addr len off) (\<lambda>(s, vm) _. ((s, vm), Ok addr))))))"

section \<open>Page faults inside an area\<close>

text \<open>\<open>copy_page\<close> is \<open>copy_from_nonoverlapping\<close> of a page.\<close>

definition copy_page :: "phys \<Rightarrow> usize \<Rightarrow> usize \<Rightarrow> phys" where
  "copy_page ph src dst =
     ph\<lparr>ph_mem := (\<lambda>a. if dst \<le> a \<and> a < dst + PAGE_SIZE then ph_mem ph (src + (a - dst)) else ph_mem ph a)\<rparr>"

definition store_page :: "phys \<Rightarrow> usize \<Rightarrow> u8 list \<Rightarrow> phys" where
  "store_page ph p bs =
     ph\<lparr>ph_mem := (\<lambda>a. if p \<le> a \<and> a < p + length bs then bs ! (a - p) else ph_mem ph a)\<rparr>"

text \<open>The page behind a faulting address of an area: present and shared between processes on
  purpose, present and to be copied, present and private, or absent.  \<open>None\<close> in the last component
  is the \<open>SIGSEGV\<close> for lack of memory.\<close>

definition fault_page ::
  "(phys \<times> 's, 'n) inode_ops \<Rightarrow> (usize \<Rightarrow> nat) \<Rightarrow> phys \<times> 's \<Rightarrow> 'n mem_area \<Rightarrow> usize
   \<Rightarrow> ((phys \<times> 's) \<times> 'n mem_area \<times> usize option) run" where
  "fault_page ops sc s a vaddr =
     (case find (\<lambda>i. mt_vaddr (ma_tracks a ! i) = page_floor vaddr) [0 ..< length (ma_tracks a)] of
        Some i \<Rightarrow>
          (let src = mt_frame (ma_tracks a ! i)
           in if ma_type a = Shared \<or> ma_type a = ShareFile then Some (s, a, Some src)
              else if sc src > 1 then
                Option.bind (frame_alloc (fst s)) (\<lambda>(ph, r).
                  case r of
                    None \<Rightarrow> Some ((ph, snd s), a, None)
                  | Some dst \<Rightarrow>
                      Some ((copy_page ph src dst, snd s),
                            a\<lparr>ma_tracks := (ma_tracks a)[i := (ma_tracks a ! i)\<lparr>mt_frame := dst\<rparr>]\<rparr>, Some dst))
              else Some (s, a, Some src))
      | None \<Rightarrow>
          if get_free_pages (fst s) < 10 then Some (s, a, None)
          else Option.bind (frame_alloc (fst s)) (\<lambda>(ph, r).
            case r of
              None \<Rightarrow> Some ((ph, snd s), a, None)
            | Some p \<Rightarrow>
                (let s = (ph, snd s);
                     s = (case ma_file a of
                            None \<Rightarrow> s
                          | Some f \<Rightarrow>
                              (case io_readat ops s f (wadd (ma_offset a) (wsub (page_floor vaddr) (ma_start a)))
                                      (frame_bytes ph p PAGE_SIZE) of
                                 (s, b, _) \<Rightarrow> (store_page (fst s) p b, snd s)))
                 in Some (s, a\<lparr>ma_tracks := ma_tracks a @ [\<lparr>mt_vaddr = page_floor vaddr, mt_frame = p\<rparr>]\<rparr>, Some p))))"

text \<open>\<open>user_cow_int\<close> for an address inside an area; the last component tells whether the fault was
  resolved, \<open>False\<close> being \<open>SIGSEGV\<close>.  An address outside all areas is \<open>None\<close> here: the code then
  tries its table of fixed ranges, which is not modelled.\<close>

definition area_fault ::
  "(phys \<times> 's, 'n) inode_ops \<Rightarrow> (usize \<Rightarrow> nat) \<Rightarrow> phys \<times> 's \<Rightarrow> 'n vm \<Rightarrow> usize
   \<Rightarrow> ((phys \<times> 's) \<times> 'n vm \<times> bool) run option" where
  "area_fault ops sc s vm vaddr =
     (case find (\<lambda>i. ma_contains (vm_areas vm ! i) vaddr) [0 ..< length (vm_areas vm)] of
        None \<Rightarrow> None
      | Some k \<Rightarrow>
          Some (Option.bind (fault_page ops sc s (vm_areas vm ! k) vaddr) (\<lambda>(s, a, r).
            (let vm = vm\<lparr>vm_areas := (vm_areas vm)[k := a]\<rparr>
             in case r of
                  None \<Rightarrow> Some (s, vm, False)
                | Some ppn \<Rightarrow>
                    map_option (\<lambda>vm. (s, vm, True))
                      (user_map vm ppn (page_floor vaddr)
                         (if ma_type a = Mmap \<and> vaddr \<ge> 0x200000000 then URW else URWX))))))"

section \<open>Areas as a set of addresses\<close>

text \<open>The contract between a set of areas and the calls that change it: cutting a range out and
  adding a disjoint area.\<close>

locale address_set =
  fixes inv :: "'t \<Rightarrow> bool"
    and owned :: "'t \<Rightarrow> usize set"
    and cut :: "'t \<Rightarrow> usize \<Rightarrow> usize \<Rightarrow> 't option"
    and add :: "'t \<Rightarrow> 'a \<Rightarrow> 't"
    and extent :: "'a \<Rightarrow> usize set"
    and valid :: "'a \<Rightarrow> bool"
  assumes cut_owned: "inv t \<Longrightarrow> s \<le> e \<Longrightarrow> cut t s e = Some t' \<Longrightarrow> inv t' \<and> owned t' = owned t - {s ..< e}"
    and add_owned: "inv t \<Longrightarrow> valid a \<Longrightarrow> owned t \<inter> extent a = {} \<Longrightarrow> inv (add t a) \<and> owned (add t a) = owned t \<union> extent a"
begin

lemma replace_owned:
  assumes "inv t" "s \<le> e" "cut t s e = Some t'" "valid a" "extent a = {s ..< e}"
  shows "inv (add t' a) \<and> owned (add t' a) = owned t \<union> {s ..< e}"
  using cut_owned [OF assms(1-3)] add_owned [of t' a] assms(4,5) by auto

end

interpretation ars: address_set areas_ok cover
  "\<lambda>ms s e. map_option (\<lambda>(w, pt, ms, d). ms) (sub_area wb sc w pt ms s e)" "\<lambda>ms a. ms @ [a]" covered area_ok
  for wb :: "('w, 'f) write_back" and sc w pt
  by unfold_locales (auto simp: areas_ok_append dest: sub_area_cover)

section \<open>What the calls do to the areas\<close>

lemma map_tracks_areas: "map_tracks vm ts fl = Some vm' \<Longrightarrow> vm_areas vm' = vm_areas vm"
  by (induction ts arbitrary: vm) (auto simp: bind_Some_iff user_map_def split: if_splits)

lemma remap_loop_areas: "remap_loop vm p v fl is = Some vm' \<Longrightarrow> vm_areas vm' = vm_areas vm"
  by (induction "is" arbitrary: vm) (auto simp: bind_Some_iff user_map_def split: if_splits)

lemma map_opt_tracks_areas:
  "(if c then map_tracks vm ts fl else Some vm) = Some vm' \<Longrightarrow> vm_areas vm' = vm_areas vm"
  by (auto split: if_splits dest: map_tracks_areas)

lemma map_frames_areas:
  assumes "map_frames ph vm vaddr ty n mf off start len fl = Some (ph', vm', Some p)" "ty \<noteq> Stack"
  shows "\<exists>a. vm_areas vm' = vm_areas vm @ [a] \<and> ma_start a = start \<and> ma_len a = len"
  using assms
  by (auto simp: map_frames_def Let_def bind_Some_iff push_area_def split: option.splits if_splits dest!: map_tracks_areas)

lemma user_frame_alloc_areas:
  assumes "user_frame_alloc ph vm vaddr ty n = Some (ph', vm', Some p)" "ty \<noteq> Stack"
  shows "\<exists>a. vm_areas vm' = vm_areas vm @ [a] \<and> ma_start a = vaddr \<and> ma_len a = wmul n PAGE_SIZE"
proof (cases "ty = Mmap \<and> n > 1")
  case False
  with assms have "map_frames ph vm vaddr ty n None 0 vaddr (wmul n PAGE_SIZE)
      (if ty = ShareFile then URW else URWX) = Some (ph', vm', Some p)"
    by (simp only: user_frame_alloc_def Let_def if_False)
  then show ?thesis by (rule map_frames_areas) (rule assms(2))
next
  case True
  have fin: "\<exists>a. vm_areas vm' = vm_areas vm @ [a] \<and> ma_start a = vaddr \<and> ma_len a = wmul n PAGE_SIZE"
    if "Option.bind (if vaddr \<noteq> 0 then map_tracks vm ts fl else Some vm) (\<lambda>vm.
          Some (ph2, push_area vm \<lparr>ma_type = ty, ma_tracks = ts, ma_file = None, ma_offset = 0, ma_start = vaddr,
                                   ma_len = wmul n PAGE_SIZE\<rparr>, Some q)) = Some (ph', vm', Some p)" for ts fl ph2 q
    using that by (auto simp: bind_Some_iff push_area_def dest!: map_opt_tracks_areas)
  obtain ph1 r where a: "frame_alloc_much ph n = Some (ph1, r)"
    using assms(1) True by (auto simp: user_frame_alloc_def Let_def bind_Some_iff)
  show ?thesis
  proof (cases r)
    case (Some ps)
    then show ?thesis
      using assms(1) True a by (auto simp: user_frame_alloc_def Let_def bind_Some_iff push_area_def dest!: map_opt_tracks_areas)
  next
    case None
    then obtain ph2 q where b: "seg_alloc ph1 n vaddr [] = Some (ph2, q)"
      using assms(1) True a by (auto simp: user_frame_alloc_def Let_def bind_Some_iff)
    show ?thesis
    proof (cases q)
      case (Some ts)
      then show ?thesis
      proof (cases ts)
        case Nil
        with assms(1) True a b None Some have "map_frames ph2 vm vaddr ty n None 0 vaddr (wmul n PAGE_SIZE) URWX = Some (ph', vm', Some p)"
          by (simp add: user_frame_alloc_def Let_def)
        then show ?thesis by (rule map_frames_areas) (rule assms(2))
      next
        case (Cons t ts')
        then show ?thesis
          using assms(1) True a b None Some by (auto simp: user_frame_alloc_def Let_def intro: fin)
      qed
    qed (use assms(1) True a b None in \<open>simp add: user_frame_alloc_def Let_def\<close>)
  qed
qed

lemma alignup_page: "n < 2 ^ 63 \<Longrightarrow> alignup n PAGE_SIZE = div_ceil n PAGE_SIZE * PAGE_SIZE"
proof -
  assume n: "n < 2 ^ 63"
  have "div_ceil n PAGE_SIZE * PAGE_SIZE < n + PAGE_SIZE" by (rule div_ceil_least) simp
  then show ?thesis using n by (simp add: alignup_def wmul_exact)
qed

lemma mmap_back_areas:
  assumes "mmap_back s vm sh mf addr (k * PAGE_SIZE) off prot = ((s', vm'), Ok ())" "k * PAGE_SIZE < 2 ^ 64"
  shows "\<exists>a. vm_areas vm' = vm_areas vm @ [a] \<and> ma_start a = addr \<and> ma_len a = k * PAGE_SIZE"
proof -
  have k: "wmul k PAGE_SIZE = k * PAGE_SIZE" "div_ceil (k * PAGE_SIZE) PAGE_SIZE = k"
    using assms(2) by (simp_all add: wmul_exact)
  consider (sf) f where "sh" "mf = Some f" | (sa) "sh" "mf = None" | (pf) f where "\<not> sh" "mf = Some f" | (pa) "\<not> sh" "mf = None"
    by (cases sh; cases mf) auto
  then show ?thesis
  proof cases
    case sf
    then show ?thesis using assms(1)
      by (auto simp: mmap_back_def sbind_Ok_iff dest!: map_frames_areas split: option.splits prod.splits)
  next
    case sa
    then show ?thesis using assms(1) user_frame_alloc_areas [of "fst s" vm addr Shared k] k
      by (auto simp: mmap_back_def sbind_Ok_iff map_option_case of_run_def remap_loop_areas
          split: option.splits prod.splits)
  next
    case pf
    then show ?thesis using assms(1) user_frame_alloc_areas [of "fst s" vm addr Mmap k] k
      by (auto simp: mmap_back_def sbind_Ok_iff split: option.splits prod.splits)
  next
    case pa
    then show ?thesis using assms(1) by (auto simp: mmap_back_def push_area_def)
  qed
qed

lemma vm_sub_area_cover:
  assumes "areas_ok (vm_areas vm)" "b \<le> e" "vm_sub_area ops sc s vm b e = Some (s', vm')"
  shows "areas_ok (vm_areas vm') \<and> cover (vm_areas vm') = cover (vm_areas vm) - {b ..< e}"
proof -
  obtain ph1 s1 pt1 ms1 d ph2 where "sub_area (inode_wb ops) sc s (vm_pt vm) (vm_areas vm) b e = Some ((ph1, s1), pt1, ms1, d)"
      "vm' = vm\<lparr>vm_pt := pt1, vm_areas := ms1\<rparr>"
    using assms(3) by (auto simp: vm_sub_area_def bind_Some_iff)
  then show ?thesis using sub_area_cover [OF assms(1,2)] by simp
qed

lemma mmap_room_cover:
  assumes "areas_ok (vm_areas vm)" "addr + len < 2 ^ 64" "mmap_room ops sc s vm fixed addr len = ((s', vm'), Ok ())"
  shows "areas_ok (vm_areas vm') \<and> cover (vm_areas vm') = cover (vm_areas vm) - {addr ..< addr + len} \<and>
    (fixed \<or> vm' = vm \<and> cover (vm_areas vm) \<inter> {addr ..< addr + len} = {})"
proof (cases "ms_overlapping (vm_areas vm) addr (addr + len)")
  case True
  then have fixed: "fixed" using assms by (auto simp: mmap_room_def wadd_exact split: if_splits)
  then have "vm_sub_area ops sc s vm addr (addr + len) = Some (s', vm')"
    using assms(2,3) True by (auto simp: mmap_room_def wadd_exact of_run_def split: option.splits)
  from vm_sub_area_cover [OF assms(1) _ this] fixed show ?thesis by simp
next
  case False
  then have d: "cover (vm_areas vm) \<inter> {addr ..< addr + len} = {}"
  proof -
    have "covered a \<inter> {addr ..< addr + len} = {}" if "a \<in> set (vm_areas vm)" for a
      using that False areas_ok_mem [OF assms(1) that] not_overlapping_disjoint [of a addr "addr + len"]
      by (auto simp: ms_overlapping_def)
    then show ?thesis unfolding cover_def by blast
  qed
  have "vm' = vm" using False assms(2,3) by (auto simp: mmap_room_def wadd_exact split: if_splits)
  then show ?thesis using d assms(1) by auto
qed

section \<open>Segmented allocation\<close>

lemma frame_run_split: "frame_run v (m + n) = frame_run v m @ frame_run (v + m * PAGE_SIZE) n"
  by (rule nth_equalityI) (auto simp: frame_run_def nth_append add_mult_distrib algebra_simps simp flip: upt_add_eq_append)

lemma tracks_at_simps [simp]: "map mt_frame (tracks_at v ps) = ps" "length (tracks_at v ps) = length ps"
  by (simp_all add: tracks_at_def comp_def case_prod_beta)

lemma tracks_at_vaddr:
  assumes "v > 0" "v + length ps * PAGE_SIZE < 2 ^ 64"
  shows "map mt_vaddr (tracks_at v ps) = frame_run v (length ps)"
proof (rule nth_equalityI)
  show "length (map mt_vaddr (tracks_at v ps)) = length (frame_run v (length ps))"
    by (simp add: frame_run_def)
  fix i assume "i < length (map mt_vaddr (tracks_at v ps))"
  then have i: "i < length ps" by simp
  then have "i * PAGE_SIZE \<le> length ps * PAGE_SIZE" by simp
  then have "wadd v (wmul i PAGE_SIZE) = v + i * PAGE_SIZE"
    using assms(2) by (simp add: wmul_exact wadd_exact)
  then show "map mt_vaddr (tracks_at v ps) ! i = frame_run v (length ps) ! i"
    using i assms(1) by (simp add: tracks_at_def frame_run_def nth_enumerate_eq)
qed

lemma seg_bounds: "n > 0 \<Longrightarrow> min (max (n div 2) 1) 16 > 0 \<and> min (max (n div 2) 1) 16 \<le> (n :: nat)"
  by auto

abbreviation seg_size :: "nat \<Rightarrow> nat" where
  "seg_size n \<equiv> min (max (n div 2) 1) 16"

lemma seg_alloc_refused:
  "remaining \<noteq> 0 \<Longrightarrow> frame_alloc_much ph (seg_size remaining) = Some (ph1, None) \<Longrightarrow>
   seg_alloc ph remaining cur acc = map_option (\<lambda>ph. (ph, None)) (release_all frame_drop ph1 (map mt_frame acc))"
  by (subst seg_alloc.simps) (simp only: Let_def if_False Option.bind.bind_lunit prod.case option.case)

lemma seg_alloc_got:
  "remaining \<noteq> 0 \<Longrightarrow> frame_alloc_much ph (seg_size remaining) = Some (ph1, Some ps) \<Longrightarrow>
   seg_alloc ph remaining cur acc =
     seg_alloc ph1 (remaining - seg_size remaining)
       (if cur \<noteq> 0 then wadd cur (wmul (seg_size remaining) PAGE_SIZE) else cur) (acc @ tracks_at cur ps)"
  by (subst seg_alloc.simps) (simp only: Let_def if_False Option.bind.bind_lunit prod.case option.case)

definition seg_result :: "phys \<Rightarrow> nat \<Rightarrow> usize \<Rightarrow> map_track list \<Rightarrow> phys \<times> map_track list option \<Rightarrow> bool" where
  "seg_result ph remaining cur acc res \<longleftrightarrow> phys_ok (fst res) \<and>
     (case snd res of
        None \<Rightarrow> fa_free (ph_frames (fst res)) = fa_free (ph_frames ph) \<union> set (map mt_frame acc)
      | Some ts \<Rightarrow> (\<exists>new. ts = acc @ new \<and> map mt_vaddr new = frame_run cur remaining \<and> distinct (map mt_frame new) \<and>
          set (map mt_frame new) \<subseteq> fa_free (ph_frames ph) \<and>
          fa_free (ph_frames (fst res)) = fa_free (ph_frames ph) - set (map mt_frame new)))"

lemma seg_result_step:
  assumes "seg_result ph1 (remaining - length ps) (cur + length ps * PAGE_SIZE) (acc @ tracks_at cur ps) res"
    "distinct ps" "set ps \<subseteq> fa_free (ph_frames ph)" "fa_free (ph_frames ph1) = fa_free (ph_frames ph) - set ps"
    "cur > 0" "cur + length ps * PAGE_SIZE < 2 ^ 64" "length ps \<le> remaining"
  shows "seg_result ph remaining cur acc res"
proof (cases "snd res")
  case None
  then show ?thesis using assms by (auto simp: seg_result_def)
next
  case (Some ts)
  then obtain new where new: "ts = acc @ (tracks_at cur ps @ new)"
      "map mt_vaddr new = frame_run (cur + length ps * PAGE_SIZE) (remaining - length ps)"
      "distinct (map mt_frame new)" "set (map mt_frame new) \<subseteq> fa_free (ph_frames ph1)"
      "fa_free (ph_frames (fst res)) = fa_free (ph_frames ph1) - set (map mt_frame new)"
    using assms(1) by (auto simp: seg_result_def)
  have "map mt_vaddr (tracks_at cur ps @ new) = frame_run cur remaining"
    using new(2) tracks_at_vaddr [OF assms(5,6)] frame_run_split [of cur "length ps" "remaining - length ps"] assms(7) by simp
  moreover have "distinct (map mt_frame (tracks_at cur ps @ new))"
    "set (map mt_frame (tracks_at cur ps @ new)) \<subseteq> fa_free (ph_frames ph)"
    using new(3,4) assms(2-4) by auto
  moreover have "fa_free (ph_frames (fst res)) = fa_free (ph_frames ph) - set (map mt_frame (tracks_at cur ps @ new))"
    using new(5) assms(4) by (simp add: Diff_Un) blast
  moreover have "phys_ok (fst res)" using assms(1) by (simp add: seg_result_def)
  ultimately show ?thesis
    unfolding seg_result_def Some option.case using new(1) by blast
qed

lemma seg_alloc_spec:
  "phys_ok ph \<Longrightarrow> cur > 0 \<Longrightarrow> cur + remaining * PAGE_SIZE < 2 ^ 64 \<Longrightarrow>
   set (map mt_frame acc) \<subseteq> fa_extent (ph_frames ph) \<Longrightarrow>
   \<exists>res. seg_alloc ph remaining cur acc = Some res \<and> seg_result ph remaining cur acc res"
proof (induction ph remaining cur acc rule: seg_alloc.induct)
  case (1 ph remaining cur acc)
  show ?case
  proof (cases "remaining = 0")
    case True
    then show ?thesis using 1 by (simp add: seg_alloc.simps frame_run_def seg_result_def)
  next
    case False
    define seg where "seg = seg_size remaining"
    have seg: "seg > 0" "seg \<le> remaining" using seg_bounds [of remaining] False by (simp_all add: seg_def)
    obtain ph1 r where a: "frame_alloc_much ph seg = Some (ph1, r)" "phys_ok ph1"
        "fa_extent (ph_frames ph1) = fa_extent (ph_frames ph)"
        "case r of None \<Rightarrow> ph1 = ph | Some ps \<Rightarrow> length ps = seg \<and> distinct ps \<and> set ps \<subseteq> fa_free (ph_frames ph) \<and>
           fa_free (ph_frames ph1) = fa_free (ph_frames ph) - set ps"
      using frame_alloc_much_phys [OF 1(2) seg(1)] by blast
    show ?thesis
    proof (cases r)
      case None
      then obtain ph2 where "release_all frame_drop ph (map mt_frame acc) = Some ph2" "phys_ok ph2"
          "fa_free (ph_frames ph2) = set (map mt_frame acc) \<union> fa_free (ph_frames ph)"
        using phl.release_all_give [OF 1(2), of "map mt_frame acc"] 1(5) by auto
      then show ?thesis
        using seg_alloc_refused [OF False, of ph ph1 cur acc, folded seg_def] a(1,4) None
        by (simp add: seg_result_def Un_commute)
    next
      case (Some ps)
      have ps: "length ps = seg" "distinct ps" "set ps \<subseteq> fa_free (ph_frames ph)"
          "fa_free (ph_frames ph1) = fa_free (ph_frames ph) - set ps"
        using a(4) Some by auto
      have le: "cur + seg * PAGE_SIZE + (remaining - seg) * PAGE_SIZE < 2 ^ 64"
        using 1(4) seg(2) by (simp add: add.assoc add_mult_distrib [symmetric])
      then have w: "wadd cur (wmul seg PAGE_SIZE) = cur + seg * PAGE_SIZE"
        by (simp add: wmul_exact wadd_exact)
      have ext: "set (map mt_frame (acc @ tracks_at cur ps)) \<subseteq> fa_extent (ph_frames ph1)"
        using 1(5) a(3) ps(3) phl.avail_extent [OF 1(2)] by auto
      have "\<exists>res. seg_alloc ph1 (remaining - seg) (cur + seg * PAGE_SIZE) (acc @ tracks_at cur ps) = Some res \<and>
          seg_result ph1 (remaining - seg) (cur + seg * PAGE_SIZE) (acc @ tracks_at cur ps) res"
        using 1(1) [OF False seg_def _ _ Some, of "(ph1, r)" ph1] a(1,2) 1(3) le ext w by (simp add: seg_def [symmetric])
      then obtain res where res: "seg_alloc ph1 (remaining - seg) (cur + seg * PAGE_SIZE) (acc @ tracks_at cur ps) = Some res"
          "seg_result ph1 (remaining - seg) (cur + seg * PAGE_SIZE) (acc @ tracks_at cur ps) res" by blast
      have "seg_result ph remaining cur acc res"
        using seg_result_step [of ph1 remaining ps cur acc res ph] res(2) ps 1(3) le seg(2) by simp
      then show ?thesis
        using seg_alloc_got [OF False, of ph ph1 ps cur acc, folded seg_def] a(1) Some res(1) w 1(3) by auto
    qed
  qed
qed

section \<open>Anonymous memory\<close>

definition anonymous :: "'f mem_area list \<Rightarrow> bool" where
  "anonymous ms \<longleftrightarrow> (\<forall>a \<in> set ms. ma_file a = None \<and> ma_type a \<noteq> ShareFile)"

definition frames_of :: "'f mem_area list \<Rightarrow> usize set" where
  "frames_of ms = (\<Union>a \<in> set ms. mt_frame ` set (ma_tracks a))"

lemma write_range_anon: "ma_file a = None \<Longrightarrow> write_range wb w a s e = Some w"
  by (simp add: write_range_def)

lemma ma_sub_anon:
  assumes "ma_file a = None"
  shows "\<exists>r. ma_sub wb w pt a s e = Some r \<and> sb_world r = w \<and>
    set (sb_dropped r) \<union> set (ma_tracks (sb_area r)) \<subseteq> set (ma_tracks a) \<and> ma_type (sb_area r) = ma_type a"
  using ma_sub_shape [of a wb w s e "\<lambda>_. w" pt] assms by (auto simp: write_range_anon same_backing_def)

lemma sub_loop_anon:
  "anonymous ms \<Longrightarrow> \<exists>pt' kept news d. sub_loop wb sc w pt ms s e = Some (w, pt', kept, news, d) \<and>
     mt_frame ` set d \<subseteq> frames_of ms"
proof (induction ms arbitrary: pt)
  case (Cons a ms)
  have a: "ma_file a = None" "ma_type a \<noteq> ShareFile" "anonymous ms"
    using Cons.prems by (simp_all add: anonymous_def)
  obtain r where r: "ma_sub wb w pt a s e = Some r" "sb_world r = w" "ma_type (sb_area r) = ma_type a"
      "set (sb_dropped r) \<union> set (ma_tracks (sb_area r)) \<subseteq> set (ma_tracks a)"
    using ma_sub_anon [OF a(1), of wb w pt s e] by blast
  have d: "ma_drop wb sc w (sb_area r) = Some w" using a(2) r(3) by (simp add: ma_drop_def)
  obtain pt2 k n d2 where l: "sub_loop wb sc w (sb_pt r) ms s e = Some (w, pt2, k, n, d2)" "mt_frame ` set d2 \<subseteq> frames_of ms"
    using Cons.IH [OF a(3), of "sb_pt r"] by blast
  have "mt_frame ` set (sb_dropped r @ (if ma_len (sb_area r) \<noteq> 0 then [] else ma_tracks (sb_area r)) @ d2) \<subseteq> frames_of (a # ms)"
  proof -
    have "frames_of (a # ms) = mt_frame ` set (ma_tracks a) \<union> frames_of ms" by (simp add: frames_of_def)
    then show ?thesis using r(4) l(2) by (cases "ma_len (sb_area r) = 0") (simp_all add: image_Un, blast+)
  qed
  then show ?case
    by (simp only: sub_loop.simps r(1,2) Option.bind.bind_lunit d if_cancel l(1) prod.case) blast
qed (simp add: frames_of_def)

section \<open>Properties\<close>

abbreviation demo_vm :: "inode vm" where
  "demo_vm \<equiv> \<lparr>vm_pt = [0x200000000 \<mapsto> (0x80000000, 30), 0x200001000 \<mapsto> (0x80001000, 30)],
     vm_areas = [\<lparr>ma_type = Mmap, ma_tracks = [\<lparr>mt_vaddr = 0x200000000, mt_frame = 0x80000000\<rparr>,
        \<lparr>mt_vaddr = 0x200001000, mt_frame = 0x80001000\<rparr>],
        ma_file = None, ma_offset = 0, ma_start = 0x200000000, ma_len = 0x2000\<rparr>],
     vm_shms = [], vm_heap = 0\<rparr>"

lemma demo_phys_ok: "phys_ok demo_phys"
  by (simp add: phys_ok_def demo_frames_ok)



text \<open>C5: a successful \<open>mmap\<close> keeps the areas of a process disjoint and adds exactly the mapped range
  to its addresses; without \<open>MAP_FIXED\<close> none of them was in use before.\<close>

theorem mmap_keeps_areas_disjoint:
  assumes "areas_ok (vm_areas vm)" "len < 2 ^ 63" "mmap_addr vm start + alignup len PAGE_SIZE < 2 ^ 64" "len > 0"
    "sys_mmap user_max ops sc s st vm start len prot flags fd off = ((s', vm'), Ok a)"
  shows "a = mmap_addr vm start \<and> areas_ok (vm_areas vm') \<and>
    cover (vm_areas vm') = cover (vm_areas vm) \<union> {a ..< a + alignup len PAGE_SIZE} \<and>
    (flag32 flags 4 \<or> cover (vm_areas vm) \<inter> {a ..< a + alignup len PAGE_SIZE} = {})"
proof -
  define n where "n = alignup len PAGE_SIZE"
  have n: "n = div_ceil len PAGE_SIZE * PAGE_SIZE" "n > 0"
    using alignup_page [OF assms(2)] div_ceil_mult [of PAGE_SIZE len] assms(4) unfolding n_def by linarith+
  obtain mf s1 vm1 s2 vm2 where m: "a = mmap_addr vm start"
      "mmap_room ops sc s vm (flag32 flags 4) a n = ((s1, vm1), Ok ())"
      "mmap_back s1 vm1 (flag32 flags 0) mf a n off prot = ((s2, vm2), Ok ())"
      "mmap_fill ops sc s2 vm2 mf a n off = ((s', vm'), Ok ())"
    using assms(5) n(2)
    by (auto simp: sys_mmap_def n_def [symmetric] Let_def sbind_Ok_iff split: option.splits if_splits)
  have room: "areas_ok (vm_areas vm1)" "cover (vm_areas vm1) = cover (vm_areas vm) - {a ..< a + n}"
      "flag32 flags 4 \<or> vm1 = vm \<and> cover (vm_areas vm) \<inter> {a ..< a + n} = {}"
    using mmap_room_cover [OF assms(1) _ m(2)] assms(3) m(1) by (simp_all add: n_def)
  obtain x where x: "vm_areas vm2 = vm_areas vm1 @ [x]" "ma_start x = a" "ma_len x = n"
    using mmap_back_areas [of s1 vm1 "flag32 flags 0" mf a "div_ceil len PAGE_SIZE" off prot s2 vm2, folded n(1)] m(1,3) assms(3)
    unfolding n_def by auto
  have "vm' = vm2"
    using m(4) by (auto simp: mmap_fill_def of_run_def split: option.splits prod.splits res.splits)
  moreover have "area_ok x" "covered x = {a ..< a + n}"
    using x assms(3) m(1) by (simp_all add: area_ok_def covered_def n_def)
  ultimately have "areas_ok (vm_areas vm') \<and> cover (vm_areas vm') = cover (vm_areas vm1) \<union> {a ..< a + n}"
    using ars.add_owned [of "vm_areas vm1" x] room(1,2) x(1) by auto
  then show ?thesis using m(1) room by (auto simp: n_def)
qed

theorem mmap_keeps_areas_disjoint_witness:
  "\<exists>vm'. sys_mmap None ram_ops (\<lambda>_. 1) (demo_phys, ram_fs_new) (demo_fds 3) demo_vm 0 5000 3 0x22 (2 ^ 64 - 1) 0 =
      (((demo_phys, ram_fs_new), vm'), Ok 0x200002000) \<and> areas_ok (vm_areas vm') \<and>
    cover (vm_areas vm') = {0x200000000 ..< 0x200004000}"
proof -
  let ?m = "sys_mmap None ram_ops (\<lambda>_. 1) (demo_phys, ram_fs_new) (demo_fds 3) demo_vm 0 5000 3 0x22 (2 ^ 64 - 1) 0"
  have addr: "mmap_addr demo_vm 0 = 0x200002000" by (simp add: mmap_addr_def get_last_free_addr_def wadd_def)
  have len: "alignup 5000 PAGE_SIZE = 0x2000" by (simp add: alignup_def div_ceil_def wmul_def)
  have bits: "\<not> flag32 34 4" "\<not> flag32 34 0" "flag32 34 5" by code_simp+
  have r: "?m = (((demo_phys, ram_fs_new), push_area demo_vm \<lparr>ma_type = Mmap, ma_tracks = [], ma_file = None, ma_offset = 0,
      ma_start = 0x200002000, ma_len = 0x2000\<rparr>), Ok 0x200002000)"
    by (simp add: sys_mmap_def addr len mmap_room_def mmap_back_def mmap_fill_def ms_overlapping_def ma_overlapping_def
        wadd_def bits del: bit_numeral_simps bit_of_nat_iff)
  have ok: "areas_ok (vm_areas demo_vm)" by (simp add: area_ok_def)
  have "cover (vm_areas demo_vm) \<union> {0x200002000 ..< 0x200002000 + 0x2000} = {0x200000000 ..< 0x200004000}"
    by (auto simp: covered_def)
  then show ?thesis
    using mmap_keeps_areas_disjoint [OF ok _ _ _ r, unfolded addr len] unfolding r by auto
qed

text \<open>Allocating user pages segment by segment is all or nothing: it gives one page for every
  page of the range, in order, backed by distinct frames that were free, or it returns all it
  had taken.\<close>

theorem seg_alloc_all_or_nothing:
  assumes "phys_ok ph" "vaddr > 0" "vaddr + n * PAGE_SIZE < 2 ^ 64"
  shows "\<exists>ph' r. seg_alloc ph n vaddr [] = Some (ph', r) \<and> phys_ok ph' \<and>
    (case r of
       None \<Rightarrow> fa_free (ph_frames ph') = fa_free (ph_frames ph)
     | Some ts \<Rightarrow> map mt_vaddr ts = map (\<lambda>i. vaddr + i * PAGE_SIZE) [0 ..< n] \<and> distinct (map mt_frame ts) \<and>
         set (map mt_frame ts) \<subseteq> fa_free (ph_frames ph) \<and>
         fa_free (ph_frames ph') = fa_free (ph_frames ph) - set (map mt_frame ts))"
proof -
  obtain ph' r where "seg_alloc ph n vaddr [] = Some (ph', r)" "seg_result ph n vaddr [] (ph', r)"
    using seg_alloc_spec [OF assms, of "[]"] by auto
  then show ?thesis
    by (intro exI [of _ ph'] exI [of _ r]) (cases r, auto simp: seg_result_def frame_run_def)
qed

theorem seg_alloc_all_or_nothing_witness:
  "\<exists>ph' r. seg_alloc demo_phys 3 0x10000 [] = Some (ph', r) \<and> phys_ok ph' \<and>
    (case r of
       None \<Rightarrow> fa_free (ph_frames ph') = fa_free (ph_frames demo_phys)
     | Some ts \<Rightarrow> map mt_vaddr ts = map (\<lambda>i. 0x10000 + i * PAGE_SIZE) [0 ..< 3] \<and> distinct (map mt_frame ts) \<and>
         set (map mt_frame ts) \<subseteq> fa_free (ph_frames demo_phys) \<and>
         fa_free (ph_frames ph') = fa_free (ph_frames demo_phys) - set (map mt_frame ts))"
  by (rule seg_alloc_all_or_nothing [OF demo_phys_ok]) simp_all

text \<open>C17: a fault on a private page that another process shares gives the faulting process its own
  copy: the page is mapped to a frame that was free, with the same bytes, the area holds that frame in
  place of the shared one, and the shared frame keeps its contents.\<close>

theorem cow_fault_copies:
  assumes "phys_ok ph" "fa_free (ph_frames ph) \<noteq> {}" "k < length (vm_areas vm)" "ma_contains (vm_areas vm ! k) vaddr"
    "\<not> (\<exists>j<k. ma_contains (vm_areas vm ! j) vaddr)" "ma_type (vm_areas vm ! k) = Mmap"
    "i < length (ma_tracks (vm_areas vm ! k))" "ma_tracks (vm_areas vm ! k) ! i = \<lparr>mt_vaddr = page_floor vaddr, mt_frame = p\<rparr>"
    "\<not> (\<exists>j<i. mt_vaddr (ma_tracks (vm_areas vm ! k) ! j) = page_floor vaddr)" "sc p > 1"
    "p mod PAGE_SIZE = 0" "p \<notin> fa_free (ph_frames ph)"
  shows "\<exists>ph' vm' q fl. area_fault ops sc (ph, s) vm vaddr = Some (Some ((ph', s), vm', True)) \<and>
    q \<in> fa_free (ph_frames ph) \<and> vm_pt vm' = (vm_pt vm)(page_floor vaddr \<mapsto> (q, fl)) \<and>
    ma_tracks (vm_areas vm' ! k) = (ma_tracks (vm_areas vm ! k))[i := \<lparr>mt_vaddr = page_floor vaddr, mt_frame = q\<rparr>] \<and>
    frame_bytes ph' q PAGE_SIZE = frame_bytes ph p PAGE_SIZE \<and> frame_bytes ph' p PAGE_SIZE = frame_bytes ph p PAGE_SIZE"
proof -
  let ?a = "vm_areas vm ! k"
  have fk: "find (\<lambda>i. ma_contains (vm_areas vm ! i) vaddr) [0 ..< length (vm_areas vm)] = Some k"
    using assms(3-5) by (auto simp: find_upt_Some)
  have fi: "find (\<lambda>i. mt_vaddr (ma_tracks ?a ! i) = page_floor vaddr) [0 ..< length (ma_tracks ?a)] = Some i"
    using assms(7-9) by (auto simp: find_upt_Some)
  obtain ph1 q where q: "frame_alloc ph = Some (ph1, Some q)" "q \<in> fa_free (ph_frames ph)"
    using phl.alloc_take [OF assms(1,2)] by blast
  have mem: "ph_mem ph1 = ph_mem ph" using q(1) by (auto simp: frame_alloc_def)
  have qa: "q mod PAGE_SIZE = 0"
    using q(2) phl.avail_extent [OF assms(1)] by (auto simp: fa_extent_def)
  have apart: "p + j < q \<or> q + PAGE_SIZE \<le> p + j" if "j < PAGE_SIZE" for j
  proof -
    have "p \<noteq> q" using q(2) assms(12) by auto
    moreover obtain x y where "p = x * PAGE_SIZE" "q = y * PAGE_SIZE"
      using qa assms(11) by (auto simp: mod_eq_0_iff_dvd elim!: dvdE)
    ultimately show ?thesis using that by (cases x y rule: linorder_cases) auto
  qed
  let ?ph2 = "copy_page ph1 p q"
  let ?a2 = "?a\<lparr>ma_tracks := (ma_tracks ?a)[i := \<lparr>mt_vaddr = page_floor vaddr, mt_frame = q\<rparr>]\<rparr>"
  have fp: "fault_page ops sc (ph, s) ?a vaddr = Some ((?ph2, s), ?a2, Some q)"
    using assms(6,8,10) q(1) by (simp add: fault_page_def fi)
  have b1: "frame_bytes ?ph2 q PAGE_SIZE = frame_bytes ph p PAGE_SIZE"
    by (auto simp: frame_bytes_def copy_page_def mem)
  have b2: "frame_bytes ?ph2 p PAGE_SIZE = frame_bytes ph p PAGE_SIZE"
  proof -
    have "\<not> (q \<le> p + j \<and> p + j < q + PAGE_SIZE)" if "j < PAGE_SIZE" for j
      using apart [OF that] by linarith
    then show ?thesis by (auto simp: frame_bytes_def copy_page_def mem)
  qed
  have "page_floor vaddr mod PAGE_SIZE = 0" by (simp add: page_floor_def)
  then show ?thesis
    using q(2) qa b1 b2 assms(3) by (auto simp: area_fault_def fk fp user_map_def)
qed

theorem cow_fault_copies_witness:
  "\<exists>ph' vm' q fl. area_fault ram_ops (\<lambda>_. 2) (demo_phys, ram_fs_new)
       (demo_vm\<lparr>vm_areas := [(hd (vm_areas demo_vm))\<lparr>ma_tracks := [\<lparr>mt_vaddr = 0x200000000, mt_frame = 0x90000000\<rparr>]\<rparr>]\<rparr>)
       0x200000123 = Some (Some ((ph', ram_fs_new), vm', True)) \<and>
     q \<in> fa_free (ph_frames demo_phys) \<and> vm_pt vm' 0x200000000 = Some (q, fl)"
proof -
  let ?vm = "demo_vm\<lparr>vm_areas := [(hd (vm_areas demo_vm))\<lparr>ma_tracks := [\<lparr>mt_vaddr = 0x200000000, mt_frame = 0x90000000\<rparr>]\<rparr>]\<rparr>"
  have pf: "page_floor 0x200000123 = 0x200000000" by (simp add: page_floor_def)
  have free: "fa_free (ph_frames demo_phys) \<noteq> {}" "0x90000000 \<notin> fa_free (ph_frames demo_phys)"
    by (simp_all add: demo_frames_free)
  show ?thesis
    using cow_fault_copies [OF demo_phys_ok free(1), of 0 ?vm "0x200000123" 0 "0x90000000" "\<lambda>_. 2" ram_ops ram_fs_new,
        unfolded pf] free(2)
    by (force simp: ma_contains_def wadd_def)
qed

end
