(* ===== verification/Ipc.thy ===== *)
theory Ipc
  imports AddrSpace
begin

unbundle bit_operations_syntax

text \<open>
  System V inter-process communication, \<open>syscall/shm.rs\<close> and \<open>tasks/shm.rs\<close>: message queues,
  semaphore sets and shared memory segments, each a global \<open>BTreeMap\<close> from keys.

  User memory of the message calls is a function from addresses to bytes.  Shared segments are
  reference-counted objects: the table and every attachment hold one reference, and a step
  relation over all processes shows what becomes of a segment that was marked for removal.
\<close>

section \<open>Bytes in user memory\<close>

type_synonym user_mem = "usize \<Rightarrow> u8"

definition load_bytes :: "user_mem \<Rightarrow> usize \<Rightarrow> nat \<Rightarrow> u8 list" where
  "load_bytes mem a n = map mem [a ..< a + n]"

definition store_bytes :: "user_mem \<Rightarrow> usize \<Rightarrow> u8 list \<Rightarrow> user_mem" where
  "store_bytes mem a bs = (\<lambda>x. if a \<le> x \<and> x < a + length bs then bs ! (x - a) else mem x)"

text \<open>\<open>i64::from_le_bytes\<close> and \<open>to_le_bytes\<close>.\<close>

definition le_word :: "u8 list \<Rightarrow> u64" where
  "le_word bs = foldr (\<lambda>b w. push_bit 8 w OR ucast b) bs 0"

definition le_bytes :: "u64 \<Rightarrow> u8 list" where
  "le_bytes w = map (\<lambda>i. ucast (drop_bit (8 * i) w)) [0 ..< 8]"

section \<open>Message queues\<close>

text \<open>The type of a message is an \<open>i64\<close>, kept as its value.\<close>

record message =
  msg_type :: int
  msg_text :: "u8 list"

record message_queue =
  mq_key :: usize
  mq_messages :: "message list"
  mq_max_bytes :: usize
  mq_current_bytes :: usize
  mq_max_messages :: usize

definition message_queue_new :: "usize \<Rightarrow> message_queue" where
  "message_queue_new key =
     \<lparr> mq_key = key, mq_messages = [], mq_max_bytes = 16384, mq_current_bytes = 0, mq_max_messages = 40 \<rparr>"

definition can_send :: "message_queue \<Rightarrow> usize \<Rightarrow> bool" where
  "can_send q msg_size \<longleftrightarrow>
     length (mq_messages q) < mq_max_messages q \<and> wadd (mq_current_bytes q) msg_size \<le> mq_max_bytes q"

definition send_message :: "message_queue \<Rightarrow> int \<Rightarrow> u8 list \<Rightarrow> message_queue \<times> bool" where
  "send_message q mtype data =
     (if can_send q (length data)
      then (q\<lparr>mq_current_bytes := wadd (mq_current_bytes q) (length data),
              mq_messages := mq_messages q @ [\<lparr> msg_type = mtype, msg_text = data \<rparr>]\<rparr>, True)
      else (q, False))"

text \<open>\<open>Iterator::position\<close>, and \<open>enumerate().filter(..).min_by_key(..)\<close>, which keeps the first of
  equal keys.\<close>

fun position :: "('a \<Rightarrow> bool) \<Rightarrow> 'a list \<Rightarrow> nat option" where
  "position P [] = None"
| "position P (x # xs) = (if P x then Some 0 else map_option Suc (position P xs))"

fun min_by_key :: "('a \<Rightarrow> int) \<Rightarrow> 'a list \<Rightarrow> 'a option" where
  "min_by_key key [] = None"
| "min_by_key key (x # xs) =
     (case min_by_key key xs of
        None \<Rightarrow> Some x
      | Some y \<Rightarrow> if key x \<le> key y then Some x else Some y)"

text \<open>Negation of an \<open>i64\<close>, which wraps at the least value.\<close>

definition i64_neg :: "int \<Rightarrow> int" where
  "i64_neg x = (if x = - (2 ^ 63) then x else - x)"

definition receive_index :: "message_queue \<Rightarrow> int \<Rightarrow> bool \<Rightarrow> nat option" where
  "receive_index q mtype except =
     (if mtype = 0 then (if mq_messages q = [] then None else Some 0)
      else if mtype > 0 then
        position (\<lambda>msg. if except then msg_type msg \<noteq> mtype else msg_type msg = mtype) (mq_messages q)
      else let abs_type = i64_neg mtype in
        map_option fst
          (min_by_key (msg_type \<circ> snd)
            (filter (\<lambda>(i, msg). msg_type msg \<le> abs_type) (enumerate 0 (mq_messages q)))))"

definition receive_message :: "message_queue \<Rightarrow> int \<Rightarrow> bool \<Rightarrow> message_queue \<times> message option" where
  "receive_message q mtype except =
     (case receive_index q mtype except of
        None \<Rightarrow> (q, None)
      | Some i \<Rightarrow>
          (let msg = mq_messages q ! i
           in (q\<lparr>mq_messages := take i (mq_messages q) @ drop (Suc i) (mq_messages q),
                 mq_current_bytes := wsub (mq_current_bytes q) (length (msg_text msg))\<rparr>, Some msg)))"

type_synonym msg_table = "message_queue btree_map"

abbreviation IPC_CREAT :: u64 where "IPC_CREAT \<equiv> 0x200"
abbreviation IPC_NOWAIT :: u64 where "IPC_NOWAIT \<equiv> 0x800"
abbreviation MSG_NOERROR :: u64 where "MSG_NOERROR \<equiv> 0x1000"
abbreviation MSG_EXCEPT :: u64 where "MSG_EXCEPT \<equiv> 0x2000"

definition sys_msgget :: "msg_table \<Rightarrow> usize \<Rightarrow> u64 \<Rightarrow> msg_table \<times> usize res" where
  "sys_msgget queues key msgflg =
     (let actual_key = (if key = 0 then wadd (bt_max_key queues 1000) 1 else key)
      in if map_of queues actual_key \<noteq> None then (queues, Ok actual_key)
         else if msgflg AND IPC_CREAT \<noteq> 0
         then (bt_insert actual_key (message_queue_new actual_key) queues, Ok actual_key)
         else (queues, Err ENOENT))"

definition sys_msgctl :: "msg_table \<Rightarrow> usize \<Rightarrow> usize \<Rightarrow> msg_table \<times> usize res" where
  "sys_msgctl queues msqid cmd =
     (if map_of queues msqid \<noteq> None
      then if cmd = 0 then (bt_remove msqid queues, Ok 0) else (queues, Ok 0)
      else (queues, Err EINVAL))"

definition sys_msgsnd ::
  "user_mem \<Rightarrow> msg_table \<Rightarrow> usize \<Rightarrow> usize \<Rightarrow> usize \<Rightarrow> u64 \<Rightarrow> msg_table \<times> usize res" where
  "sys_msgsnd mem queues msqid msgp msgsz msgflg =
     (case map_of queues msqid of
        None \<Rightarrow> (queues, Err EINVAL)
      | Some queue \<Rightarrow>
          if msgp = 0 then (queues, Err EFAULT)
          else let mtype = sint (le_word (load_bytes mem msgp 8));
                   msg_data = (if msgsz > 0 then load_bytes mem (wadd msgp 8) msgsz else [])
               in if can_send queue msgsz
                  then (bt_insert msqid (fst (send_message queue mtype msg_data)) queues, Ok 0)
                  else if msgflg AND IPC_NOWAIT \<noteq> 0 then (queues, Err EAGAIN)
                  else (queues, Ok 0))"

definition sys_msgrcv ::
  "user_mem \<Rightarrow> msg_table \<Rightarrow> usize \<Rightarrow> usize \<Rightarrow> usize \<Rightarrow> int \<Rightarrow> u64 \<Rightarrow> user_mem \<times> msg_table \<times> usize res" where
  "sys_msgrcv mem queues msqid msgp msgsz msgtyp msgflg =
     (case map_of queues msqid of
        None \<Rightarrow> (mem, queues, Err EINVAL)
      | Some queue \<Rightarrow>
          (case receive_message queue msgtyp (msgflg AND MSG_EXCEPT \<noteq> 0) of
             (queue, None) \<Rightarrow> (mem, bt_insert msqid queue queues, Err ENOMSG)
           | (queue, Some message) \<Rightarrow>
               (let queues = bt_insert msqid queue queues in
                if msgp = 0 then (mem, queues, Err EFAULT)
                else let mem = store_bytes mem msgp (le_bytes (word_of_int (msg_type message)));
                         data_len = min (length (msg_text message)) msgsz;
                         mem = (if data_len > 0
                                then store_bytes mem (wadd msgp 8) (take data_len (msg_text message)) else mem)
                     in if length (msg_text message) > msgsz \<and> msgflg AND MSG_NOERROR = 0
                        then (mem, queues, Err E2BIG)
                        else (mem, queues, Ok data_len))))"

section \<open>Semaphores\<close>

record semaphore =
  sem_key :: usize
  sem_nsems :: usize
  sem_values :: "32 word list"

definition semaphore_new :: "usize \<Rightarrow> usize \<Rightarrow> semaphore" where
  "semaphore_new key nsems = \<lparr> sem_key = key, sem_nsems = nsems, sem_values = replicate nsems 0 \<rparr>"

type_synonym sem_table = "semaphore btree_map"

definition sys_semget :: "sem_table \<Rightarrow> usize \<Rightarrow> usize \<Rightarrow> u64 \<Rightarrow> sem_table \<times> usize res" where
  "sys_semget sems key nsems semflg =
     (let actual_key = (if key = 0 then wadd (bt_max_key sems 0) 1 else key)
      in if map_of sems actual_key \<noteq> None then (sems, Ok actual_key)
         else if semflg AND IPC_CREAT \<noteq> 0
         then (bt_insert actual_key (semaphore_new actual_key nsems) sems, Ok actual_key)
         else (sems, Err ENOENT))"

text \<open>\<open>as usize\<close> extends the sign of an \<open>i32\<close>.\<close>

definition i32_as_usize :: "32 word \<Rightarrow> usize" where
  "i32_as_usize w = unat (scast w :: u64)"

definition sys_semctl :: "sem_table \<Rightarrow> usize \<Rightarrow> usize \<Rightarrow> usize \<Rightarrow> usize \<Rightarrow> sem_table \<times> usize res" where
  "sys_semctl sems semid semnum cmd arg =
     (case map_of sems semid of
        None \<Rightarrow> (sems, Err EINVAL)
      | Some sem \<Rightarrow>
          if cmd = 16 then
            if semnum < sem_nsems sem
            then if semnum < length (sem_values sem)
                 then (bt_insert semid (sem\<lparr>sem_values := (sem_values sem)[semnum := of_nat arg]\<rparr>) sems, Ok 0)
                 else (sems, Panic)
            else (sems, Err EINVAL)
          else if cmd = 12 then
            if semnum < sem_nsems sem
            then (case vec_get (sem_values sem) semnum of
                    None \<Rightarrow> (sems, Panic) | Some v \<Rightarrow> (sems, Ok (i32_as_usize v)))
            else (sems, Err EINVAL)
          else if cmd = 0 then (bt_remove semid sems, Ok 0)
          else (sems, Ok 0))"

definition sys_semop :: "sem_table \<Rightarrow> usize \<Rightarrow> usize \<Rightarrow> usize \<Rightarrow> usize res" where
  "sys_semop sems semid sops nsops = (if map_of sems semid \<noteq> None then Ok 0 else Err EINVAL)"

section \<open>Shared memory\<close>

text \<open>A segment is an object of its own (\<open>Arc<SharedMemory>\<close>); the table and the attachments of all
  processes refer to it by its index.\<close>

record shared_memory =
  sm_trackers :: "usize list"
  sm_deleted :: bool

record maped_shared_memory =
  mp_key :: usize
  mp_mem :: nat
  mp_start :: usize
  mp_size :: usize

record shm_state =
  sh_objs :: "shared_memory list"
  sh_table :: "nat btree_map"
  sh_maps :: "maped_shared_memory list"

definition shm_init :: shm_state where
  "shm_init = \<lparr> sh_objs = [], sh_table = [], sh_maps = [] \<rparr>"

definition shared_memory_new :: "usize list \<Rightarrow> shared_memory" where
  "shared_memory_new trackers = \<lparr> sm_trackers = trackers, sm_deleted = False \<rparr>"

text \<open>The mask is the literal \<open>01000\<close>, which is decimal.  \<open>None\<close> is the panic of the \<open>expect\<close>.\<close>

definition sys_shmget ::
  "phys \<Rightarrow> shm_state \<Rightarrow> usize \<Rightarrow> usize \<Rightarrow> u64 \<Rightarrow> (phys \<times> shm_state \<times> usize res) run" where
  "sys_shmget ph sh key sz shmflg =
     (let key = (if key = 0 then wadd (bt_max_key (sh_table sh) 0) 1 else key)
      in if map_of (sh_table sh) key \<noteq> None then Some (ph, sh, Ok key)
         else if shmflg AND 1000 \<noteq> 0
         then do { (ph, r) \<leftarrow> frame_alloc_much ph (div_ceil sz PAGE_SIZE);
                   trackers \<leftarrow> r;
                   Some (ph, sh\<lparr>sh_objs := sh_objs sh @ [shared_memory_new trackers],
                                sh_table := bt_insert key (length (sh_objs sh)) (sh_table sh)\<rparr>, Ok key) }
         else Some (ph, sh, Err ENOENT))"

fun shm_map_pages :: "'f vm \<Rightarrow> usize \<Rightarrow> nat \<Rightarrow> usize list \<Rightarrow> 'f vm run" where
  "shm_map_pages vm vaddr i [] = Some vm"
| "shm_map_pages vm vaddr i (p # ps) =
     do { vm \<leftarrow> user_map vm p (wadd vaddr (wmul i PAGE_SIZE)) URWX; shm_map_pages vm vaddr (Suc i) ps }"

definition shmat_addr :: "'f vm \<Rightarrow> usize \<Rightarrow> usize" where
  "shmat_addr vm shmaddr =
     (let vaddr = get_last_free_addr vm
      in if shmaddr = 0 then (if vaddr \<ge> 0x40000000 then vaddr else 0x40000000) else shmaddr)"

definition sys_shmat ::
  "shm_state \<Rightarrow> 'f vm \<Rightarrow> usize \<Rightarrow> usize \<Rightarrow> (shm_state \<times> 'f vm \<times> usize res) run" where
  "sys_shmat sh vm shmid shmaddr =
     (let vaddr = shmat_addr vm shmaddr
      in case map_of (sh_table sh) shmid of
           None \<Rightarrow> Some (sh, vm, Err ENOENT)
         | Some h \<Rightarrow>
             (let trackers = sm_trackers (sh_objs sh ! h); sz = wmul (length trackers) PAGE_SIZE
              in do { vm \<leftarrow> shm_map_pages vm vaddr 0 trackers;
                      Some (sh\<lparr>sh_maps := sh_maps sh @ [\<lparr> mp_key = shmid, mp_mem = h, mp_start = vaddr, mp_size = sz \<rparr>]\<rparr>,
                            vm\<lparr>vm_shms := vm_shms vm @ [(vaddr, sz)]\<rparr>, Ok vaddr) }))"

definition sys_shmctl :: "shm_state \<Rightarrow> usize \<Rightarrow> usize \<Rightarrow> shm_state \<times> usize res" where
  "sys_shmctl sh shmid cmd =
     (if cmd = 0
      then (case map_of (sh_table sh) shmid of
              None \<Rightarrow> sh
            | Some h \<Rightarrow> sh\<lparr>sh_objs := (sh_objs sh)[h := (sh_objs sh ! h)\<lparr>sm_deleted := True\<rparr>]\<rparr>, Ok 0)
      else (sh, Err EPERM))"

text \<open>\<open>Arc::strong_count\<close>: the references of the table and of the attachments, the one that is being
  dropped included.\<close>

definition strong_count :: "shm_state \<Rightarrow> nat \<Rightarrow> nat" where
  "strong_count sh h =
     length (filter (\<lambda>(k, h'). h' = h) (sh_table sh)) + length (filter (\<lambda>m. mp_mem m = h) (sh_maps sh))"

definition maped_drop :: "shm_state \<Rightarrow> maped_shared_memory \<Rightarrow> shm_state" where
  "maped_drop sh m =
     (let sh' = (if strong_count sh (mp_mem m) = 1 \<and> sm_deleted (sh_objs sh ! mp_mem m)
                 then sh\<lparr>sh_table := bt_remove (mp_key m) (sh_table sh)\<rparr> else sh)
      in sh'\<lparr>sh_maps := remove1 m (sh_maps sh)\<rparr>)"

section \<open>Encodings\<close>

lemma length_le_bytes [simp]: "length (le_bytes w) = 8"
  by (simp add: le_bytes_def)

lemma bit_le_word:
  "bit (le_word bs) n \<longleftrightarrow> n < 64 \<and> n div 8 < length bs \<and> bit (bs ! (n div 8)) (n mod 8)"
proof (induction bs arbitrary: n)
  case (Cons b bs)
  have "bit (le_word (b # bs)) n \<longleftrightarrow> n < 64 \<and> (8 \<le> n \<and> bit (le_word bs) (n - 8) \<or> n < 8 \<and> bit b n)"
    using bit_imp_le_length [of b n] by (auto simp: le_word_def bit_simps)
  moreover have "(n - 8) div 8 = n div 8 - 1" "(n - 8) mod 8 = n mod 8" "0 < n div 8" if "8 \<le> n"
    using that by (simp_all add: le_div_geq le_mod_geq)
  ultimately show ?case
    using less_Suc_eq_le [of "n div 8" "length bs"]
    by (cases "n < 8") (auto simp: Cons.IH nth_Cons' not_less)
qed (simp add: le_word_def)

lemma le_word_bytes: "le_word (le_bytes w) = w"
proof (rule bit_word_eqI)
  fix n assume "n < LENGTH(64)"
  then have "n < 64" "n div 8 < 8" by (simp_all add: less_mult_imp_div_less)
  then show "bit (le_word (le_bytes w)) n = bit w n"
    by (simp add: bit_le_word le_bytes_def bit_simps)
qed

lemma load_store: "load_bytes (store_bytes mem a bs) a (length bs) = bs"
  by (rule nth_equalityI) (simp_all add: load_bytes_def store_bytes_def)

lemma load_store_other:
  "a + length bs \<le> b \<or> b + n \<le> a \<Longrightarrow> load_bytes (store_bytes mem a bs) b n = load_bytes mem b n"
  by (auto simp: load_bytes_def store_bytes_def)

lemma length_load [simp]: "length (load_bytes mem a n) = n"
  by (simp add: load_bytes_def)

section \<open>Receiving\<close>

lemma position_Some:
  "position P xs = Some i \<longleftrightarrow> i < length xs \<and> P (xs ! i) \<and> (\<forall>j<i. \<not> P (xs ! j))"
proof (induction xs arbitrary: i)
  case (Cons x xs)
  show ?case
  proof (cases i)
    case 0 then show ?thesis by simp
  next
    case (Suc k)
    have "(\<forall>j<Suc k. \<not> P ((x # xs) ! j)) \<longleftrightarrow> \<not> P x \<and> (\<forall>j<k. \<not> P (xs ! j))"
      by (auto simp: less_Suc_eq_0_disj)
    then show ?thesis using Cons.IH [of k] Suc by auto
  qed
qed simp

lemma position_None: "position P xs = None \<longleftrightarrow> (\<forall>x\<in>set xs. \<not> P x)"
  by (induction xs) auto

lemma min_by_key_None: "min_by_key key xs = None \<longleftrightarrow> xs = []"
  by (cases xs) (auto split: option.splits)

lemma min_by_key_Some:
  "min_by_key key xs = Some y \<Longrightarrow>
     \<exists>us vs. xs = us @ y # vs \<and> (\<forall>x\<in>set us. key y < key x) \<and> (\<forall>x\<in>set vs. key y \<le> key x)"
proof (induction xs arbitrary: y)
  case (Cons x xs)
  show ?case
  proof (cases "min_by_key key xs")
    case None
    then have "xs = []" "y = x" using Cons.prems by (simp_all add: min_by_key_None)
    then show ?thesis by (intro exI [of _ "[]"]) simp
  next
    case (Some z)
    then obtain us vs where z: "xs = us @ z # vs" "\<forall>x\<in>set us. key z < key x" "\<forall>x\<in>set vs. key z \<le> key x"
      using Cons.IH by blast
    show ?thesis
    proof (cases "key x \<le> key z")
      case True
      then have "y = x" using Cons.prems Some by simp
      moreover have "\<forall>w\<in>set xs. key x \<le> key w" using z True by fastforce
      ultimately show ?thesis by (intro exI [of _ "[]"] exI [of _ xs]) simp
    next
      case False
      then have "y = z" using Cons.prems Some by simp
      then show ?thesis using z False by (intro exI [of _ "x # us"] exI [of _ vs]) auto
    qed
  qed
qed simp

text \<open>Which messages a request may take, and which of two it prefers.\<close>

definition eligible :: "int \<Rightarrow> bool \<Rightarrow> message \<Rightarrow> bool" where
  "eligible t except m \<longleftrightarrow>
     (if t = 0 then True
      else if t > 0 then (if except then msg_type m \<noteq> t else msg_type m = t)
      else msg_type m \<le> i64_neg t)"

definition mq_ok :: "message_queue \<Rightarrow> bool" where
  "mq_ok q \<longleftrightarrow> mq_max_bytes q = 16384 \<and> mq_max_messages q = 40 \<and> length (mq_messages q) \<le> 40 \<and>
     mq_current_bytes q = sum_list (map (length \<circ> msg_text) (mq_messages q)) \<and> mq_current_bytes q \<le> 16384"

lemma mem_enumerate: "(i, m) \<in> set (enumerate 0 xs) \<longleftrightarrow> i < length xs \<and> m = xs ! i"
  by (auto simp: in_set_conv_nth nth_enumerate_eq)

lemma receive_index_None: "receive_index q t e = None \<longleftrightarrow> (\<forall>m\<in>set (mq_messages q). \<not> eligible t e m)"
proof -
  consider "t = 0" | "t > 0" | "t < 0" by linarith
  then show ?thesis
  proof cases
    case 1
    then show ?thesis by (cases "mq_messages q") (auto simp: receive_index_def eligible_def)
  next
    case 2
    then show ?thesis by (auto simp: receive_index_def eligible_def position_None)
  next
    case 3
    have "filter (\<lambda>(i, m). msg_type m \<le> i64_neg t) (enumerate 0 (mq_messages q)) = [] \<longleftrightarrow>
        (\<forall>m\<in>set (mq_messages q). \<not> msg_type m \<le> i64_neg t)"
    proof -
      have "filter (\<lambda>(i, m). msg_type m \<le> i64_neg t) (enumerate 0 (mq_messages q)) = [] \<longleftrightarrow>
          (\<forall>i m. (i, m) \<in> set (enumerate 0 (mq_messages q)) \<longrightarrow> \<not> msg_type m \<le> i64_neg t)"
        by (auto simp: filter_empty_conv)
      then show ?thesis by (metis in_set_conv_nth mem_enumerate)
    qed
    then show ?thesis using 3 by (simp add: receive_index_def eligible_def Let_def min_by_key_None)
  qed
qed

lemma receive_index_Some:
  assumes "receive_index q t e = Some i"
  shows "i < length (mq_messages q) \<and> eligible t e (mq_messages q ! i) \<and>
    (\<forall>j<i. eligible t e (mq_messages q ! j) \<longrightarrow> t < 0 \<and> msg_type (mq_messages q ! i) < msg_type (mq_messages q ! j)) \<and>
    (t < 0 \<longrightarrow> (\<forall>m\<in>set (mq_messages q). eligible t e m \<longrightarrow> msg_type (mq_messages q ! i) \<le> msg_type m))"
proof -
  let ?ms = "mq_messages q"
  consider "t = 0" | "t > 0" | "t < 0" by linarith
  then show ?thesis
  proof cases
    case 1
    then show ?thesis using assms by (auto simp: receive_index_def eligible_def split: if_splits)
  next
    case 2
    then have "position (eligible t e) ?ms = Some i"
      using assms by (simp add: receive_index_def eligible_def [abs_def])
    then show ?thesis using 2 by (auto simp: position_Some)
  next
    case 3
    let ?L = "filter (\<lambda>(i, m). msg_type m \<le> i64_neg t) (enumerate 0 ?ms)"
    have el: "eligible t e m \<longleftrightarrow> msg_type m \<le> i64_neg t" for m using 3 by (simp add: eligible_def)
    obtain m where m: "min_by_key (msg_type \<circ> snd) ?L = Some (i, m)"
      using assms 3 by (auto simp: receive_index_def Let_def)
    then obtain us vs where L: "?L = us @ (i, m) # vs" "\<forall>x\<in>set us. msg_type m < msg_type (snd x)"
        "\<forall>x\<in>set vs. msg_type m \<le> msg_type (snd x)"
      using min_by_key_Some [OF m] by auto
    have mem: "(j, n) \<in> set ?L \<longleftrightarrow> j < length ?ms \<and> n = ?ms ! j \<and> eligible t e n" for j n
      by (auto simp: mem_enumerate el)
    have i: "i < length ?ms" "m = ?ms ! i" "eligible t e m" using mem [of i m] L(1) by auto
    have "sorted_wrt (\<lambda>x y. fst x < fst y) ?L"
      by (rule sorted_wrt_filter) (simp add: sorted_wrt_iff_nth_less nth_enumerate_eq)
    then have after: "i < fst x" if "x \<in> set vs" for x using that unfolding L(1) by (auto simp: sorted_wrt_append)
    have before: "msg_type m < msg_type (?ms ! j)" if "j < i" "eligible t e (?ms ! j)" for j
    proof -
      have "(j, ?ms ! j) \<in> set us \<union> {(i, m)} \<union> set vs" using mem [of j "?ms ! j"] that i(1) unfolding L(1) by auto
      then show ?thesis using L(2) after [of "(j, ?ms ! j)"] that(1) by auto
    qed
    have least: "msg_type m \<le> msg_type n" if n: "n \<in> set ?ms" "eligible t e n" for n
    proof -
      obtain j where "j < length ?ms" "n = ?ms ! j" using n(1) by (auto simp: in_set_conv_nth)
      then have "(j, n) \<in> set us \<union> {(i, m)} \<union> set vs" using mem [of j n] n(2) unfolding L(1) by auto
      then show ?thesis using L(2,3) by fastforce
    qed
    show ?thesis using 3 i before least by auto
  qed
qed

text \<open>C31: Which message a receive takes.  It takes none exactly when no message qualifies, and then
  the queue is unchanged; otherwise it removes one qualifying message and keeps the order of the
  others.  A request for a type, or for any message, takes the oldest that qualifies; a negative
  request takes one of the least type, and the oldest among equals.\<close>

theorem receive_selects:
  "case receive_message q t e of
     (q', None) \<Rightarrow> q' = q \<and> (\<forall>m\<in>set (mq_messages q). \<not> eligible t e m)
   | (q', Some m) \<Rightarrow> \<exists>xs ys. mq_messages q = xs @ m # ys \<and> mq_messages q' = xs @ ys \<and> eligible t e m \<and>
       (\<forall>x\<in>set xs. eligible t e x \<longrightarrow> t < 0 \<and> msg_type m < msg_type x) \<and>
       (\<forall>y\<in>set ys. eligible t e y \<longrightarrow> t < 0 \<longrightarrow> msg_type m \<le> msg_type y)"
proof (cases "receive_index q t e")
  case None
  then have "\<forall>m\<in>set (mq_messages q). \<not> eligible t e m" by (simp only: receive_index_None)
  then show ?thesis by (simp add: receive_message_def None)
next
  case (Some i)
  let ?ms = "mq_messages q" and ?m = "mq_messages q ! i"
  note i = receive_index_Some [OF Some]
  have split: "?ms = take i ?ms @ ?m # drop (Suc i) ?ms" using i by (simp add: id_take_nth_drop)
  have "\<forall>x\<in>set (take i ?ms). eligible t e x \<longrightarrow> t < 0 \<and> msg_type ?m < msg_type x"
    using i by (auto simp: in_set_conv_nth)
  moreover have "\<forall>y\<in>set (drop (Suc i) ?ms). eligible t e y \<longrightarrow> t < 0 \<longrightarrow> msg_type ?m \<le> msg_type y"
    using i by (auto dest: in_set_dropD)
  ultimately show ?thesis using split i by (auto simp: receive_message_def Some Let_def)
qed

definition demo_queue :: message_queue where
  "demo_queue = (message_queue_new 7)\<lparr>mq_messages :=
     [\<lparr> msg_type = 5, msg_text = [1] \<rparr>, \<lparr> msg_type = 2, msg_text = [2] \<rparr>, \<lparr> msg_type = 2, msg_text = [3] \<rparr>],
     mq_current_bytes := 3\<rparr>"

theorem receive_selects_witness:
  "\<exists>q'. receive_message demo_queue (- 4) False = (q', Some \<lparr> msg_type = 2, msg_text = [2] \<rparr>) \<and>
    (\<exists>xs ys. mq_messages demo_queue = xs @ \<lparr> msg_type = 2, msg_text = [2] \<rparr> # ys \<and> mq_messages q' = xs @ ys)"
proof -
  have "snd (receive_message demo_queue (- 4) False) = Some \<lparr> msg_type = 2, msg_text = [2] \<rparr>"
    by (simp add: receive_message_def receive_index_def demo_queue_def message_queue_new_def i64_neg_def Let_def)
  then obtain q' where r: "receive_message demo_queue (- 4) False = (q', Some \<lparr> msg_type = 2, msg_text = [2] \<rparr>)"
    by (metis prod.collapse)
  show ?thesis using receive_selects [of demo_queue "- 4" False] unfolding r by auto
qed

section \<open>The bounds of a queue\<close>

lemma mq_ok_new: "mq_ok (message_queue_new k)"
  by (simp add: mq_ok_def message_queue_new_def)

lemma can_send_iff:
  "mq_ok q \<Longrightarrow> n < 2 ^ 63 \<Longrightarrow>
     can_send q n \<longleftrightarrow> length (mq_messages q) < 40 \<and> mq_current_bytes q + n \<le> 16384"
  by (auto simp: can_send_def mq_ok_def wadd_def)

lemma mq_ok_send:
  assumes "mq_ok q" "length d < 2 ^ 63" shows "mq_ok (fst (send_message q t d))"
proof (cases "can_send q (length d)")
  case True
  then have "length (mq_messages q) < 40" "mq_current_bytes q + length d \<le> 16384"
    using can_send_iff [OF assms] by auto
  then show ?thesis using assms(1) True by (simp add: send_message_def mq_ok_def wadd_def)
next
  case False
  then show ?thesis using assms(1) by (simp add: send_message_def)
qed

lemma mq_ok_receive:
  assumes "mq_ok q" shows "mq_ok (fst (receive_message q t e))"
proof (cases "receive_index q t e")
  case None
  then show ?thesis using assms by (simp add: receive_message_def)
next
  case (Some i)
  let ?ms = "mq_messages q"
  have "i < length ?ms" using receive_index_Some [OF Some] by blast
  then have split: "?ms = take i ?ms @ ?ms ! i # drop (Suc i) ?ms" by (simp add: id_take_nth_drop)
  let ?rest = "take i ?ms @ drop (Suc i) ?ms"
  have "sum_list (map (length \<circ> msg_text) ?ms) =
      sum_list (map (length \<circ> msg_text) ?rest) + length (msg_text (?ms ! i))"
    by (subst split) simp
  then have "wsub (mq_current_bytes q) (length (msg_text (?ms ! i))) =
      sum_list (map (length \<circ> msg_text) ?rest)" "sum_list (map (length \<circ> msg_text) ?rest) \<le> 16384"
    using assms by (simp_all add: mq_ok_def wsub_exact)
  moreover have "length ?rest \<le> length ?ms" by simp
  ultimately show ?thesis
    using assms unfolding receive_message_def Some Let_def mq_ok_def
    by (simp del: map_append sum_list_append length_append)
qed

text \<open>The tables that the calls of any processes reach.  A message lies in memory, so its length
  is below \<open>2 ^ 63\<close>.\<close>

inductive msg_reach :: "msg_table \<Rightarrow> bool" where
  empty_table: "msg_reach []"
| msgget: "msg_reach t \<Longrightarrow> msg_reach (fst (sys_msgget t key flg))"
| msgctl: "msg_reach t \<Longrightarrow> msg_reach (fst (sys_msgctl t k cmd))"
| msgsnd: "msg_reach t \<Longrightarrow> n < 2 ^ 63 \<Longrightarrow> msg_reach (fst (sys_msgsnd mem t k p n flg))"
| msgrcv: "msg_reach t \<Longrightarrow> msg_reach (fst (snd (sys_msgrcv mem t k p n ty flg)))"

definition msg_table_ok :: "msg_table \<Rightarrow> bool" where
  "msg_table_ok t \<longleftrightarrow> bt_sorted t \<and> (\<forall>k q. map_of t k = Some q \<longrightarrow> mq_ok q)"

lemma msg_table_ok_insert:
  "msg_table_ok t \<Longrightarrow> mq_ok q \<Longrightarrow> msg_table_ok (bt_insert k q t)"
  by (auto simp: msg_table_ok_def)

lemma msg_table_ok_remove: "msg_table_ok t \<Longrightarrow> msg_table_ok (bt_remove k t)"
  by (auto simp: msg_table_ok_def)

lemma msg_table_okD: "msg_table_ok t \<Longrightarrow> map_of t k = Some q \<Longrightarrow> mq_ok q"
  by (simp add: msg_table_ok_def)

lemma msg_reach_ok: "msg_reach t \<Longrightarrow> msg_table_ok t"
proof (induction rule: msg_reach.induct)
  case empty_table
  show ?case by (simp add: msg_table_ok_def)
next
  case (msgget t key flg)
  then show ?case by (simp add: sys_msgget_def Let_def msg_table_ok_insert mq_ok_new)
next
  case (msgctl t k cmd)
  then show ?case by (simp add: sys_msgctl_def msg_table_ok_remove)
next
  case (msgsnd t n mem k p flg)
  show ?case
  proof (cases "map_of t k")
    case None
    then show ?thesis using msgsnd by (simp add: sys_msgsnd_def)
  next
    case (Some q)
    let ?d = "if n > 0 then load_bytes mem (wadd p 8) n else []"
    have "mq_ok (fst (send_message q ty ?d))" for ty
      using mq_ok_send [OF msg_table_okD [OF msgsnd.IH Some], of ?d] msgsnd.hyps(2) by auto
    then show ?thesis
      using msgsnd.IH Some by (simp add: sys_msgsnd_def Let_def msg_table_ok_insert)
  qed
next
  case (msgrcv t mem k p n ty flg)
  show ?case
  proof (cases "map_of t k")
    case None
    then show ?thesis using msgrcv by (simp add: sys_msgrcv_def)
  next
    case (Some q)
    obtain q' r where r: "receive_message q ty (flg AND MSG_EXCEPT \<noteq> 0) = (q', r)" by fastforce
    have "mq_ok q'" using mq_ok_receive [OF msg_table_okD [OF msgrcv.IH Some], of ty] r by (metis fst_conv)
    then have "msg_table_ok (bt_insert k q' t)" using msgrcv.IH by (rule msg_table_ok_insert [rotated])
    then show ?thesis using Some r by (simp add: sys_msgrcv_def Let_def split: option.split)
  qed
qed

text \<open>C14: The limits of a message queue hold in every state the calls reach: at most 40 messages and
  at most 16384 bytes, with \<open>current_bytes\<close> exactly the bytes queued, so that its subtraction on
  receiving never wraps.\<close>

theorem queue_bounds:
  assumes "msg_reach t" "map_of t k = Some q"
  shows "length (mq_messages q) \<le> 40 \<and>
    mq_current_bytes q = sum_list (map (length \<circ> msg_text) (mq_messages q)) \<and> mq_current_bytes q \<le> 16384"
  using msg_table_okD [OF msg_reach_ok [OF assms(1)] assms(2)] by (simp add: mq_ok_def)

theorem queue_bounds_witness:
  "mq_current_bytes (message_queue_new 5) \<le> 16384"
proof -
  have "msg_reach (fst (sys_msgget [] 5 IPC_CREAT))" by (rule msgget [OF empty_table])
  moreover have "map_of (fst (sys_msgget [] 5 IPC_CREAT)) 5 = Some (message_queue_new 5)"
    by (simp add: sys_msgget_def)
  ultimately show ?thesis using queue_bounds by blast
qed

section \<open>Sending and receiving\<close>

lemma position_last: "\<forall>x\<in>set xs. \<not> P x \<Longrightarrow> P y \<Longrightarrow> position P (xs @ [y]) = Some (length xs)"
  by (induction xs) auto

lemma receive_last:
  assumes "t > 0" "\<forall>m\<in>set ms. msg_type m \<noteq> t" "msg_type x = t"
  shows "receive_message (q\<lparr>mq_messages := ms @ [x], mq_current_bytes := c\<rparr>) t False =
    (q\<lparr>mq_messages := ms, mq_current_bytes := wsub c (length (msg_text x))\<rparr>, Some x)"
proof -
  have "position (\<lambda>m. msg_type m = t) (ms @ [x]) = Some (length ms)"
    using assms by (intro position_last) auto
  then show ?thesis using assms(1) by (simp add: receive_message_def receive_index_def Let_def)
qed

lemma load_bytes_append: "load_bytes mem a (m + n) = load_bytes mem a m @ load_bytes mem (a + m) n"
  unfolding load_bytes_def map_append [symmetric]
  using upt_add_eq_append [of a "a + m" n] by (simp add: add.assoc)

lemma word_of_sint_type: "word_of_int (sint (w :: u64)) = w"
  by simp

lemma le_bytes_word: "length bs = 8 \<Longrightarrow> le_bytes (le_word bs) = bs"
proof (rule nth_equalityI)
  fix i assume l: "length bs = 8" and "i < length (le_bytes (le_word bs))"
  then have i: "i < 8" by simp
  show "le_bytes (le_word bs) ! i = bs ! i"
  proof (rule bit_word_eqI)
    fix n assume "n < LENGTH(8)"
    then have "n < 8" by simp
    then show "bit (le_bytes (le_word bs) ! i) n = bit (bs ! i) n"
      using i l by (simp add: le_bytes_def bit_simps bit_le_word mult.commute [of 8] add.commute)
  qed
qed simp

text \<open>A message travels unchanged.  When \<open>msgsnd\<close> has room and no other message of the type is
  queued, a \<open>msgrcv\<close> of the type with a buffer of the size returns the size, leaves the type and
  the bytes of the sender in the buffer, and restores the queue.\<close>

theorem message_roundtrip:
  assumes "msg_table_ok t" "map_of t k = Some q" "can_send q n" "n < 2 ^ 63"
    and "p \<noteq> 0" "p + 8 + n < 2 ^ 64" "p' \<noteq> 0" "p' + 8 + n < 2 ^ 64"
    and "ty = sint (le_word (load_bytes mem p 8))" "ty > 0" "\<forall>m\<in>set (mq_messages q). msg_type m \<noteq> ty"
  shows "let (t1, r1) = sys_msgsnd mem t k p n flg; (mem', t2, r2) = sys_msgrcv mem t1 k p' n ty 0
    in r1 = Ok 0 \<and> r2 = Ok n \<and> load_bytes mem' p' (8 + n) = load_bytes mem p (8 + n) \<and> map_of t2 k = Some q"
proof -
  let ?d = "load_bytes mem (p + 8) n" and ?x = "\<lparr> msg_type = ty, msg_text = load_bytes mem (p + 8) n \<rparr>"
  have s: "bt_sorted t" and ok: "mq_ok q" using assms(1,2) by (auto simp: msg_table_ok_def)
  have bytes: "mq_current_bytes q + n \<le> 16384" using can_send_iff [OF ok assms(4)] assms(3) by blast
  have w: "wadd p 8 = p + 8" "wadd p' 8 = p' + 8" using assms(6,8) by (simp_all add: wadd_def)
  have d: "(if n > 0 then ?d else []) = ?d" by (simp add: load_bytes_def)
  define q1 where "q1 = q\<lparr>mq_messages := mq_messages q @ [?x], mq_current_bytes := mq_current_bytes q + n\<rparr>"
  have "fst (send_message q ty ?d) = q1"
    using assms(3) bytes by (simp add: send_message_def q1_def wadd_def)
  then have snd1: "sys_msgsnd mem t k p n flg = (bt_insert k q1 t, Ok 0)"
    using assms(2,3,5,9) unfolding sys_msgsnd_def Let_def w d by simp
  have rcv: "receive_message q1 ty False = (q, Some ?x)"
    unfolding q1_def using receive_last [OF assms(10,11), of ?x] bytes by (simp add: wsub_exact)
  define mem1 where "mem1 = store_bytes mem p' (load_bytes mem p 8)"
  have ty: "le_bytes (word_of_int ty) = load_bytes mem p 8" using assms(9) by (simp add: le_bytes_word)
  define mem2 where "mem2 = (if n > 0 then store_bytes mem1 (p' + 8) ?d else mem1)"
  have "sys_msgrcv mem (bt_insert k q1 t) k p' n ty 0 = (mem2, bt_insert k q (bt_insert k q1 t), Ok n)"
    using s rcv assms(7) by (simp add: sys_msgrcv_def Let_def w ty mem2_def mem1_def)
  moreover have "load_bytes mem2 p' (8 + n) = load_bytes mem p (8 + n)"
  proof -
    have "load_bytes mem2 p' 8 = load_bytes mem p 8"
      using load_store [of mem p' "load_bytes mem p 8"]
      by (simp add: mem2_def mem1_def load_store_other)
    moreover have "load_bytes mem2 (p' + 8) n = ?d"
      using load_store [of mem1 "p' + 8" ?d] by (simp add: mem2_def) (simp add: load_bytes_def)
    ultimately show ?thesis by (simp only: load_bytes_append)
  qed
  ultimately show ?thesis using snd1 s by simp
qed

theorem message_roundtrip_witness:
  "let mem = store_bytes (store_bytes (\<lambda>_. 0) 16 (le_bytes 3)) 24 [10, 20];
       t = [(7, message_queue_new 7)];
       (t1, r1) = sys_msgsnd mem t 7 16 2 0; (mem', t2, r2) = sys_msgrcv mem t1 7 64 2 3 0
   in r1 = Ok 0 \<and> r2 = Ok 2 \<and> load_bytes mem' 64 (8 + 2) = load_bytes mem 16 (8 + 2) \<and>
      map_of t2 7 = Some (message_queue_new 7)"
proof -
  let ?mem = "store_bytes (store_bytes (\<lambda>_. 0) 16 (le_bytes 3)) 24 [10, 20]"
    and ?t = "[(7, message_queue_new 7)]"
  have "load_bytes ?mem 16 8 = le_bytes 3"
    using load_store [of "\<lambda>_. 0" 16 "le_bytes 3"] by (simp add: load_store_other)
  then have ty: "3 = sint (le_word (load_bytes ?mem 16 8))" by (simp add: le_word_bytes)
  have ok: "msg_table_ok ?t" by (simp add: msg_table_ok_def bt_sorted_def mq_ok_new)
  have "can_send (message_queue_new 7) 2" by (simp add: can_send_def message_queue_new_def wadd_def)
  from message_roundtrip [OF ok _ this _ _ _ _ _ ty, of 7 64 0]
  show ?thesis by (simp add: Let_def message_queue_new_def)
qed

section \<open>Semaphores and segments\<close>

definition sem_ok :: "semaphore \<Rightarrow> bool" where
  "sem_ok s \<longleftrightarrow> length (sem_values s) = sem_nsems s"

inductive sem_reach :: "sem_table \<Rightarrow> bool" where
  sem_empty: "sem_reach []"
| semget: "sem_reach t \<Longrightarrow> sem_reach (fst (sys_semget t key n flg))"
| semctl: "sem_reach t \<Longrightarrow> sem_reach (fst (sys_semctl t k i cmd arg))"

definition sem_table_ok :: "sem_table \<Rightarrow> bool" where
  "sem_table_ok t \<longleftrightarrow> bt_sorted t \<and> (\<forall>k s. map_of t k = Some s \<longrightarrow> sem_ok s)"

lemma sem_reach_ok: "sem_reach t \<Longrightarrow> sem_table_ok t"
proof (induction rule: sem_reach.induct)
  case sem_empty
  show ?case by (simp add: sem_table_ok_def)
next
  case (semget t key n flg)
  then show ?case
    by (auto simp: sys_semget_def Let_def sem_table_ok_def semaphore_new_def sem_ok_def)
next
  case (semctl t k i cmd arg)
  then show ?case
    by (cases "map_of t k") (auto simp: sys_semctl_def sem_table_ok_def sem_ok_def split: option.split)
qed

text \<open>\<open>semctl\<close> is total on the semaphore sets that exist: in every state the calls reach, setting
  a semaphore of a set and reading it back returns the low 32 bits of what was set, with their
  sign extended, a number outside the set gives \<open>EINVAL\<close>, and the kernel never panics.\<close>

theorem semctl_set_get:
  assumes "sem_reach t" "map_of t k = Some s"
  shows "if i < sem_nsems s
    then snd (sys_semctl t k i 16 v) = Ok 0 \<and>
         snd (sys_semctl (fst (sys_semctl t k i 16 v)) k i 12 0) = Ok (i32_as_usize (of_nat v))
    else snd (sys_semctl t k i 16 v) = Err EINVAL \<and> snd (sys_semctl t k i 12 0) = Err EINVAL"
  using sem_reach_ok [OF assms(1)] assms(2)
  by (auto simp: sys_semctl_def sem_table_ok_def sem_ok_def vec_get_def)

theorem semctl_set_get_witness:
  "snd (sys_semctl (fst (sys_semctl [(9, semaphore_new 9 2)] 9 1 16 4294967295)) 9 1 12 0) = Ok (2 ^ 64 - 1)"
proof -
  have r: "sem_reach [(9, semaphore_new 9 2)]"
    using semget [OF sem_empty, of 9 2 IPC_CREAT] by (simp add: sys_semget_def)
  have "i32_as_usize (of_nat 4294967295) = 2 ^ 64 - 1"
    by (simp add: i32_as_usize_def unsigned_minus_1_eq_mask mask_eq_exp_minus_1)
  then show ?thesis
    using semctl_set_get [OF r, of 9 "semaphore_new 9 2" 1 4294967295] by (simp add: semaphore_new_def)
qed

text \<open>The steps of all processes on the shared segments.  A fork copies attachments; the end of a
  process drops them.\<close>

inductive shm_step :: "shm_state \<Rightarrow> shm_state \<Rightarrow> bool" where
  shmget: "sys_shmget ph sh key sz flg = Some (ph', sh', r) \<Longrightarrow> shm_step sh sh'"
| shmat: "sys_shmat sh (vm :: nat vm) k addr = Some (sh', vm', r) \<Longrightarrow> shm_step sh sh'"
| shmctl: "sys_shmctl sh k cmd = (sh', r) \<Longrightarrow> shm_step sh sh'"
| shmfork: "m \<in> set (sh_maps sh) \<Longrightarrow> shm_step sh (sh\<lparr>sh_maps := sh_maps sh @ [m]\<rparr>)"
| shmdrop: "m \<in> set (sh_maps sh) \<Longrightarrow> shm_step sh (maped_drop sh m)"

inductive shm_reach :: "shm_state \<Rightarrow> bool" where
  shm_start: "shm_reach shm_init"
| shm_next: "shm_reach sh \<Longrightarrow> shm_step sh sh' \<Longrightarrow> shm_reach sh'"

definition shm_ok :: "shm_state \<Rightarrow> bool" where
  "shm_ok sh \<longleftrightarrow> bt_sorted (sh_table sh) \<and>
     (\<forall>m\<in>set (sh_maps sh). map_of (sh_table sh) (mp_key m) = Some (mp_mem m))"

text \<open>While a segment is attached, the table holds a reference as well, so the count at a drop is
  never 1.\<close>

lemma strong_count_attached:
  assumes "shm_ok sh" "m \<in> set (sh_maps sh)" shows "2 \<le> strong_count sh (mp_mem m)"
proof -
  have "(mp_key m, mp_mem m) \<in> set (sh_table sh)"
    using assms bt_sorted_mem [of "sh_table sh" "mp_key m"] by (simp add: shm_ok_def)
  then have "filter (\<lambda>(k, h'). h' = mp_mem m) (sh_table sh) \<noteq> []" by (force simp: filter_empty_conv)
  moreover have "filter (\<lambda>m'. mp_mem m' = mp_mem m) (sh_maps sh) \<noteq> []"
    using assms(2) by (auto simp: filter_empty_conv)
  ultimately show ?thesis
    unfolding strong_count_def by (metis One_nat_def Suc_leI add_mono length_greater_0_conv one_add_one)
qed

lemma shm_ok_insert:
  assumes "shm_ok sh" "map_of (sh_table sh) k = None"
  shows "shm_ok (sh\<lparr>sh_objs := obs, sh_table := bt_insert k h (sh_table sh)\<rparr>)"
proof -
  have "mp_key m \<noteq> k" if "m \<in> set (sh_maps sh)" for m using assms that by (auto simp: shm_ok_def)
  then show ?thesis using assms(1) by (simp add: shm_ok_def)
qed

lemma shm_step_keeps:
  assumes "shm_step sh sh'" "shm_ok sh"
  shows "shm_ok sh' \<and> (\<forall>k h. map_of (sh_table sh) k = Some h \<longrightarrow> map_of (sh_table sh') k = Some h)"
  using assms(1)
proof cases
  case (shmget ph key sz flg ph' r)
  have "bt_sorted (sh_table sh)" using assms(2) by (simp add: shm_ok_def)
  with shmget show ?thesis using assms(2)
    by (auto simp: sys_shmget_def Let_def shm_ok_insert bind_eq_Some_conv split: if_splits)
next
  case (shmat vm k addr vm' r)
  then show ?thesis using assms(2)
    by (auto simp: sys_shmat_def Let_def shm_ok_def bind_eq_Some_conv split: option.splits)
next
  case (shmctl k cmd r)
  then show ?thesis using assms(2)
    by (auto simp: sys_shmctl_def shm_ok_def split: if_splits option.splits)
next
  case (shmfork m)
  then show ?thesis using assms(2) by (auto simp: shm_ok_def)
next
  case (shmdrop m)
  then have "strong_count sh (mp_mem m) \<noteq> 1" using strong_count_attached [OF assms(2), of m] by simp
  then have "sh' = sh\<lparr>sh_maps := remove1 m (sh_maps sh)\<rparr>" using shmdrop(1) by (simp add: maped_drop_def)
  then show ?thesis using assms(2) by (auto simp: shm_ok_def dest: notin_set_remove1)
qed

lemma shm_reach_ok: "shm_reach sh \<Longrightarrow> shm_ok sh"
proof (induction rule: shm_reach.induct)
  case shm_start
  show ?case by (simp add: shm_ok_def shm_init_def)
qed (use shm_step_keeps in blast)

text \<open>No step ever removes a shared segment.  In every state the processes reach, a segment that
  is in the table stays there under the same key, also when it was marked for removal and its last
  attachment is dropped: the drop tests for a count of 1, but the table itself holds a reference.\<close>

theorem segments_never_freed:
  assumes "shm_reach sh" "shm_step sh sh'" "map_of (sh_table sh) k = Some h"
  shows "map_of (sh_table sh') k = Some h"
  using shm_step_keeps [OF assms(2) shm_reach_ok [OF assms(1)]] assms(3) by blast

text \<open>A segment that is marked for removal while one process has it attached.\<close>

definition marked_shm :: shm_state where
  "marked_shm = \<lparr> sh_objs = [\<lparr> sm_trackers = [], sm_deleted = True \<rparr>], sh_table = [(5, 0)],
     sh_maps = [\<lparr> mp_key = 5, mp_mem = 0, mp_start = 0x40000000, mp_size = 0 \<rparr>] \<rparr>"

theorem segments_never_freed_witness:
  "map_of (sh_table (maped_drop marked_shm (hd (sh_maps marked_shm)))) 5 = Some 0 \<and>
   sm_deleted (sh_objs marked_shm ! 0) \<and> sh_maps (maped_drop marked_shm (hd (sh_maps marked_shm))) = []"
proof -
  let ?ph = "\<lparr> ph_frames = [\<lparr> fr_bits = [0], fr_paddr = 0, fr_paddr_end = 0x1000 \<rparr>], ph_mem = (\<lambda>_. 0) \<rparr>"
    and ?vm = "\<lparr> vm_pt = Map.empty, vm_areas = [], vm_shms = [], vm_heap = 0 \<rparr> :: nat vm"
    and ?s1 = "\<lparr> sh_objs = [\<lparr> sm_trackers = [], sm_deleted = False \<rparr>], sh_table = [(5, 0)], sh_maps = [] \<rparr>"
    and ?s2 = "\<lparr> sh_objs = [\<lparr> sm_trackers = [], sm_deleted = False \<rparr>], sh_table = [(5, 0)],
      sh_maps = [\<lparr> mp_key = 5, mp_mem = 0, mp_start = 0x40000000, mp_size = 0 \<rparr>] \<rparr>"
  have "frame_alloc_much ?ph 0 = Some (?ph, Some [])"
    by (simp add: frame_alloc_much_def region_alloc_much_def wsub_def scan_window.simps ba_get_bit_def)
  then have "sys_shmget ?ph shm_init 5 0 IPC_CREAT = Some (?ph, ?s1, Ok 5)"
    by (simp add: sys_shmget_def shm_init_def shared_memory_new_def div_ceil_def)
  then have 1: "shm_reach ?s1" by (rule shm_next [OF shm_start shmget])
  have "\<exists>vm'. sys_shmat ?s1 ?vm 5 0 = Some (?s2, vm', Ok 0x40000000)"
    by (simp add: sys_shmat_def shmat_addr_def get_last_free_addr_def wmul_def)
  then have 2: "shm_reach ?s2" using shm_next [OF 1 shmat] by blast
  have "sys_shmctl ?s2 5 0 = (marked_shm, Ok 0)" by (simp add: sys_shmctl_def marked_shm_def)
  then have 3: "shm_reach marked_shm" by (rule shm_next [OF 2 shmctl])
  have m: "hd (sh_maps marked_shm) \<in> set (sh_maps marked_shm)" "map_of (sh_table marked_shm) 5 = Some 0"
    by (simp_all add: marked_shm_def)
  show ?thesis
    using segments_never_freed [OF 3 shmdrop [OF m(1)] m(2)]
    by (simp add: marked_shm_def maped_drop_def Let_def)
qed

end
