(* ===== verification/Futex.thy ===== *)
theory Futex
  imports Timers
begin

text \<open>
  Futexes: the \<open>FutexTable\<close> of a process, \<open>in_futex\<close>, \<open>WaitFutex\<close>, \<open>futex_wake\<close> and
  \<open>futex_requeue\<close> of \<open>tasks/async_ops.rs\<close>, and \<open>sys_futex\<close> of \<open>syscall/task.rs\<close> as a start and a
  poll.

  The table is a \<open>BTreeMap\<close> from addresses to vectors of thread identifiers: an association list
  in ascending order of the keys, since \<open>WaitFutex\<close> looks for the first queue that holds the
  thread.  The step relation interleaves the calls and polls of any number of threads; its
  invariant is what makes a wake reach the threads that wait.
\<close>

section \<open>The table\<close>

type_synonym futex_table = "usize list btree_map"

definition in_futex :: "futex_table \<Rightarrow> usize \<Rightarrow> bool" where
  "in_futex t tid \<longleftrightarrow> find (\<lambda>q. tid \<in> set q) (map snd t) \<noteq> None"

text \<open>\<open>values_mut().find(..).map(retain)\<close>.\<close>

fun ft_retain :: "usize \<Rightarrow> futex_table \<Rightarrow> futex_table" where
  "ft_retain tid [] = []"
| "ft_retain tid ((k, q) # t) =
     (if tid \<in> set q then (k, filter (\<lambda>x. x \<noteq> tid) q) # t else (k, q) # ft_retain tid t)"

definition futex_wake :: "futex_table \<Rightarrow> usize \<Rightarrow> usize \<Rightarrow> futex_table \<times> usize" where
  "futex_wake t uaddr wake_count =
     (let que_size = (case map_of t uaddr of None \<Rightarrow> 0 | Some q \<Rightarrow> length q)
      in if que_size = 0 then (t, 0)
         else (case map_of t uaddr of
                 None \<Rightarrow> (t, 0)
               | Some q \<Rightarrow>
                   (bt_insert uaddr (drop (min wake_count que_size) q) t,
                    length (take (min wake_count que_size) q))))"

text \<open>\<open>Vec::drain(..n)\<close> panics when the vector is shorter.\<close>

definition drain_to :: "'a list \<Rightarrow> usize \<Rightarrow> ('a list \<times> 'a list) run" where
  "drain_to q n = (if n \<le> length q then Some (take n q, drop n q) else None)"

definition futex_requeue ::
  "futex_table \<Rightarrow> usize \<Rightarrow> usize \<Rightarrow> usize \<Rightarrow> usize \<Rightarrow> (futex_table \<times> usize) run" where
  "futex_requeue t uaddr wake_count uaddr2 reque_count =
     do { (t, waked_size) \<leftarrow>
            (case map_of t uaddr of
               None \<Rightarrow> Some (t, 0)
             | Some q \<Rightarrow> do { (woken, q) \<leftarrow> drain_to q wake_count;
                            Some (bt_insert uaddr q t, length woken) });
          (t, reque) \<leftarrow>
            (case map_of t uaddr of
               None \<Rightarrow> Some (t, None)
             | Some q \<Rightarrow> do { (moved, q) \<leftarrow> drain_to q reque_count;
                            Some (bt_insert uaddr q t, Some moved) });
          (case reque of
             None \<Rightarrow> Some (t, waked_size)
           | Some reque \<Rightarrow>
               let t = (if map_of t uaddr2 = None then bt_insert uaddr2 [] t else t)
               in do { q \<leftarrow> map_of t uaddr2; Some (bt_insert uaddr2 (q @ reque) t, waked_size) }) }"

section \<open>Waiting\<close>

type_synonym futex_env = "usize \<times> u64"

text \<open>\<open>WaitFutex::poll\<close>: \<open>signal\<close> is the pending set of the thread.\<close>

definition wait_futex_poll :: "usize \<Rightarrow> u64 \<Rightarrow> futex_table \<Rightarrow> futex_table \<times> usize res poll" where
  "wait_futex_poll tid signal t =
     (if in_futex t tid
      then if has_signal signal then (ft_retain tid t, Ready (Err EINTR)) else (t, Pending)
      else (t, Ready (Ok 0)))"

definition futex_future ::
  "usize \<Rightarrow> futex_table \<times> futex_env \<Rightarrow> (futex_table \<times> futex_env) \<times> usize \<times> usize res poll" where
  "futex_future tid = (\<lambda>(t, ns, signal).
     let (t, r) = wait_futex_poll tid signal t in ((t, ns, signal), tid, r))"

definition deadline_future ::
  "usize \<Rightarrow> futex_table \<times> futex_env \<Rightarrow> (futex_table \<times> futex_env) \<times> usize \<times> unit poll" where
  "deadline_future d = (\<lambda>(t, ns, signal). ((t, ns, signal), d, wait_until_poll ns d))"

datatype futex_flags = FutexWait | FutexWake | FutexFd | FutexRequeue | FutexCmpRequeue | FutexWakeOp
  | FutexLockPi | FutexUnlockPi | FutexTrylockPi | FutexWaitBitset

definition futex_flags_of :: "usize \<Rightarrow> futex_flags res" where
  "futex_flags_of op =
     (if op = 0 then Ok FutexWait
      else if op = 1 then Ok FutexWake
      else if op = 3 then Ok FutexRequeue
      else if op \<le> 10 then Ok FutexWake
      else Err ENOSYS)"

text \<open>How far \<open>sys_futex\<close> gets before it first suspends: it returns, it yields once and then
  returns, or it waits, with or without a deadline.\<close>

datatype futex_start = Returns "usize res" | Yields usize | Waits "usize option"

text \<open>\<open>word\<close> is the value at \<open>uaddr\<close> and \<open>timeout\<close> reads a \<open>TimeSpec\<close> of user memory.\<close>

definition sys_futex ::
  "usize \<Rightarrow> usize \<Rightarrow> (usize \<Rightarrow> time_spec) \<Rightarrow> futex_table \<Rightarrow> usize \<Rightarrow> 32 word \<Rightarrow> usize \<Rightarrow> usize
   \<Rightarrow> usize \<Rightarrow> usize \<Rightarrow> futex_table \<times> futex_start" where
  "sys_futex tid ns timeout t uaddr word op value value2 uaddr2 =
     (let op = (if op \<ge> 0x80 then op - 0x80 else op) in
      if uaddr = 0 then (t, Returns (Err EFAULT))
      else case futex_flags_of op of
        Err e \<Rightarrow> (t, Returns (Err e))
      | Panic \<Rightarrow> (t, Returns Panic)
      | Ok FutexWait \<Rightarrow>
          if word = of_nat value
          then let t = (case map_of t uaddr of
                          Some q \<Rightarrow> bt_insert uaddr (q @ [tid]) t
                        | None \<Rightarrow> bt_insert uaddr [tid] t)
               in (t, Waits (if value2 \<noteq> 0 then Some (wadd ns (to_nsec (timeout value2))) else None))
          else (t, Returns (Err EAGAIN))
      | Ok FutexWake \<Rightarrow>
          let (t, count) = futex_wake t uaddr value in (t, Yields count)
      | Ok FutexRequeue \<Rightarrow>
          (case futex_requeue t uaddr value uaddr2 value2 of
             None \<Rightarrow> (t, Returns Panic)
           | Some (t, count) \<Rightarrow> (t, Returns (Ok count)))
      | Ok _ \<Rightarrow> (t, Returns Panic))"

text \<open>One poll of a waiting \<open>sys_futex\<close>: \<open>WaitFutex\<close> alone, or selected against the deadline.\<close>

definition futex_poll ::
  "usize \<Rightarrow> usize option \<Rightarrow> usize \<Rightarrow> u64 \<Rightarrow> futex_table \<Rightarrow> futex_table \<times> usize res poll" where
  "futex_poll tid deadline ns signal t =
     (case deadline of
        None \<Rightarrow> wait_futex_poll tid signal t
      | Some d \<Rightarrow>
          (case select_poll futex_future deadline_future (Some (tid, d)) (t, ns, signal) of
             None \<Rightarrow> (t, Ready Panic)
           | Some ((t, _), _, Ready (Inl (r, _))) \<Rightarrow> (t, Ready r)
           | Some ((t, _), _, Ready (Inr _)) \<Rightarrow> (t, Ready (Err ETIMEDOUT))
           | Some ((t, _), _, Pending) \<Rightarrow> (t, Pending)))"

section \<open>Queues\<close>

text \<open>The queue of an address, empty when the table has none, and the well-formed tables.\<close>

definition queue :: "futex_table \<Rightarrow> usize \<Rightarrow> usize list" where
  "queue t a = (case map_of t a of None \<Rightarrow> [] | Some q \<Rightarrow> q)"

lemma queue_bt_insert [simp]:
  "bt_sorted t \<Longrightarrow> queue (bt_insert k q t) a = (if a = k then q else queue t a)"
  by (simp add: queue_def)

lemma queue_Cons: "queue ((k, q) # t) a = (if a = k then q else queue t a)"
  by (simp add: queue_def)

lemma in_futex_iff:
  assumes "bt_sorted t"
  shows "in_futex t tid \<longleftrightarrow> (\<exists>a. tid \<in> set (queue t a))"
proof -
  have "in_futex t tid \<longleftrightarrow> (\<exists>a q. (a, q) \<in> set t \<and> tid \<in> set q)"
    unfolding in_futex_def find_None_iff by force
  also have "\<dots> \<longleftrightarrow> (\<exists>a q. map_of t a = Some q \<and> tid \<in> set q)"
    by (simp only: bt_sorted_mem [OF assms])
  also have "\<dots> \<longleftrightarrow> (\<exists>a. tid \<in> set (queue t a))"
    unfolding queue_def by (metis empty_iff list.set(1) option.case_eq_if option.collapse option.sel option.simps(5))
  finally show ?thesis .
qed

lemma fst_ft_retain [simp]: "map fst (ft_retain tid t) = map fst t"
  by (induction tid t rule: ft_retain.induct) auto

lemma ft_retain_sorted [simp]: "bt_sorted (ft_retain tid t) \<longleftrightarrow> bt_sorted t"
  by (simp add: bt_sorted_def)

lemma filter_absent: "x \<notin> set q \<Longrightarrow> filter (\<lambda>y. y \<noteq> x) q = q"
  by (induction q) auto

lemma queue_ft_retain:
  "bt_sorted t \<Longrightarrow> (\<And>a b. tid \<in> set (queue t a) \<Longrightarrow> tid \<in> set (queue t b) \<Longrightarrow> a = b)
     \<Longrightarrow> queue (ft_retain tid t) a = filter (\<lambda>x. x \<noteq> tid) (queue t a)"
proof (induction tid t rule: ft_retain.induct)
  case (1 tid)
  show ?case by (simp add: queue_def)
next
  case (2 tid k q t)
  have t: "bt_sorted t" "map_of t k = None" using bt_sorted_ConsD [OF "2.prems"(1)] by auto
  show ?case
  proof (cases "tid \<in> set q")
    case True
    then have "tid \<in> set (queue ((k, q) # t) k)" by (simp add: queue_Cons)
    then have "tid \<notin> set (queue ((k, q) # t) a)" if "a \<noteq> k"
      using "2.prems"(2) that by blast
    then have "tid \<notin> set (queue t a)" if "a \<noteq> k" using that by (simp add: queue_Cons)
    then have "filter (\<lambda>x. x \<noteq> tid) (queue t a) = queue t a" if "a \<noteq> k"
      using that by (simp add: filter_absent)
    then show ?thesis using True by (simp add: queue_Cons)
  next
    case False
    have uniq: "a = b" if "tid \<in> set (queue t a)" "tid \<in> set (queue t b)" for a b
    proof -
      have "a \<noteq> k" "b \<noteq> k" using that t(2) by (auto simp: queue_def)
      then have "tid \<in> set (queue ((k, q) # t) a)" "tid \<in> set (queue ((k, q) # t) b)"
        using that by (simp_all add: queue_Cons)
      then show ?thesis by (rule "2.prems"(2))
    qed
    have "filter (\<lambda>x. x \<noteq> tid) q = q" using False by (rule filter_absent)
    then show ?thesis using "2.IH" [OF False t(1) uniq] False by (simp add: queue_Cons)
  qed
qed

lemma futex_wake_eq:
  "futex_wake t u n =
     (case map_of t u of
        None \<Rightarrow> (t, 0)
      | Some q \<Rightarrow> if q = [] then (t, 0) else (bt_insert u (drop n q) t, min n (length q)))"
  by (cases "map_of t u") (auto simp: futex_wake_def Let_def min_def)

lemma futex_wake_sorted: "bt_sorted t \<Longrightarrow> bt_sorted (fst (futex_wake t u n))"
  by (simp add: futex_wake_eq split: option.split)

lemma futex_wake_queue:
  "bt_sorted t \<Longrightarrow> queue (fst (futex_wake t u n)) a = (if a = u then drop n (queue t u) else queue t a)"
  by (cases "map_of t u") (simp_all add: futex_wake_eq queue_def)

lemma futex_wake_count: "snd (futex_wake t u n) = min n (length (queue t u))"
  by (cases "map_of t u") (simp_all add: futex_wake_eq queue_def)

lemma drain_to_Some: "n \<le> length q \<Longrightarrow> drain_to q n = Some (take n q, drop n q)"
  by (simp add: drain_to_def)

lemma futex_requeue_absent:
  "map_of t u = None \<Longrightarrow> futex_requeue t u n u2 m = Some (t, 0)"
  by (simp add: futex_requeue_def)

lemma futex_requeue_long:
  assumes "bt_sorted t" "map_of t u = Some q" "length q < n + m"
  shows "futex_requeue t u n u2 m = None"
  using assms by (cases "n \<le> length q") (auto simp: futex_requeue_def drain_to_def)

lemma futex_requeue_moves:
  assumes "bt_sorted t" "map_of t u = Some q" "n + m \<le> length q"
  shows "\<exists>t'. futex_requeue t u n u2 m = Some (t', n) \<and> bt_sorted t' \<and>
    (\<forall>a. queue t' a =
       (if a = u then drop (n + m) q else queue t a) @ (if a = u2 then take m (drop n q) else []))"
proof -
  have d: "drain_to q n = Some (take n q, drop n q)"
      "drain_to (drop n q) m = Some (take m (drop n q), drop (n + m) q)"
    using assms(3) by (simp_all add: drain_to_def add.commute)
  let ?t = "bt_insert u (drop (n + m) q) (bt_insert u (drop n q) t)"
  let ?t2 = "if map_of ?t u2 = None then bt_insert u2 [] ?t else ?t"
  have s: "bt_sorted ?t" "bt_sorted ?t2" using assms(1) by simp_all
  have q: "queue ?t2 a = (if a = u then drop (n + m) q else queue t a)" for a
    using assms(1) by (cases "map_of ?t u2") (auto simp: queue_def split: if_splits)
  have "futex_requeue t u n u2 m = Some (bt_insert u2 (queue ?t u2 @ take m (drop n q)) ?t2, n)"
    using assms d by (cases "u2 = u"; cases "map_of t u2")
      (auto simp: futex_requeue_def Let_def queue_def)
  moreover have "queue ?t u2 = (if u2 = u then drop (n + m) q else queue t u2)"
    using assms(1) by simp
  ultimately show ?thesis using s(2) q by auto
qed

text \<open>\<open>futex_requeue\<close> on every input.  With no queue at \<open>uaddr\<close> nothing happens; with a queue
  shorter than the two counts together it panics; otherwise the first \<open>n\<close> threads leave, the next
  \<open>m\<close> move to the end of the queue of \<open>uaddr2\<close> in their order, and \<open>n\<close> is returned.\<close>

theorem requeue_outcome:
  assumes "bt_sorted t"
  shows "case map_of t u of
      None \<Rightarrow> futex_requeue t u n u2 m = Some (t, 0)
    | Some q \<Rightarrow>
        if length q < n + m then futex_requeue t u n u2 m = None
        else \<exists>t'. futex_requeue t u n u2 m = Some (t', n) \<and> bt_sorted t' \<and>
               (\<forall>a. queue t' a = (if a = u then drop (n + m) q else queue t a) @
                                 (if a = u2 then take m (drop n q) else []))"
proof (cases "map_of t u")
  case None
  then show ?thesis by (simp add: futex_requeue_absent)
next
  case (Some q)
  then show ?thesis
    using futex_requeue_long [OF assms Some, of n m u2] futex_requeue_moves [OF assms Some, of n m u2]
    by (simp add: not_less)
qed

theorem requeue_outcome_witness:
  "futex_requeue [(8, [1, 2])] 8 1 16 2147483647 = None \<and>
   (\<exists>t'. futex_requeue [(8, [1, 2, 3])] 8 1 16 1 = Some (t', 1) \<and> queue t' 8 = [3] \<and> queue t' 16 = [2])"
proof -
  have 1: "bt_sorted [(8, [1, 2])]" "bt_sorted [(8, [1, 2, 3])]" by (simp_all add: bt_sorted_def)
  from requeue_outcome [OF 1(2), of 8 1 16 1]
  have "\<exists>t'. futex_requeue [(8, [1, 2, 3])] 8 1 16 1 = Some (t', 1) \<and> queue t' 8 = [3] \<and> queue t' 16 = [2]"
    by (auto simp: queue_def)
  then show ?thesis using requeue_outcome [OF 1(1), of 8 1 16 2147483647] by simp
qed

section \<open>Threads that wait and wake\<close>

text \<open>The table and, for each thread that is suspended in \<open>sys_futex\<close>, its deadline.  A step is
  the start of a call by a thread that runs, or a poll of one that waits.\<close>

record futex_sys =
  fx_table :: futex_table
  fx_waiting :: "usize \<rightharpoonup> usize option"

inductive futex_step :: "futex_sys \<Rightarrow> futex_sys \<Rightarrow> bool" where
  start_waits:
    "fx_waiting s tid = None \<Longrightarrow>
     sys_futex tid ns timeout (fx_table s) uaddr w op v v2 uaddr2 = (t, Waits d) \<Longrightarrow>
     futex_step s (s\<lparr>fx_table := t, fx_waiting := (fx_waiting s)(tid \<mapsto> d)\<rparr>)"
| start_yields:
    "fx_waiting s tid = None \<Longrightarrow>
     sys_futex tid ns timeout (fx_table s) uaddr w op v v2 uaddr2 = (t, Yields n) \<Longrightarrow>
     futex_step s (s\<lparr>fx_table := t\<rparr>)"
| start_returns:
    "fx_waiting s tid = None \<Longrightarrow>
     sys_futex tid ns timeout (fx_table s) uaddr w op v v2 uaddr2 = (t, Returns r) \<Longrightarrow>
     r \<noteq> Panic \<Longrightarrow> futex_step s (s\<lparr>fx_table := t\<rparr>)"
| poll_pending:
    "fx_waiting s tid = Some d \<Longrightarrow> futex_poll tid d ns signal (fx_table s) = (t, Pending) \<Longrightarrow>
     futex_step s (s\<lparr>fx_table := t\<rparr>)"
| poll_ready:
    "fx_waiting s tid = Some d \<Longrightarrow> futex_poll tid d ns signal (fx_table s) = (t, Ready r) \<Longrightarrow>
     futex_step s (s\<lparr>fx_table := t, fx_waiting := (fx_waiting s)(tid := None)\<rparr>)"

definition untimed :: "futex_sys \<Rightarrow> bool" where
  "untimed s \<longleftrightarrow> ran (fx_waiting s) \<subseteq> {None}"

text \<open>The states that a process reaches from an empty table when no wait has a deadline.\<close>

inductive futex_reach :: "futex_sys \<Rightarrow> bool" where
  init: "futex_reach \<lparr> fx_table = [], fx_waiting = Map.empty \<rparr>"
| step: "futex_reach s \<Longrightarrow> futex_step s s' \<Longrightarrow> untimed s' \<Longrightarrow> futex_reach s'"

definition queues_wf :: "futex_table \<Rightarrow> usize set \<Rightarrow> bool" where
  "queues_wf t W \<longleftrightarrow> bt_sorted t \<and>
     (\<forall>a. distinct (queue t a) \<and> set (queue t a) \<subseteq> W) \<and>
     (\<forall>a b. a \<noteq> b \<longrightarrow> set (queue t a) \<inter> set (queue t b) = {})"

lemma queues_wf_sorted: "queues_wf t W \<Longrightarrow> bt_sorted t"
  by (simp add: queues_wf_def)

lemma queues_wf_mono: "queues_wf t W \<Longrightarrow> W \<subseteq> V \<Longrightarrow> queues_wf t V"
  unfolding queues_wf_def by blast

text \<open>A table whose queues are parts of well-formed ones is well-formed.\<close>

lemma queues_wf_drop:
  assumes "queues_wf t W" "bt_sorted t'"
    and "\<And>a. distinct (queue t' a)" "\<And>a. set (queue t' a) \<subseteq> set (queue t a) \<inter> V"
  shows "queues_wf t' V"
  unfolding queues_wf_def
proof (intro conjI allI impI)
  fix a b :: usize assume "a \<noteq> b"
  then have "set (queue t a) \<inter> set (queue t b) = {}" using assms(1) unfolding queues_wf_def by blast
  then show "set (queue t' a) \<inter> set (queue t' b) = {}" using assms(4) [of a] assms(4) [of b] by blast
qed (use assms(2-4) in blast)+

lemma queues_wf_wake:
  assumes "queues_wf t W" shows "queues_wf (fst (futex_wake t u n)) W"
proof (rule queues_wf_drop [OF assms])
  fix a
  have s: "bt_sorted t" using assms by (rule queues_wf_sorted)
  then show "bt_sorted (fst (futex_wake t u n))" by (rule futex_wake_sorted)
  have "distinct (queue t a)" "set (queue t a) \<subseteq> W" "set (queue t u) \<subseteq> W" "distinct (queue t u)"
    using assms by (auto simp: queues_wf_def)
  moreover have "set (drop n (queue t u)) \<subseteq> set (queue t u)" by (rule set_drop_subset)
  ultimately show "distinct (queue (fst (futex_wake t u n)) a)"
    "set (queue (fst (futex_wake t u n)) a) \<subseteq> set (queue t a) \<inter> W"
    by (auto simp: futex_wake_queue [OF s])
qed

lemma queues_wf_wait:
  assumes "queues_wf t W" "tid \<notin> W"
  shows "queues_wf (bt_insert u (queue t u @ [tid]) t) (insert tid W)"
proof -
  have s: "bt_sorted t" using assms(1) by (rule queues_wf_sorted)
  have "tid \<notin> set (queue t a)" for a using assms by (auto simp: queues_wf_def)
  then show ?thesis using assms(1) unfolding queues_wf_def by (auto simp: s)
qed

lemma queues_wf_requeue:
  assumes wf: "queues_wf t W" and r: "futex_requeue t u n u2 m = Some (t', c)"
  shows "queues_wf t' W"
proof (cases "map_of t u")
  case None
  then show ?thesis using assms by (simp add: futex_requeue_absent)
next
  case (Some q)
  note s = queues_wf_sorted [OF wf]
  have le: "n + m \<le> length q"
    using futex_requeue_long [OF s Some, of n m u2] r by (auto simp: not_less [symmetric])
  have q: "queue t u = q" using Some by (simp add: queue_def)
  have t': "bt_sorted t'" "queue t' a =
      (if a = u then drop (n + m) q else queue t a) @ (if a = u2 then take m (drop n q) else [])" for a
    using futex_requeue_moves [OF s Some le, of u2] r by auto
  have q3: "take n q @ take m (drop n q) @ drop (n + m) q = q"
    by (metis append_take_drop_id drop_drop add.commute)
  have dq: "distinct (take n q @ take m (drop n q) @ drop (n + m) q)"
    using wf q unfolding q3 queues_wf_def by metis
  let ?M = "set (take m (drop n q))" and ?D = "set (drop (n + m) q)"
  have sub: "?M \<subseteq> set q" "?D \<subseteq> set q" "?M \<inter> ?D = {}" "distinct (take m (drop n q))"
      "distinct (drop (n + m) q)"
    using dq by (auto dest: in_set_takeD in_set_dropD)
  have all: "distinct (queue t a)" "set (queue t a) \<subseteq> W" for a
    using wf unfolding queues_wf_def by blast+
  have sep: "set (queue t a) \<inter> set q = {}" if "a \<noteq> u" for a
    using wf that unfolding queues_wf_def q [symmetric] by blast
  have "distinct (queue t' a)" for a
    using sub all(1) [of a] sep [of a] unfolding t'(2) by (cases "a = u") auto
  moreover have "set (queue t' a) \<subseteq> W" for a
    using sub(1,2) all(2) [of a] all(2) [of u] q unfolding t'(2) by (cases "a = u") auto
  moreover have "set (queue t' a) \<inter> set (queue t' b) = {}" if "a \<noteq> b" for a b
  proof -
    have "set (queue t a) \<inter> set (queue t b) = {}" using wf that unfolding queues_wf_def by blast
    then show ?thesis
      using that sub(1,2,3) sep [of a] sep [of b] unfolding t'(2) by (cases "a = u"; cases "b = u") auto
  qed
  ultimately show ?thesis using t'(1) unfolding queues_wf_def by blast
qed

lemma queues_wf_retain:
  assumes "queues_wf t W" shows "queues_wf (ft_retain tid t) (W - {tid})"
proof (rule queues_wf_drop [OF assms])
  have s: "bt_sorted t" using assms by (rule queues_wf_sorted)
  then show "bt_sorted (ft_retain tid t)" by simp
  fix a
  have "a = b" if "tid \<in> set (queue t a)" "tid \<in> set (queue t b)" for a b
    using assms that unfolding queues_wf_def by blast
  then have q: "queue (ft_retain tid t) a = filter (\<lambda>x. x \<noteq> tid) (queue t a)"
    by (rule queue_ft_retain [OF s])
  have "distinct (queue t a)" "set (queue t a) \<subseteq> W" using assms by (auto simp: queues_wf_def)
  then show "distinct (queue (ft_retain tid t) a)"
    "set (queue (ft_retain tid t) a) \<subseteq> set (queue t a) \<inter> (W - {tid})"
    by (auto simp: q)
qed

lemma queues_wf_absent:
  assumes "queues_wf t W" "\<not> in_futex t tid" shows "queues_wf t (W - {tid})"
proof -
  have "tid \<notin> set (queue t a)" for a using assms in_futex_iff queues_wf_sorted by blast
  then show ?thesis using assms(1) unfolding queues_wf_def by blast
qed

lemma queues_wf_poll:
  assumes wf: "queues_wf t W" and p: "wait_futex_poll tid signal t = (t', r)"
  shows "queues_wf t' (if r = Pending then W else W - {tid})"
proof -
  consider (pend) "in_futex t tid" "\<not> has_signal signal" | (int) "in_futex t tid" "has_signal signal"
    | (out) "\<not> in_futex t tid" by blast
  then show ?thesis
  proof cases
    case pend then show ?thesis using wf p by (auto simp: wait_futex_poll_def)
  next
    case int then show ?thesis using queues_wf_retain [OF wf] p by (auto simp: wait_futex_poll_def)
  next
    case out then show ?thesis using queues_wf_absent [OF wf out] p by (auto simp: wait_futex_poll_def)
  qed
qed

lemma wait_insert:
  "(case map_of t u of Some q \<Rightarrow> bt_insert u (q @ [tid]) t | None \<Rightarrow> bt_insert u [tid] t) =
     bt_insert u (queue t u @ [tid]) t"
  by (simp add: queue_def split: option.split)

lemma queues_wf_start:
  assumes wf: "queues_wf t W" and tid: "tid \<notin> W"
    and s: "sys_futex tid ns timeout t u w op v v2 u2 = (t', r)" and p: "r \<noteq> Returns Panic"
  shows "queues_wf t' (case r of Waits d \<Rightarrow> insert tid W | _ \<Rightarrow> W)"
proof -
  let ?op = "if op \<ge> 0x80 then op - 0x80 else op"
  note start = s [unfolded sys_futex_def Let_def wait_insert]
  consider (null) "u = 0" | (none) e where "u \<noteq> 0" "futex_flags_of ?op = Err e"
    | (wait) "u \<noteq> 0" "futex_flags_of ?op = Ok FutexWait"
    | (wake) "u \<noteq> 0" "futex_flags_of ?op = Ok FutexWake"
    | (req) "u \<noteq> 0" "futex_flags_of ?op = Ok FutexRequeue"
    by (force simp: futex_flags_of_def split: if_splits)
  then show ?thesis
  proof cases
    case null then show ?thesis using start wf by auto
  next
    case none then show ?thesis using start wf by auto
  next
    case wait
    then show ?thesis using start wf queues_wf_wait [OF wf tid, of u]
      by (cases "w = of_nat v") auto
  next
    case wake
    then show ?thesis using start queues_wf_wake [OF wf, of u v]
      by (cases "futex_wake t u v") auto
  next
    case req
    then show ?thesis using start p queues_wf_requeue [OF wf, of u v u2 v2]
      by (cases "futex_requeue t u v u2 v2") (auto split: prod.splits)
  qed
qed

inductive_cases futex_stepE: "futex_step s s'"

lemma futex_reach_wf: "futex_reach s \<Longrightarrow> queues_wf (fx_table s) (dom (fx_waiting s)) \<and> untimed s"
proof (induction rule: futex_reach.induct)
  case init
  show ?case by (simp add: queues_wf_def bt_sorted_def queue_def untimed_def)
next
  case (step s s')
  then have wf: "queues_wf (fx_table s) (dom (fx_waiting s))" and un: "untimed s" by auto
  have d: "d = None" if "fx_waiting s tid = Some d" for tid d
    using un that unfolding untimed_def by (auto simp: ran_def)
  from step.hyps(2) have "queues_wf (fx_table s') (dom (fx_waiting s'))"
  proof cases
    case (start_waits tid ns timeout uaddr w op v v2 uaddr2 t d)
    then have "tid \<notin> dom (fx_waiting s)" by blast
    from queues_wf_start [OF wf this start_waits(3)] start_waits(1) show ?thesis by simp
  next
    case (start_yields tid ns timeout uaddr w op v v2 uaddr2 t n)
    then have "tid \<notin> dom (fx_waiting s)" by blast
    from queues_wf_start [OF wf this start_yields(3)] start_yields(1) show ?thesis by simp
  next
    case (start_returns tid ns timeout uaddr w op v v2 uaddr2 t r)
    then have "tid \<notin> dom (fx_waiting s)" by blast
    from queues_wf_start [OF wf this start_returns(3)] start_returns(1,4) show ?thesis by simp
  next
    case (poll_pending tid dl ns signal t)
    then show ?thesis using queues_wf_poll [OF wf, of tid signal t Pending] d [OF poll_pending(2)]
      by (simp add: futex_poll_def)
  next
    case (poll_ready tid dl ns signal t r)
    then show ?thesis using queues_wf_poll [OF wf, of tid signal t "Ready r"] d [OF poll_ready(2)]
      by (simp add: futex_poll_def)
  qed
  with step.hyps(3) show ?case by simp
qed


definition demo_wait :: futex_sys where
  "demo_wait = \<lparr> fx_table = [(8, [1, 2])], fx_waiting = [1 \<mapsto> None, 2 \<mapsto> None] \<rparr>"

lemma demo_wait_reached: "futex_reach demo_wait"
proof -
  let ?s0 = "\<lparr> fx_table = [], fx_waiting = Map.empty \<rparr>"
  let ?s1 = "\<lparr> fx_table = [(8, [1])], fx_waiting = [1 \<mapsto> None] \<rparr>"
  have "futex_step ?s0 ?s1"
    using start_waits [of ?s0 1 0 "\<lambda>_. ts_zero" 8 0 0 0 0 0 "[(8, [1])]" None]
    by (simp add: sys_futex_def futex_flags_of_def)
  then have 1: "futex_reach ?s1" using step [OF init] by (simp add: untimed_def)
  have "futex_step ?s1 demo_wait"
    using start_waits [of ?s1 2 0 "\<lambda>_. ts_zero" 8 0 0 0 0 0 "[(8, [1, 2])]" None]
    by (simp add: sys_futex_def futex_flags_of_def demo_wait_def)
  moreover have "untimed demo_wait" by (auto simp: untimed_def demo_wait_def ran_def)
  ultimately show ?thesis by (rule step [OF 1])
qed


text \<open>C35: a wait that times out stays in its queue and swallows a later wake.  When thread \<open>a\<close> waits
  with a deadline, \<open>b\<close> waits behind it, and \<open>a\<close> returns \<open>ETIMEDOUT\<close>, then a wake of one thread counts
  1 and yet \<open>b\<close> stays suspended.\<close>

theorem timeout_swallows_wake:
  assumes "bt_sorted t" "queue t u = []" "\<not> in_futex t a" "\<not> in_futex t b" "a \<noteq> b" "u \<noteq> 0" "p \<noteq> 0"
    and "wadd ns (to_nsec (timeout p)) < now"
  shows "let t1 = fst (sys_futex a ns timeout t u (of_nat v) 0 v p 0);
             t2 = fst (sys_futex b ns timeout t1 u (of_nat v) 0 v 0 0);
             (t3, r) = futex_poll a (Some (wadd ns (to_nsec (timeout p)))) now 0 t2;
             (t4, count) = futex_wake t3 u 1
         in r = Ready (Err ETIMEDOUT) \<and> count = 1 \<and> snd (futex_poll b None now 0 t4) = Pending"
proof -
  let ?t2 = "bt_insert u [a, b] (bt_insert u [a] t)" and ?d = "wadd ns (to_nsec (timeout p))"
  have start: "sys_futex a ns timeout t u (of_nat v) 0 v p 0 = (bt_insert u [a] t, Waits (Some ?d))"
      "sys_futex b ns timeout (bt_insert u [a] t) u (of_nat v) 0 v 0 0 = (?t2, Waits None)"
    using assms(1,2,6,7)
    by (simp_all add: sys_futex_def Let_def wait_insert futex_flags_of_def del: map_of_bt_insert)
  have s: "bt_sorted ?t2" using assms(1) by simp
  have "in_futex ?t2 a" unfolding in_futex_iff [OF s] using assms(1) by (intro exI [of _ u]) simp
  then have "futex_poll a (Some ?d) now 0 ?t2 = (?t2, Ready (Err ETIMEDOUT))"
    using assms(8)
    by (simp add: futex_poll_def select_poll_def futex_future_def deadline_future_def
        wait_futex_poll_def wait_until_poll_def has_signal_def)
  moreover have "snd (futex_wake ?t2 u 1) = 1" using assms(1) by (simp add: futex_wake_count)
  moreover have "in_futex (fst (futex_wake ?t2 u 1)) b"
    unfolding in_futex_iff [OF futex_wake_sorted [OF s]] futex_wake_queue [OF s]
    using assms(1) by (intro exI [of _ u]) simp
  then have "snd (futex_poll b None now 0 (fst (futex_wake ?t2 u 1))) = Pending"
    by (simp add: futex_poll_def wait_futex_poll_def has_signal_def)
  ultimately show ?thesis by (simp only: start Let_def fst_conv split_conv case_prod_beta snd_conv simp_thms)
qed

theorem timeout_swallows_wake_witness:
  "let t1 = fst (sys_futex 1 0 (\<lambda>_. ts_zero) [] 8 0 0 0 16 0);
       t2 = fst (sys_futex 2 0 (\<lambda>_. ts_zero) t1 8 0 0 0 0 0);
       (t3, r) = futex_poll 1 (Some 0) 5 0 t2;
       (t4, count) = futex_wake t3 8 1
   in r = Ready (Err ETIMEDOUT) \<and> count = 1 \<and> snd (futex_poll 2 None 5 0 t4) = Pending"
proof -
  have z: "wadd 0 (to_nsec ts_zero) = 0" by (simp add: to_nsec_def ts_zero_def wadd_def wmul_def)
  have "\<not> in_futex [] 1" "\<not> in_futex [] 2" "bt_sorted []" "queue [] 8 = []"
    by (simp_all add: in_futex_def bt_sorted_def queue_def)
  from timeout_swallows_wake [OF this(3,4,1,2), of 16 0 "\<lambda>_. ts_zero" 5 0]
  show ?thesis by (simp only: z of_nat_0) simp
qed

end
