(* ===== verification/TrapFrame.thy ===== *)
theory TrapFrame
  imports Prelude
begin

text \<open>
  The saved registers of a user task on riscv64: \<open>TrapFrame\<close> with \<open>TrapFrameArgs\<close> of
  \<open>polyhal-trap\<close>, and the machine context \<open>SignalUserContext\<close> of \<open>syscall/types/signal.rs\<close> a signal
  handler finds on its stack.  The status register and the two floating point words are left out: the
  kernel neither reads nor changes them, it only copies them with the rest.
\<close>

datatype trap_arg = SEPC | RA | SP | RET | ARG0 | ARG1 | ARG2 | TLS | SYSCALL

record trap_frame =
  tf_x :: "usize list"
  tf_sepc :: usize

definition trap_frame_new :: trap_frame where
  "trap_frame_new = \<lparr> tf_x = replicate 32 0, tf_sepc = 0 \<rparr>"

text \<open>The general register an index stands for; \<open>SEPC\<close> has a field of its own.\<close>

fun tf_reg :: "trap_arg \<Rightarrow> nat option" where
  "tf_reg SEPC = None"
| "tf_reg RA = Some 1"
| "tf_reg SP = Some 2"
| "tf_reg RET = Some 10"
| "tf_reg ARG0 = Some 10"
| "tf_reg ARG1 = Some 11"
| "tf_reg ARG2 = Some 12"
| "tf_reg TLS = Some 4"
| "tf_reg SYSCALL = Some 17"

definition tf_get :: "trap_frame \<Rightarrow> trap_arg \<Rightarrow> usize" where
  "tf_get cx a = (case tf_reg a of None \<Rightarrow> tf_sepc cx | Some i \<Rightarrow> tf_x cx ! i)"

definition tf_set :: "trap_arg \<Rightarrow> usize \<Rightarrow> trap_frame \<Rightarrow> trap_frame" where
  "tf_set a v cx =
     (case tf_reg a of None \<Rightarrow> cx\<lparr>tf_sepc := v\<rparr> | Some i \<Rightarrow> cx\<lparr>tf_x := (tf_x cx)[i := v]\<rparr>)"

definition tf_args :: "trap_frame \<Rightarrow> usize list" where
  "tf_args cx = take 6 (drop 10 (tf_x cx))"

definition syscall_ok :: "trap_frame \<Rightarrow> trap_frame" where
  "syscall_ok cx = cx\<lparr>tf_sepc := wadd (tf_sepc cx) 4\<rparr>"

section \<open>The context of a signal handler\<close>

record sig_user_context =
  uc_flags :: usize
  uc_link :: usize
  uc_stack :: "usize \<times> usize \<times> usize"
  uc_sig_mask :: u64
  uc_pad :: "u64 list"
  uc_pc :: usize
  uc_gregs :: "usize list"
  uc_fpstate :: "usize list"

definition store_ctx :: "trap_frame \<Rightarrow> sig_user_context \<Rightarrow> sig_user_context" where
  "store_ctx ctx u = u\<lparr>uc_gregs := tf_x ctx, uc_pc := tf_sepc ctx\<rparr>"

definition restore_ctx :: "sig_user_context \<Rightarrow> trap_frame \<Rightarrow> trap_frame" where
  "restore_ctx u ctx = ctx\<lparr>tf_x := uc_gregs u, tf_sepc := uc_pc u\<rparr>"

record sig_info =
  si_signo :: "32 word"
  si_errno :: "32 word"
  si_code :: "32 word"
  si_pad :: "u8 list"

definition sig_info_default :: sig_info where
  "sig_info_default = \<lparr> si_signo = 0, si_errno = 0, si_code = 0, si_pad = replicate 116 0 \<rparr>"

text \<open>The sizes in bytes of the two structures: three 32-bit words and the padding, and 121 words of 64 bits.\<close>

definition sizeof_sig_info :: usize where
  "sizeof_sig_info = 3 * 4 + 116"

definition sizeof_sig_user_context :: usize where
  "sizeof_sig_user_context = 8 * (1 + 1 + 3 + 1 + 16 + 1 + 32 + 66)"

section \<open>Reading after writing\<close>

definition tf_ok :: "trap_frame \<Rightarrow> bool" where
  "tf_ok cx \<longleftrightarrow> length (tf_x cx) = 32"

lemma tf_ok_new [simp]: "tf_ok trap_frame_new"
  by (simp add: tf_ok_def trap_frame_new_def)

lemma tf_ok_set [simp]: "tf_ok (tf_set a v cx) = tf_ok cx"
  by (simp add: tf_ok_def tf_set_def split: option.split)

lemma tf_get_set:
  "tf_ok cx \<Longrightarrow> tf_get (tf_set a v cx) b = (if tf_reg a = tf_reg b then v else tf_get cx b)"
  by (cases a; cases b) (simp_all add: tf_get_def tf_set_def tf_ok_def)

lemma restore_store: "restore_ctx (store_ctx cx u) cx' = cx' \<lparr>tf_x := tf_x cx, tf_sepc := tf_sepc cx\<rparr>"
  by (simp add: restore_ctx_def store_ctx_def)

end
