(* ===== verification/Process.thy ===== *)
theory Process
  imports Ipc Futex TrapFrame
begin

unbundle bit_operations_syntax

text \<open>
  Processes and threads: the control blocks and \<open>UserTask\<close> of \<open>tasks/task.rs\<close> with creation, forking,
  cloning and exiting, \<open>WaitPid\<close> of \<open>tasks/async_ops.rs\<close>, and the system calls of \<open>syscall/task.rs\<close>
  that create, end, wait for and signal them.

  \<^item> Every \<open>Arc<UserTask>\<close> is an entry of a table of tasks by identifier, and every
    \<open>Arc<Mutex<ProcessControlBlock>>\<close> an index: threads of one process share the index.
  \<^item> A \<open>Weak\<close> reference is an identifier; \<open>alive\<close> says whether its \<open>upgrade\<close> succeeds.
  \<^item> The open files, the frames with the file systems, and the shared segments are the states of the
    components below; \<open>sc\<close> counts the references to a frame.
  \<^item> Stores of the kernel to 32-bit words of user memory are kept in a log, with the control block of
    the address space they go to.
\<close>

section \<open>Control blocks\<close>

record tcb = sig_state +
  tc_cx :: trap_frame
  tc_clear_child_tid :: usize
  tc_set_child_tid :: usize
  tc_exit_signal :: usize
  tc_thread_exit_code :: "32 word option"
  tc_robust_list_head :: usize
  tc_robust_list_len :: usize

record 'n pcb =
  pc_vm :: "'n vm"
  pc_fd_table :: "nat option list"
  pc_curr_dir :: nat
  pc_entry :: usize
  pc_children :: "usize list"
  pc_rlimits :: "usize list"
  pc_sigaction :: "sig_action list"
  pc_futex_table :: futex_table
  pc_shms :: "maped_shared_memory list"
  pc_timer :: "process_timer list"
  pc_threads :: "usize list"
  pc_exit_code :: "usize option"
  pc_exit_signal :: "usize option"
  pc_core_dumped :: bool
  pc_umask :: usize

record user_task =
  ut_process_id :: usize
  ut_pcb :: nat
  ut_parent :: "usize option"
  ut_tcb :: tcb

record ('s, 'n) proc_sys =
  ps_world :: "phys \<times> 's"
  ps_files :: "'n open_file list"
  ps_shm :: shm_state
  ps_tasks :: "usize \<rightharpoonup> user_task"
  ps_pcbs :: "'n pcb list"
  ps_task_id :: usize
  ps_task_map :: "usize set"
  ps_queue :: "usize list"
  ps_stores :: "(nat \<times> usize \<times> 32 word) list"

abbreviation SIGCHLD :: u64 where "SIGCHLD \<equiv> flag_bit 16"

text \<open>Access to the blocks of a task.\<close>

definition task_of :: "('s, 'n) proc_sys \<Rightarrow> usize \<Rightarrow> user_task" where
  "task_of s t = the (ps_tasks s t)"

definition pcb_of :: "('s, 'n) proc_sys \<Rightarrow> usize \<Rightarrow> 'n pcb" where
  "pcb_of s t = ps_pcbs s ! ut_pcb (task_of s t)"

definition set_pcb :: "('s, 'n) proc_sys \<Rightarrow> usize \<Rightarrow> 'n pcb \<Rightarrow> ('s, 'n) proc_sys" where
  "set_pcb s t p = s\<lparr>ps_pcbs := (ps_pcbs s)[ut_pcb (task_of s t) := p]\<rparr>"

definition set_tcb :: "('s, 'n) proc_sys \<Rightarrow> usize \<Rightarrow> tcb \<Rightarrow> ('s, 'n) proc_sys" where
  "set_tcb s t c = s\<lparr>ps_tasks := (ps_tasks s)(t \<mapsto> (task_of s t)\<lparr>ut_tcb := c\<rparr>)\<rparr>"

definition tcb_of :: "('s, 'n) proc_sys \<Rightarrow> usize \<Rightarrow> tcb" where
  "tcb_of s t = ut_tcb (task_of s t)"

definition store32 :: "('s, 'n) proc_sys \<Rightarrow> usize \<Rightarrow> usize \<Rightarrow> 32 word \<Rightarrow> ('s, 'n) proc_sys" where
  "store32 s t addr v = s\<lparr>ps_stores := ps_stores s @ [(ut_pcb (task_of s t), addr, v)]\<rparr>"

definition upgrade :: "(usize \<Rightarrow> bool) \<Rightarrow> usize option \<Rightarrow> usize option" where
  "upgrade alive w = (case w of Some t \<Rightarrow> if alive t then Some t else None | None \<Rightarrow> None)"

section \<open>Creating tasks\<close>

definition tcb_new :: tcb where
  "tcb_new = \<lparr> ss_sigmask = 0, ss_signal = 0, ss_queue = replicate REAL_TIME_SIGNAL_NUM 0,
     tc_cx = trap_frame_new, tc_clear_child_tid = 0, tc_set_child_tid = 0, tc_exit_signal = 0,
     tc_thread_exit_code = None, tc_robust_list_head = 0, tc_robust_list_len = 0 \<rparr>"

definition pcb_new :: "nat \<Rightarrow> nat \<Rightarrow> 'n pcb" where
  "pcb_new dir tty =
     \<lparr> pc_vm = \<lparr> vm_pt = Map.empty, vm_areas = [], vm_shms = [], vm_heap = 0 \<rparr>,
       pc_fd_table = file_table_new tty, pc_curr_dir = dir, pc_entry = 0, pc_children = [],
       pc_rlimits = rlimits_new, pc_sigaction = replicate 65 sig_action_new, pc_futex_table = [],
       pc_shms = [], pc_timer = replicate 3 process_timer_new, pc_threads = [], pc_exit_code = None,
       pc_exit_signal = None, pc_core_dumped = False, pc_umask = 0x12 \<rparr>"

text \<open>\<open>UserTask::new\<close>: both the working directory and the terminal are opened with \<open>expect\<close>.\<close>

definition user_task_new ::
  "(phys \<times> 's, 'n) inode_ops \<Rightarrow> 'n mounts \<Rightarrow> usize option \<Rightarrow> path_buf \<Rightarrow> ('s, 'n) proc_sys
   \<Rightarrow> (('s, 'n) proc_sys \<times> usize) run" where
  "user_task_new ops mt parent work_dir s =
     (let id = wadd (ps_task_id s) 1 in
      case open_path ops mt (ps_world s) work_dir O_DIRECTORY of
        (w, Ok dir) \<Rightarrow>
          (case open_path ops mt w (path_from ''/dev/ttyv0'') O_RDWR of
             (w, Ok tty) \<Rightarrow>
               (let n = length (ps_files s);
                    p = (pcb_new n (n + 1))\<lparr>pc_threads := [id]\<rparr>
                in Some (s\<lparr>ps_world := w, ps_files := ps_files s @ [dir, tty], ps_task_id := id,
                           ps_pcbs := ps_pcbs s @ [p],
                           ps_tasks := (ps_tasks s)(id \<mapsto>
                             \<lparr> ut_process_id = id, ut_pcb = length (ps_pcbs s), ut_parent = parent,
                               ut_tcb = tcb_new \<rparr>)\<rparr>, id))
           | _ \<Rightarrow> None)
      | _ \<Rightarrow> None)"

section \<open>Forking and cloning\<close>

abbreviation URX :: u64 where "URX \<equiv> 22"

text \<open>The pages of an area are mapped in the child and mapped again in the parent, without the
  right to write unless the area is shared.\<close>

fun fork_tracks :: "u64 \<Rightarrow> map_track list \<Rightarrow> 'n vm \<times> 'n vm \<Rightarrow> ('n vm \<times> 'n vm) run" where
  "fork_tracks flags [] vms = Some vms"
| "fork_tracks flags (t # ts) (child, parent) =
     do { child \<leftarrow> user_map child (mt_frame t) (mt_vaddr t) flags;
          parent \<leftarrow> user_map parent (mt_frame t) (mt_vaddr t) flags;
          fork_tracks flags ts (child, parent) }"

definition fork_flags :: "mem_type \<Rightarrow> u64" where
  "fork_flags ty = (if ty = Shared \<or> ty = ShareFile then URWX else URX)"

fun fork_areas :: "'n mem_area list \<Rightarrow> 'n vm \<times> 'n vm \<Rightarrow> ('n vm \<times> 'n vm) run" where
  "fork_areas [] vms = Some vms"
| "fork_areas (a # ms) vms =
     do { (child, parent) \<leftarrow> fork_tracks (fork_flags (ma_type a)) (ma_tracks a) vms;
          fork_areas ms (push_area child a, parent) }"

fun fork_shms :: "shared_memory list \<Rightarrow> maped_shared_memory list \<Rightarrow> 'n vm \<Rightarrow> 'n vm run" where
  "fork_shms objs [] vm = Some vm"
| "fork_shms objs (m # ms) vm =
     do { vm \<leftarrow> shm_map_pages vm (mp_start m) 0 (sm_trackers (objs ! mp_mem m)); fork_shms objs ms vm }"

definition cow_fork ::
  "(phys \<times> 's, 'n) inode_ops \<Rightarrow> 'n mounts \<Rightarrow> usize \<Rightarrow> ('s, 'n) proc_sys \<Rightarrow> (('s, 'n) proc_sys \<times> usize) run"
where
  "cow_fork ops mt self s =
     (let work_dir = of_path (ps_files s ! pc_curr_dir (pcb_of s self)) in
      do { (s, new) \<leftarrow> user_task_new ops mt (Some self) work_dir s;
           (let pcb = pcb_of s self;
                new_pcb = (pcb_of s new)\<lparr>pc_fd_table := pc_fd_table pcb, pc_curr_dir := pc_curr_dir pcb,
                  pc_shms := pc_shms pcb\<rparr>;
                child = (pc_vm new_pcb)\<lparr>vm_heap := vm_heap (pc_vm pcb), vm_shms := vm_shms (pc_vm pcb)\<rparr>;
                sh = (ps_shm s)\<lparr>sh_maps := sh_maps (ps_shm s) @ pc_shms pcb\<rparr>;
                cx = tf_set RET 0 (tc_cx (tcb_of s self))
            in do { (child, parent) \<leftarrow> fork_areas (vm_areas (pc_vm pcb)) (child, pc_vm pcb);
                    child \<leftarrow> fork_shms (sh_objs sh) (pc_shms pcb) child;
                    (let s = set_pcb s self (pcb\<lparr>pc_vm := parent, pc_children := pc_children pcb @ [new]\<rparr>);
                         s = set_pcb s new (new_pcb\<lparr>pc_vm := child\<rparr>);
                         s = set_tcb s new ((tcb_of s new)\<lparr>tc_cx := cx\<rparr>)
                     in Some (s\<lparr>ps_shm := sh\<rparr>, new)) }) })"

definition thread_clone ::
  "(usize \<Rightarrow> bool) \<Rightarrow> usize \<Rightarrow> ('s, 'n) proc_sys \<Rightarrow> ('s, 'n) proc_sys \<times> usize" where
  "thread_clone alive self s =
     (let id = wadd (ps_task_id s) 1;
          parent_tcb = tcb_of s self;
          tcb = tcb_new\<lparr>tc_cx := tf_set RET 0 (tc_cx parent_tcb), ss_sigmask := ss_sigmask parent_tcb\<rparr>;
          new = (task_of s self)\<lparr>ut_tcb := tcb\<rparr>;
          pcb = pcb_of s self;
          s = set_pcb s self (pcb\<lparr>pc_threads := filter alive (pc_threads pcb) @ [id]\<rparr>)
      in (s\<lparr>ps_task_id := id, ps_tasks := (ps_tasks s)(id \<mapsto> new)\<rparr>, id))"

abbreviation CLONE_THREAD :: u64 where "CLONE_THREAD \<equiv> 0x10000"
abbreviation CLONE_SETTLS :: u64 where "CLONE_SETTLS \<equiv> 0x80000"
abbreviation CLONE_PARENT_SETTID :: u64 where "CLONE_PARENT_SETTID \<equiv> 0x100000"
abbreviation CLONE_CHILD_CLEARTID :: u64 where "CLONE_CHILD_CLEARTID \<equiv> 0x200000"
abbreviation CLONE_CHILD_SETTID :: u64 where "CLONE_CHILD_SETTID \<equiv> 0x1000000"

definition has_flag :: "u64 \<Rightarrow> u64 \<Rightarrow> bool" where
  "has_flag flags f \<longleftrightarrow> flags AND f = f"

text \<open>What \<open>sys_clone\<close> does to the control block of the new thread.\<close>

definition clone_tcb :: "u64 \<Rightarrow> usize \<Rightarrow> usize \<Rightarrow> usize \<Rightarrow> tcb \<Rightarrow> tcb" where
  "clone_tcb flags stack tls ctid tcb =
     (let tcb = tcb\<lparr>tc_clear_child_tid := (if has_flag flags CLONE_CHILD_CLEARTID then ctid else 0)\<rparr>;
          tcb = (if stack \<noteq> 0 then tcb\<lparr>tc_cx := tf_set SP stack (tc_cx tcb)\<rparr> else tcb);
          tcb = (if has_flag flags CLONE_SETTLS then tcb\<lparr>tc_cx := tf_set TLS tls (tc_cx tcb)\<rparr> else tcb)
      in tcb\<lparr>tc_exit_signal := unat (flags AND 0xff)\<rparr>)"

text \<open>The call yields once before it spawns the new task.\<close>

definition sys_clone ::
  "(phys \<times> 's, 'n) inode_ops \<Rightarrow> 'n mounts \<Rightarrow> (usize \<Rightarrow> bool) \<Rightarrow> usize \<Rightarrow> ('s, 'n) proc_sys
   \<Rightarrow> u64 \<Rightarrow> usize \<Rightarrow> usize \<Rightarrow> usize \<Rightarrow> usize \<Rightarrow> (('s, 'n) proc_sys \<times> usize res) run" where
  "sys_clone ops mt alive self s flags stack ptid tls ctid =
     do { (s, new) \<leftarrow> (if has_flag flags CLONE_THREAD then Some (thread_clone alive self s)
                      else cow_fork ops mt self s);
          (let s = set_tcb s new (clone_tcb flags stack tls ctid (tcb_of s new));
               s = (if has_flag flags CLONE_PARENT_SETTID then store32 s self ptid (of_nat new) else s);
               s = (if has_flag flags CLONE_CHILD_SETTID \<and> ctid \<noteq> 0 then store32 s self ctid (of_nat new) else s)
           in Some (s\<lparr>ps_task_map := insert new (ps_task_map s), ps_queue := ps_queue s @ [new]\<rparr>, Ok new)) }"

section \<open>Exiting\<close>

text \<open>The word at \<open>clear_child_tid\<close> is cleared and one waiter woken, when the page is mapped.\<close>

definition clear_child ::
  "usize \<Rightarrow> ('s, 'n) proc_sys \<Rightarrow> ('s, 'n) proc_sys" where
  "clear_child self s =
     (let uaddr = tc_clear_child_tid (tcb_of s self); pcb = pcb_of s self
      in if uaddr \<noteq> 0 \<and> vm_pt (pc_vm pcb) (page_floor uaddr) \<noteq> None
         then set_pcb (store32 s self uaddr 0) self
                (pcb\<lparr>pc_futex_table := fst (futex_wake (pc_futex_table pcb) uaddr 1)\<rparr>)
         else s)"

definition leave_threads ::
  "(usize \<Rightarrow> bool) \<Rightarrow> usize \<Rightarrow> ('s, 'n) proc_sys \<Rightarrow> ('s, 'n) proc_sys" where
  "leave_threads alive self s =
     (let pcb = pcb_of s self
      in set_pcb s self (pcb\<lparr>pc_threads := filter (\<lambda>t. alive t \<and> t \<noteq> self) (pc_threads pcb)\<rparr>))"

fun drop_areas ::
  "('w, 'n) write_back \<Rightarrow> (usize \<Rightarrow> nat) \<Rightarrow> 'w \<Rightarrow> 'n mem_area list \<Rightarrow> 'w run" where
  "drop_areas wb sc w [] = Some w"
| "drop_areas wb sc w (a # ms) = do { w \<leftarrow> ma_drop wb sc w a; drop_areas wb sc w ms }"

text \<open>\<open>memset.clear()\<close>: the areas are dropped, then the frames no one else refers to.\<close>

definition memset_clear ::
  "(phys \<times> 's, 'n) inode_ops \<Rightarrow> (usize \<Rightarrow> nat) \<Rightarrow> phys \<times> 's \<Rightarrow> 'n vm \<Rightarrow> ((phys \<times> 's) \<times> 'n vm) run" where
  "memset_clear ops sc w vm =
     do { (ph, fs) \<leftarrow> drop_areas (inode_wb ops) sc w (vm_areas vm);
          ph \<leftarrow> drop_frames sc ph (concat (map ma_tracks (vm_areas vm)));
          Some ((ph, fs), vm\<lparr>vm_areas := []\<rparr>) }"

definition notify_parent ::
  "(usize \<Rightarrow> bool) \<Rightarrow> usize \<Rightarrow> ('s, 'n) proc_sys \<Rightarrow> ('s, 'n) proc_sys" where
  "notify_parent alive self s =
     (case upgrade alive (ut_parent (task_of s self)) of
        None \<Rightarrow> s
      | Some parent \<Rightarrow>
          (let exit_signal = tc_exit_signal (tcb_of s self); tcb = tcb_of s parent;
               signal = (if exit_signal \<noteq> 0 then from_num exit_signal else SIGCHLD)
           in set_tcb s parent (tcb\<lparr>ss_signal := add_signal (ss_signal tcb) signal\<rparr>)))"

text \<open>The end of the process, when its main thread leaves last.\<close>

definition cleanup_process ::
  "(phys \<times> 's, 'n) inode_ops \<Rightarrow> (usize \<Rightarrow> nat) \<Rightarrow> (usize \<Rightarrow> bool) \<Rightarrow> usize \<Rightarrow> usize \<Rightarrow> ('s, 'n) proc_sys
   \<Rightarrow> ('s, 'n) proc_sys run" where
  "cleanup_process ops sc alive self exit_code s =
     (if self = ut_process_id (task_of s self) \<and> pc_threads (pcb_of s self) = []
      then do { (w, vm) \<leftarrow> memset_clear ops sc (ps_world s) (pc_vm (pcb_of s self));
                (let pcb = (pcb_of s self)\<lparr>pc_vm := vm, pc_fd_table := [], pc_children := [],
                             pc_exit_code := Some exit_code\<rparr>
                 in Some (notify_parent alive self (set_pcb (s\<lparr>ps_world := w\<rparr>) self pcb))) }
      else Some s)"

definition thread_exit ::
  "(phys \<times> 's, 'n) inode_ops \<Rightarrow> (usize \<Rightarrow> nat) \<Rightarrow> (usize \<Rightarrow> bool) \<Rightarrow> usize \<Rightarrow> usize \<Rightarrow> ('s, 'n) proc_sys
   \<Rightarrow> ('s, 'n) proc_sys run" where
  "thread_exit ops sc alive self exit_code s =
     (let s = clear_child self s;
          s = set_tcb s self ((tcb_of s self)\<lparr>tc_thread_exit_code := Some (of_nat exit_code)\<rparr>);
          s = leave_threads alive self s
      in cleanup_process ops sc alive self exit_code s)"

definition task_exit ::
  "(phys \<times> 's, 'n) inode_ops \<Rightarrow> (usize \<Rightarrow> nat) \<Rightarrow> (usize \<Rightarrow> bool) \<Rightarrow> usize \<Rightarrow> usize \<Rightarrow> ('s, 'n) proc_sys
   \<Rightarrow> ('s, 'n) proc_sys run" where
  "task_exit ops sc alive self exit_code s =
     (let s = clear_child self s;
          s = set_pcb s self ((pcb_of s self)\<lparr>pc_exit_code := Some exit_code\<rparr>);
          s = leave_threads alive self s
      in cleanup_process ops sc alive self exit_code s)"

definition core_signal :: "usize \<Rightarrow> bool" where
  "core_signal signal \<longleftrightarrow> signal \<in> {3, 4, 5, 6, 8, 10, 11}"

definition exit_with_signal ::
  "(phys \<times> 's, 'n) inode_ops \<Rightarrow> (usize \<Rightarrow> nat) \<Rightarrow> (usize \<Rightarrow> bool) \<Rightarrow> usize \<Rightarrow> usize \<Rightarrow> ('s, 'n) proc_sys
   \<Rightarrow> ('s, 'n) proc_sys run" where
  "exit_with_signal ops sc alive self signal s =
     (let s = set_pcb s self ((pcb_of s self)\<lparr>pc_exit_signal := Some signal, pc_exit_code := Some 0,
                pc_core_dumped := core_signal signal\<rparr>)
      in task_exit ops sc alive self 0 s)"

definition sys_exit ::
  "(phys \<times> 's, 'n) inode_ops \<Rightarrow> (usize \<Rightarrow> nat) \<Rightarrow> (usize \<Rightarrow> bool) \<Rightarrow> usize \<Rightarrow> int \<Rightarrow> ('s, 'n) proc_sys
   \<Rightarrow> (('s, 'n) proc_sys \<times> usize res) run" where
  "sys_exit ops sc alive self exit_code s =
     map_option (\<lambda>s. (s, Ok 0)) (thread_exit ops sc alive self (nat (exit_code mod 2 ^ 64)) s)"

definition sys_exit_group ::
  "(phys \<times> 's, 'n) inode_ops \<Rightarrow> (usize \<Rightarrow> nat) \<Rightarrow> (usize \<Rightarrow> bool) \<Rightarrow> usize \<Rightarrow> usize \<Rightarrow> ('s, 'n) proc_sys
   \<Rightarrow> (('s, 'n) proc_sys \<times> usize res) run" where
  "sys_exit_group ops sc alive self exit_code s =
     map_option (\<lambda>s. (s, Ok 0)) (task_exit ops sc alive self exit_code s)"

definition check_thread_exit :: "('s, 'n) proc_sys \<Rightarrow> usize \<Rightarrow> usize option" where
  "check_thread_exit s self =
     (case pc_exit_code (pcb_of s self) of
        Some c \<Rightarrow> Some c
      | None \<Rightarrow> map_option unat (tc_thread_exit_code (tcb_of s self)))"

section \<open>Waiting\<close>

definition exit_code_of :: "('s, 'n) proc_sys \<Rightarrow> usize \<Rightarrow> usize option" where
  "exit_code_of s t = pc_exit_code (pcb_of s t)"

definition pid_usize :: "int \<Rightarrow> usize" where
  "pid_usize pid = nat (pid mod 2 ^ 64)"

definition wait_pid_poll :: "('s, 'n) proc_sys \<Rightarrow> usize \<Rightarrow> int \<Rightarrow> usize res poll" where
  "wait_pid_poll s self pid =
     (case find (\<lambda>x. (pid = - 1 \<or> x = pid_usize pid) \<and> exit_code_of s x \<noteq> None) (pc_children (pcb_of s self)) of
        Some t \<Rightarrow> Ready (Ok t)
      | None \<Rightarrow> Pending)"

text \<open>The status word; \<open>code\<close> is the exit code read before.\<close>

definition wait_status :: "'n pcb \<Rightarrow> usize \<Rightarrow> 32 word" where
  "wait_status p code =
     (case pc_exit_signal p of
        Some signal \<Rightarrow> if pc_core_dumped p then of_nat signal OR 0x80 else of_nat signal
      | None \<Rightarrow> push_bit 8 (of_nat code))"

text \<open>The child leaves the list and is released, which asserts that it has exited.\<close>

definition reap ::
  "('s, 'n) proc_sys \<Rightarrow> usize \<Rightarrow> usize \<Rightarrow> usize \<Rightarrow> (('s, 'n) proc_sys \<times> usize res) run" where
  "reap s self child status =
     (let pcb = pcb_of s self;
          s = set_pcb s self (pcb\<lparr>pc_children := filter (\<lambda>x. x \<noteq> child) (pc_children pcb)\<rparr>)
      in if exit_code_of s child \<noteq> None \<or> tc_thread_exit_code (tcb_of s child) \<noteq> None
         then let s = s\<lparr>ps_task_map := ps_task_map s - {child}\<rparr>;
                  code = (case exit_code_of s child of Some c \<Rightarrow> c | None \<Rightarrow> 0);
                  s = (if status \<noteq> 0 then store32 s self status (wait_status (pcb_of s child) code) else s)
              in Some (s, Ok child)
         else None)"

text \<open>\<open>sys_wait4\<close>: the tests made once, and then one poll.\<close>

definition wait4_start :: "('s, 'n) proc_sys \<Rightarrow> usize \<Rightarrow> int \<Rightarrow> usize \<Rightarrow> unit res" where
  "wait4_start s self pid options =
     (if pc_children (pcb_of s self) = [] then Err ECHILD
      else if pid \<noteq> - 1 \<and> find (\<lambda>x. x = pid_usize pid) (pc_children (pcb_of s self)) = None then Err ECHILD
      else if options \<in> {0, 2, 3, 10, 1} then Ok () else Err EPERM)"

definition wait4_poll ::
  "('s, 'n) proc_sys \<Rightarrow> usize \<Rightarrow> int \<Rightarrow> usize \<Rightarrow> usize \<Rightarrow> (('s, 'n) proc_sys \<times> usize res poll) run" where
  "wait4_poll s self pid status options =
     (if options = 1
      then let child = find (\<lambda>x. x = pid_usize pid \<or> pid = - 1) (pc_children (pcb_of s self))
           in case Option.bind child (exit_code_of s) of
                None \<Rightarrow> Some (s, Ready (Ok 0))
              | Some _ \<Rightarrow>
                  do { c \<leftarrow> child; (s, r) \<leftarrow> reap s self c status; Some (s, Ready r) }
      else (case wait_pid_poll s self pid of
              Pending \<Rightarrow> Some (s, Pending)
            | Ready (Ok c) \<Rightarrow> do { (s, r) \<leftarrow> reap s self c status; Some (s, Ready r) }
            | Ready r \<Rightarrow> Some (s, Ready r)))"

section \<open>Signals, identifiers, sessions\<close>

definition sys_tkill ::
  "(usize \<Rightarrow> bool) \<Rightarrow> usize \<Rightarrow> ('s, 'n) proc_sys \<Rightarrow> usize \<Rightarrow> usize \<Rightarrow> ('s, 'n) proc_sys \<times> usize res" where
  "sys_tkill alive self s tid signum =
     (let child = (if tid = self then Some self
                   else find (\<lambda>x. alive x \<and> x = tid) (pc_threads (pcb_of s self)))
      in case child of
           None \<Rightarrow> (s, Err ECHILD)
         | Some c \<Rightarrow>
             (case post_signal (tcb_of s c) signum of
                None \<Rightarrow> (s, Panic)
              | Some tcb \<Rightarrow> (set_tcb s c tcb, Ok 0)))"

definition sys_tgkill ::
  "(usize \<Rightarrow> bool) \<Rightarrow> usize \<Rightarrow> ('s, 'n) proc_sys \<Rightarrow> usize \<Rightarrow> usize \<Rightarrow> usize \<Rightarrow> ('s, 'n) proc_sys \<times> usize res" where
  "sys_tgkill alive self s tgid tid signum =
     (let target = (if tid = self \<and> tgid = ut_process_id (task_of s self) then Some self
                    else find (\<lambda>x. alive x \<and> x = tid \<and> ut_process_id (task_of s x) = tgid)
                           (pc_threads (pcb_of s self)))
      in case target of
           None \<Rightarrow> (s, Err ESRCH)
         | Some c \<Rightarrow>
             (case post_signal (tcb_of s c) signum of
                None \<Rightarrow> (s, Panic)
              | Some tcb \<Rightarrow> (set_tcb s c tcb, Ok 0)))"

text \<open>\<open>user\<close> says which tasks of the map are user tasks.\<close>

definition sys_kill ::
  "(usize \<Rightarrow> bool) \<Rightarrow> (usize \<Rightarrow> bool) \<Rightarrow> ('s, 'n) proc_sys \<Rightarrow> usize \<Rightarrow> usize \<Rightarrow> ('s, 'n) proc_sys \<times> usize res" where
  "sys_kill alive user s pid signum =
     (if pid \<in> ps_task_map s \<and> alive pid \<and> user pid
      then (set_tcb s pid (kill_signal (tcb_of s pid) signum), Ok 0)
      else (s, Err ESRCH))"

definition sys_setsid ::
  "(usize \<Rightarrow> bool) \<Rightarrow> usize \<Rightarrow> ('s, 'n) proc_sys \<Rightarrow> ('s, 'n) proc_sys \<times> usize res" where
  "sys_setsid alive self s =
     (case upgrade alive (ut_parent (task_of s self)) of
        None \<Rightarrow> (s, Ok self)
      | Some parent \<Rightarrow>
          (let pcb = pcb_of s parent;
               s = set_pcb s parent (pcb\<lparr>pc_children := filter (\<lambda>x. x \<noteq> self) (pc_children pcb)\<rparr>)
           in (s\<lparr>ps_tasks := (ps_tasks s)(self \<mapsto> (task_of s self)\<lparr>ut_parent := None\<rparr>)\<rparr>, Ok self)))"

definition sys_set_tid_address :: "usize \<Rightarrow> ('s, 'n) proc_sys \<Rightarrow> usize \<Rightarrow> ('s, 'n) proc_sys \<times> usize res" where
  "sys_set_tid_address self s tid_ptr =
     (set_tcb s self ((tcb_of s self)\<lparr>tc_clear_child_tid := tid_ptr\<rparr>), Ok self)"

definition sys_getpid :: "usize \<Rightarrow> ('s, 'n) proc_sys \<Rightarrow> usize res" where
  "sys_getpid self s = Ok (ut_process_id (task_of s self))"

definition sys_getppid :: "(usize \<Rightarrow> bool) \<Rightarrow> usize \<Rightarrow> ('s, 'n) proc_sys \<Rightarrow> usize res" where
  "sys_getppid alive self s =
     (case upgrade alive (ut_parent (task_of s self)) of
        Some p \<Rightarrow> Ok (ut_process_id (task_of s p)) | None \<Rightarrow> Err EPERM)"

section \<open>Reading after writing\<close>

lemma task_of_simps [simp]:
  "task_of (set_pcb s t p) = task_of s"
  "task_of (store32 s t a v) = task_of s"
  "task_of (set_tcb s t c) = (task_of s)(t := (task_of s t)\<lparr>ut_tcb := c\<rparr>)"
  by (auto simp: task_of_def set_pcb_def store32_def set_tcb_def fun_eq_iff)

lemma pcbs_simps [simp]:
  "ps_pcbs (set_pcb s t p) = (ps_pcbs s)[ut_pcb (task_of s t) := p]"
  "ps_pcbs (store32 s t a v) = ps_pcbs s"
  "ps_pcbs (set_tcb s t c) = ps_pcbs s"
  by (simp_all add: set_pcb_def store32_def set_tcb_def)

lemma tasks_simps [simp]:
  "ps_tasks (set_pcb s t p) = ps_tasks s"
  "ps_tasks (store32 s t a v) = ps_tasks s"
  "ps_tasks (set_tcb s t c) = (ps_tasks s)(t \<mapsto> (task_of s t)\<lparr>ut_tcb := c\<rparr>)"
  by (simp_all add: set_pcb_def store32_def set_tcb_def)

lemma other_simps [simp]:
  "ps_task_id (set_pcb s t p) = ps_task_id s" "ps_task_id (store32 s t a v) = ps_task_id s"
  "ps_task_id (set_tcb s t c) = ps_task_id s" "ps_world (set_pcb s t p) = ps_world s"
  "ps_world (store32 s t a v) = ps_world s" "ps_world (set_tcb s t c) = ps_world s"
  "ps_stores (set_pcb s t p) = ps_stores s" "ps_stores (set_tcb s t c) = ps_stores s"
  "ps_stores (store32 s t a v) = ps_stores s @ [(ut_pcb (task_of s t), a, v)]"
  "ps_task_map (set_pcb s t p) = ps_task_map s" "ps_task_map (store32 s t a v) = ps_task_map s"
  "ps_task_map (set_tcb s t c) = ps_task_map s"
  by (simp_all add: set_pcb_def store32_def set_tcb_def)

lemma pcb_of_simps [simp]:
  "pcb_of (store32 s t a v) = pcb_of s"
  "pcb_of (set_tcb s t c) = pcb_of s"
  by (auto simp: pcb_of_def fun_eq_iff)

lemma pcb_of_set_pcb:
  "ut_pcb (task_of s t) < length (ps_pcbs s) \<Longrightarrow>
     pcb_of (set_pcb s t p) u = (if ut_pcb (task_of s u) = ut_pcb (task_of s t) then p else pcb_of s u)"
  by (auto simp: pcb_of_def)

lemma tcb_of_simps [simp]:
  "tcb_of (set_pcb s t p) = tcb_of s"
  "tcb_of (store32 s t a v) = tcb_of s"
  "tcb_of (set_tcb s t c) = (tcb_of s)(t := c)"
  by (auto simp: tcb_of_def fun_eq_iff)

lemma field_updates [simp]:
  "task_of (s\<lparr>ps_world := w\<rparr>) = task_of s" "pcb_of (s\<lparr>ps_world := w\<rparr>) = pcb_of s"
  "tcb_of (s\<lparr>ps_world := w\<rparr>) = tcb_of s" "task_of (s\<lparr>ps_shm := sh\<rparr>) = task_of s"
  "pcb_of (s\<lparr>ps_shm := sh\<rparr>) = pcb_of s" "tcb_of (s\<lparr>ps_shm := sh\<rparr>) = tcb_of s"
  "task_of (s\<lparr>ps_task_map := m\<rparr>) = task_of s" "pcb_of (s\<lparr>ps_task_map := m\<rparr>) = pcb_of s"
  "tcb_of (s\<lparr>ps_task_map := m\<rparr>) = tcb_of s" "task_of (s\<lparr>ps_queue := q\<rparr>) = task_of s"
  "pcb_of (s\<lparr>ps_queue := q\<rparr>) = pcb_of s" "tcb_of (s\<lparr>ps_queue := q\<rparr>) = tcb_of s"
  by (auto simp: task_of_def pcb_of_def tcb_of_def fun_eq_iff)

section \<open>Well-formed systems\<close>

text \<open>Every task has a control block, and every child and thread a control block lists is a task.\<close>

definition proc_ok :: "('s, 'n) proc_sys \<Rightarrow> bool" where
  "proc_ok s \<longleftrightarrow> ps_task_id s < 2 ^ 64 \<and>
     (\<forall>t u. ps_tasks s t = Some u \<longrightarrow> t \<le> ps_task_id s \<and> ut_pcb u < length (ps_pcbs s)) \<and>
     (\<forall>p\<in>set (ps_pcbs s). set (pc_children p) \<union> set (pc_threads p) \<subseteq> dom (ps_tasks s))"

lemma proc_ok_task:
  assumes "proc_ok s" "t \<in> dom (ps_tasks s)"
  shows "ps_tasks s t = Some (task_of s t)" "t \<le> ps_task_id s" "ut_pcb (task_of s t) < length (ps_pcbs s)"
    "pcb_of s t \<in> set (ps_pcbs s)" "set (pc_children (pcb_of s t)) \<union> set (pc_threads (pcb_of s t)) \<subseteq> dom (ps_tasks s)"
proof -
  show t: "ps_tasks s t = Some (task_of s t)" using assms(2) by (auto simp: task_of_def)
  then show "t \<le> ps_task_id s" and l: "ut_pcb (task_of s t) < length (ps_pcbs s)"
    using assms(1) unfolding proc_ok_def by blast+
  then show m: "pcb_of s t \<in> set (ps_pcbs s)" by (simp add: pcb_of_def)
  then show "set (pc_children (pcb_of s t)) \<union> set (pc_threads (pcb_of s t)) \<subseteq> dom (ps_tasks s)"
    using assms(1) unfolding proc_ok_def by blast
qed

lemma proc_ok_set_pcb:
  assumes "proc_ok s" "set (pc_children p) \<union> set (pc_threads p) \<subseteq> dom (ps_tasks s)"
  shows "proc_ok (set_pcb s t p)"
  using assms set_update_subset_insert [of "ps_pcbs s" "ut_pcb (task_of s t)" p]
  unfolding proc_ok_def by (auto 4 3)

lemma proc_ok_set_tcb:
  assumes "proc_ok s" "t \<in> dom (ps_tasks s)" shows "proc_ok (set_tcb s t c)"
  using assms proc_ok_task [OF assms] unfolding proc_ok_def by (auto simp: dom_def)

lemma proc_ok_store32: "proc_ok s \<Longrightarrow> proc_ok (store32 s t a v)"
  by (simp add: proc_ok_def)

lemma proc_ok_fields:
  "proc_ok (s\<lparr>ps_world := w\<rparr>) = proc_ok s" "proc_ok (s\<lparr>ps_shm := sh\<rparr>) = proc_ok s"
  "proc_ok (s\<lparr>ps_task_map := m\<rparr>) = proc_ok s" "proc_ok (s\<lparr>ps_queue := q\<rparr>) = proc_ok s"
  by (simp_all add: proc_ok_def)

section \<open>What fork and clone leave\<close>

lemma user_task_new_Some:
  assumes "user_task_new ops mt par wd s = Some (s', c)" "ps_task_id s < 2 ^ 64 - 1"
  shows "c = ps_task_id s + 1 \<and> ps_task_id s' = c \<and> ps_shm s' = ps_shm s \<and> ps_stores s' = ps_stores s \<and>
    ps_tasks s' = (ps_tasks s)(c \<mapsto> \<lparr> ut_process_id = c, ut_pcb = length (ps_pcbs s), ut_parent = par, ut_tcb = tcb_new \<rparr>) \<and>
    ps_pcbs s' = ps_pcbs s @ [(pcb_new (length (ps_files s)) (length (ps_files s) + 1))\<lparr>pc_threads := [c]\<rparr>] \<and>
    ps_task_map s' = ps_task_map s \<and> ps_queue s' = ps_queue s"
  using assms
  by (auto simp: user_task_new_def Let_def wadd_def split: prod.splits res.splits)

text \<open>The control block of a forked child, up to its address space.\<close>

definition forked_pcb :: "nat \<Rightarrow> usize \<Rightarrow> 'n pcb \<Rightarrow> 'n pcb" where
  "forked_pcb n c p =
     (pcb_new n (n + 1))\<lparr>pc_threads := [c], pc_fd_table := pc_fd_table p, pc_curr_dir := pc_curr_dir p,
       pc_shms := pc_shms p\<rparr>"

definition forked_tcb :: "tcb \<Rightarrow> tcb" where
  "forked_tcb t = tcb_new\<lparr>tc_cx := tf_set RET 0 (tc_cx t)\<rparr>"

lemma cow_fork_Some:
  assumes f: "cow_fork ops mt self s = Some (s', c)" and ok: "proc_ok s" "self \<in> dom (ps_tasks s)"
    and room: "ps_task_id s < 2 ^ 64 - 1"
  shows "\<exists>child cv pv. fork_areas (vm_areas (pc_vm (pcb_of s self)))
        (\<lparr> vm_pt = Map.empty, vm_areas = [], vm_shms = vm_shms (pc_vm (pcb_of s self)),
           vm_heap = vm_heap (pc_vm (pcb_of s self)) \<rparr>, pc_vm (pcb_of s self)) = Some (child, pv) \<and>
      fork_shms (sh_objs (ps_shm s)) (pc_shms (pcb_of s self)) child = Some cv \<and>
      c = ps_task_id s + 1 \<and> ps_task_id s' = c \<and>
      ps_tasks s' = (ps_tasks s)(c \<mapsto> \<lparr> ut_process_id = c, ut_pcb = length (ps_pcbs s), ut_parent = Some self,
        ut_tcb = forked_tcb (tcb_of s self) \<rparr>) \<and>
      ps_pcbs s' = (ps_pcbs s)[ut_pcb (task_of s self) :=
          (pcb_of s self)\<lparr>pc_vm := pv, pc_children := pc_children (pcb_of s self) @ [c]\<rparr>] @
        [(forked_pcb (length (ps_files s)) c (pcb_of s self))\<lparr>pc_vm := cv\<rparr>]"
proof -
  let ?wd = "of_path (ps_files s ! pc_curr_dir (pcb_of s self))"
  obtain s1 where n: "user_task_new ops mt (Some self) ?wd s = Some (s1, c)"
    using f by (auto simp: cow_fork_def Let_def bind_eq_Some_conv)
  note s1 = user_task_new_Some [OF n room]
  have sh: "ps_shm s1 = ps_shm s" using s1 by blast
  have ne: "self \<noteq> c" using proc_ok_task(2) [OF ok] s1 by auto
  have t: "task_of s1 self = task_of s self" "task_of s1 c = \<lparr> ut_process_id = c, ut_pcb = length (ps_pcbs s),
      ut_parent = Some self, ut_tcb = tcb_new \<rparr>" using s1 ne by (simp_all add: task_of_def)
  note l = proc_ok_task(3) [OF ok]
  have p: "pcb_of s1 self = pcb_of s self" "pcb_of s1 c =
      (pcb_new (length (ps_files s)) (length (ps_files s) + 1))\<lparr>pc_threads := [c]\<rparr>"
    using s1 t l by (simp_all add: pcb_of_def nth_append)
  have tc: "tcb_of s1 self = tcb_of s self" "tcb_of s1 c = tcb_new" using t by (simp_all add: tcb_of_def)
  obtain child pv cv where v: "fork_areas (vm_areas (pc_vm (pcb_of s self)))
        (\<lparr> vm_pt = Map.empty, vm_areas = [], vm_shms = vm_shms (pc_vm (pcb_of s self)),
           vm_heap = vm_heap (pc_vm (pcb_of s self)) \<rparr>, pc_vm (pcb_of s self)) = Some (child, pv)"
      "fork_shms (sh_objs (ps_shm s)) (pc_shms (pcb_of s self)) child = Some cv"
    using f n by (auto simp: cow_fork_def Let_def bind_eq_Some_conv p pcb_new_def sh)
  then have "s' = (set_tcb (set_pcb (set_pcb s1 self
        ((pcb_of s self)\<lparr>pc_vm := pv, pc_children := pc_children (pcb_of s self) @ [c]\<rparr>)) c
        ((forked_pcb (length (ps_files s)) c (pcb_of s self))\<lparr>pc_vm := cv\<rparr>)) c (forked_tcb (tcb_of s self)))
      \<lparr>ps_shm := (ps_shm s)\<lparr>sh_maps := sh_maps (ps_shm s) @ pc_shms (pcb_of s self)\<rparr>\<rparr>"
    using f n by (auto simp: cow_fork_def Let_def p tc pcb_new_def forked_pcb_def forked_tcb_def sh)
  then have "ps_task_id s' = c" "ps_tasks s' = (ps_tasks s)(c \<mapsto> \<lparr> ut_process_id = c, ut_pcb = length (ps_pcbs s),
        ut_parent = Some self, ut_tcb = forked_tcb (tcb_of s self) \<rparr>)"
      "ps_pcbs s' = (ps_pcbs s)[ut_pcb (task_of s self) :=
          (pcb_of s self)\<lparr>pc_vm := pv, pc_children := pc_children (pcb_of s self) @ [c]\<rparr>] @
        [(forked_pcb (length (ps_files s)) c (pcb_of s self))\<lparr>pc_vm := cv\<rparr>]"
    using s1 t l by (simp_all add: list_update_append)
  then show ?thesis using v s1 by blast
qed

text \<open>The page table entries a fork writes to both page tables, in order.\<close>

definition fork_entries :: "'n mem_area list \<Rightarrow> (usize \<times> usize \<times> u64) list" where
  "fork_entries ms =
     concat (map (\<lambda>a. map (\<lambda>t. (mt_vaddr t, mt_frame t, fork_flags (ma_type a))) (ma_tracks a)) ms)"

lemma fork_entries_keys: "map fst (fork_entries ms) = map mt_vaddr (concat (map ma_tracks ms))"
  by (induction ms) (simp_all add: fork_entries_def)

lemma map_add_snoc: "m ++ map_of (xs @ [(k, v)]) = m(k \<mapsto> v) ++ map_of xs"
  by (auto simp: map_add_def fun_eq_iff split: option.split)

lemma fork_tracks_Some:
  "fork_tracks flags ts (c, p) = Some (c', p') \<Longrightarrow>
     c' = c\<lparr>vm_pt := vm_pt c ++ map_of (rev (map (\<lambda>t. (mt_vaddr t, mt_frame t, flags)) ts))\<rparr> \<and>
     p' = p\<lparr>vm_pt := vm_pt p ++ map_of (rev (map (\<lambda>t. (mt_vaddr t, mt_frame t, flags)) ts))\<rparr>"
proof (induction ts arbitrary: c p)
  case (Cons t ts)
  let ?u = "\<lambda>vm. vm\<lparr>vm_pt := (vm_pt vm)(mt_vaddr t \<mapsto> (mt_frame t, flags))\<rparr>"
  have "fork_tracks flags ts (?u c, ?u p) = Some (c', p')"
    using Cons.prems by (auto simp: user_map_def bind_eq_Some_conv split: if_splits)
  from Cons.IH [OF this] show ?case
    by (simp only: vm.simps rev.simps list.map map_add_snoc) (simp del: map_of_append fun_upd_apply)
qed simp

lemma fork_areas_Some:
  "fork_areas ms (c, p) = Some (c', p') \<Longrightarrow>
     c' = c\<lparr>vm_pt := vm_pt c ++ map_of (rev (fork_entries ms)), vm_areas := vm_areas c @ ms\<rparr> \<and>
     p' = p\<lparr>vm_pt := vm_pt p ++ map_of (rev (fork_entries ms))\<rparr>"
proof (induction ms arbitrary: c p)
  case (Cons a ms)
  then obtain c1 p1 where 1: "fork_tracks (fork_flags (ma_type a)) (ma_tracks a) (c, p) = Some (c1, p1)"
      "fork_areas ms (push_area c1 a, p1) = Some (c', p')"
    by (auto simp: bind_eq_Some_conv)
  show ?case
    using fork_tracks_Some [OF 1(1)] Cons.IH [OF 1(2)] by (simp add: push_area_def fork_entries_def)
qed (simp add: fork_entries_def)

lemma fork_entries_lookup:
  "distinct (map fst es) \<Longrightarrow> (v, e) \<in> set es \<Longrightarrow> map_of (rev es) v = Some e"
  by (rule map_of_is_SomeI) (simp_all add: rev_map [symmetric])

definition shm_pages :: "shared_memory list \<Rightarrow> maped_shared_memory list \<Rightarrow> usize set" where
  "shm_pages objs ms = {wadd (mp_start m) (wmul i PAGE_SIZE) | m i. m \<in> set ms}"

lemma shm_map_pages_other:
  "shm_map_pages vm v i ps = Some vm' \<Longrightarrow>
     vm_areas vm' = vm_areas vm \<and> vm_heap vm' = vm_heap vm \<and> vm_shms vm' = vm_shms vm \<and>
     (\<forall>x. (\<forall>j. x \<noteq> wadd v (wmul j PAGE_SIZE)) \<longrightarrow> vm_pt vm' x = vm_pt vm x)"
proof (induction ps arbitrary: vm i)
  case (Cons p ps)
  let ?vm = "vm\<lparr>vm_pt := (vm_pt vm)(wadd v (wmul i PAGE_SIZE) \<mapsto> (p, URWX))\<rparr>"
  have "shm_map_pages ?vm v (Suc i) ps = Some vm'"
    using Cons.prems by (auto simp: bind_eq_Some_conv user_map_def split: if_splits)
  from Cons.IH [OF this] show ?case by simp
qed simp

lemma fork_shms_other:
  "fork_shms objs ms vm = Some vm' \<Longrightarrow>
     vm_areas vm' = vm_areas vm \<and> vm_heap vm' = vm_heap vm \<and> vm_shms vm' = vm_shms vm \<and>
     (\<forall>x. x \<notin> shm_pages objs ms \<longrightarrow> vm_pt vm' x = vm_pt vm x)"
proof (induction ms arbitrary: vm)
  case (Cons m ms)
  then obtain vm1 where 1: "shm_map_pages vm (mp_start m) 0 (sm_trackers (objs ! mp_mem m)) = Some vm1"
      "fork_shms objs ms vm1 = Some vm'" by (auto simp: bind_eq_Some_conv)
  have "shm_pages objs ms \<subseteq> shm_pages objs (m # ms)"
      "x \<notin> shm_pages objs (m # ms) \<Longrightarrow> x \<noteq> wadd (mp_start m) (wmul j PAGE_SIZE)" for x j
    by (auto simp: shm_pages_def)
  then show ?case using shm_map_pages_other [OF 1(1)] Cons.IH [OF 1(2)] by (metis subsetD)
qed simp

text \<open>C15: What a fork copies.  The child has the areas, heap, descriptors, working directory and
  shared segments of the parent; every page of a private area is mapped to the same frame in both
  page tables and in neither with the right to write, every page of a shared area stays writable.
  The registers are those of the parent with a return value of 0.  Signal handlers, signal mask and
  limits of the child are the initial ones and not the parent's.\<close>

theorem fork_copies:
  assumes "cow_fork ops mt self s = Some (s', c)" "proc_ok s" "self \<in> dom (ps_tasks s)"
    and "ps_task_id s < 2 ^ 64 - 1" "distinct (map mt_vaddr (concat (map ma_tracks (vm_areas (pc_vm (pcb_of s self))))))"
  shows "let p = pcb_of s self; q = pcb_of s' c; p' = pcb_of s' self in
    vm_areas (pc_vm q) = vm_areas (pc_vm p) \<and> vm_areas (pc_vm p') = vm_areas (pc_vm p) \<and>
    (\<forall>a\<in>set (vm_areas (pc_vm p)). \<forall>t\<in>set (ma_tracks a).
       let e = Some (mt_frame t, if ma_type a = Shared \<or> ma_type a = ShareFile then URWX else URX)
       in vm_pt (pc_vm p') (mt_vaddr t) = e \<and>
          (mt_vaddr t \<notin> shm_pages (sh_objs (ps_shm s)) (pc_shms p) \<longrightarrow> vm_pt (pc_vm q) (mt_vaddr t) = e)) \<and>
    vm_heap (pc_vm q) = vm_heap (pc_vm p) \<and> pc_fd_table q = pc_fd_table p \<and>
    pc_curr_dir q = pc_curr_dir p \<and> pc_shms q = pc_shms p \<and>
    tc_cx (tcb_of s' c) = tf_set RET 0 (tc_cx (tcb_of s self)) \<and>
    pc_sigaction q = replicate 65 sig_action_new \<and> ss_sigmask (tcb_of s' c) = 0 \<and> pc_rlimits q = rlimits_new"
proof -
  let ?p = "pcb_of s self" and ?es = "fork_entries (vm_areas (pc_vm (pcb_of s self)))"
  obtain child cv pv where f: "fork_areas (vm_areas (pc_vm ?p))
        (\<lparr> vm_pt = Map.empty, vm_areas = [], vm_shms = vm_shms (pc_vm ?p), vm_heap = vm_heap (pc_vm ?p) \<rparr>,
         pc_vm ?p) = Some (child, pv)"
      "fork_shms (sh_objs (ps_shm s)) (pc_shms ?p) child = Some cv" "c = ps_task_id s + 1"
      "ps_tasks s' = (ps_tasks s)(c \<mapsto> \<lparr> ut_process_id = c, ut_pcb = length (ps_pcbs s), ut_parent = Some self,
        ut_tcb = forked_tcb (tcb_of s self) \<rparr>)"
      "ps_pcbs s' = (ps_pcbs s)[ut_pcb (task_of s self) :=
          ?p\<lparr>pc_vm := pv, pc_children := pc_children ?p @ [c]\<rparr>] @
        [(forked_pcb (length (ps_files s)) c ?p)\<lparr>pc_vm := cv\<rparr>]"
    using cow_fork_Some [OF assms(1-4)] by blast
  note l = proc_ok_task [OF assms(2,3)]
  have t: "task_of s' self = task_of s self" "ut_pcb (task_of s' c) = length (ps_pcbs s)"
      "tcb_of s' c = forked_tcb (tcb_of s self)"
    using f(3,4) l(2) by (simp_all add: task_of_def tcb_of_def)
  have p: "pcb_of s' self = ?p\<lparr>pc_vm := pv, pc_children := pc_children ?p @ [c]\<rparr>"
      "pcb_of s' c = (forked_pcb (length (ps_files s)) c ?p)\<lparr>pc_vm := cv\<rparr>"
    using l(3) by (simp_all add: pcb_of_def t f(5) nth_append del: append.simps)
  note a = fork_areas_Some [OF f(1)] and b = fork_shms_other [OF f(2)]
  have e: "vm_pt (pc_vm (pcb_of s' self)) v = Some e \<and>
      (v \<notin> shm_pages (sh_objs (ps_shm s)) (pc_shms ?p) \<longrightarrow> vm_pt (pc_vm (pcb_of s' c)) v = Some e)"
    if "(v, e) \<in> set ?es" for v e
  proof -
    note m = fork_entries_lookup [OF assms(5) [folded fork_entries_keys] that]
    have "vm_pt pv v = Some e" using a m by (simp add: map_add_Some_iff)
    moreover have "vm_pt child v = Some e" using a m by simp
    ultimately show ?thesis unfolding p using b by simp
  qed
  have "vm_areas cv = vm_areas (pc_vm ?p)" "vm_areas pv = vm_areas (pc_vm ?p)" "vm_heap cv = vm_heap (pc_vm ?p)"
    using a b by simp_all
  moreover have "(mt_vaddr t, mt_frame t, if ma_type a = Shared \<or> ma_type a = ShareFile then URWX else URX) \<in> set ?es"
    if "a \<in> set (vm_areas (pc_vm ?p))" "t \<in> set (ma_tracks a)" for a t
    using that by (auto simp: fork_entries_def fork_flags_def)
  ultimately show ?thesis
    unfolding Let_def t(3) using e by (simp add: p forked_pcb_def forked_tcb_def pcb_new_def tcb_new_def)
qed

section \<open>What exiting leaves\<close>

lemma clear_child_keeps:
  assumes "proc_ok s" "self \<in> dom (ps_tasks s)"
  shows "\<exists>f. pcb_of (clear_child self s) = (\<lambda>t. if ut_pcb (task_of s t) = ut_pcb (task_of s self)
        then (pcb_of s t)\<lparr>pc_futex_table := f\<rparr> else pcb_of s t) \<and>
    ps_tasks (clear_child self s) = ps_tasks s \<and> task_of (clear_child self s) = task_of s \<and>
    length (ps_pcbs (clear_child self s)) = length (ps_pcbs s) \<and> ps_world (clear_child self s) = ps_world s \<and>
    ps_task_map (clear_child self s) = ps_task_map s"
proof (cases "tc_clear_child_tid (tcb_of s self) \<noteq> 0 \<and>
    vm_pt (pc_vm (pcb_of s self)) (page_floor (tc_clear_child_tid (tcb_of s self))) \<noteq> None")
  case True
  let ?u = "tc_clear_child_tid (tcb_of s self)"
  let ?f = "fst (futex_wake (pc_futex_table (pcb_of s self)) ?u 1)"
  have c: "clear_child self s =
      set_pcb (store32 s self ?u 0) self ((pcb_of s self)\<lparr>pc_futex_table := ?f\<rparr>)"
    using True by (simp add: clear_child_def Let_def)
  have eq: "ut_pcb (task_of s t) = ut_pcb (task_of s self) \<Longrightarrow> pcb_of s t = pcb_of s self" for t
    by (simp add: pcb_of_def)
  have l: "ut_pcb (task_of (store32 s self ?u 0) self) < length (ps_pcbs (store32 s self ?u 0))"
    using proc_ok_task(3) [OF assms] by simp
  have "pcb_of (clear_child self s) t = (if ut_pcb (task_of s t) = ut_pcb (task_of s self)
      then (pcb_of s t)\<lparr>pc_futex_table := ?f\<rparr> else pcb_of s t)" for t
    using eq [of t] unfolding c pcb_of_set_pcb [OF l] by simp
  then show ?thesis unfolding c by (intro exI [of _ ?f]) (simp add: fun_eq_iff)
next
  case False
  then have "clear_child self s = s" by (auto simp: clear_child_def Let_def)
  moreover have "(pcb_of s t)\<lparr>pc_futex_table := pc_futex_table (pcb_of s self)\<rparr> = pcb_of s t"
    if "ut_pcb (task_of s t) = ut_pcb (task_of s self)" for t using that by (simp add: pcb_of_def)
  ultimately show ?thesis
    by (intro exI [of _ "pc_futex_table (pcb_of s self)"]) (simp add: fun_eq_iff)
qed

lemma leave_threads_pcb:
  assumes "ut_pcb (task_of s self) < length (ps_pcbs s)"
  shows "pcb_of (leave_threads alive self s) t =
    (if ut_pcb (task_of s t) = ut_pcb (task_of s self)
     then (pcb_of s t)\<lparr>pc_threads := filter (\<lambda>t. alive t \<and> t \<noteq> self) (pc_threads (pcb_of s t))\<rparr> else pcb_of s t)"
  unfolding leave_threads_def Let_def pcb_of_set_pcb [OF assms] by (simp add: pcb_of_def)

lemma leave_threads_simps [simp]:
  "task_of (leave_threads alive self s) = task_of s" "tcb_of (leave_threads alive self s) = tcb_of s"
  "ps_tasks (leave_threads alive self s) = ps_tasks s" "ps_world (leave_threads alive self s) = ps_world s"
  "length (ps_pcbs (leave_threads alive self s)) = length (ps_pcbs s)"
  "ps_task_map (leave_threads alive self s) = ps_task_map s"
  by (simp_all add: leave_threads_def Let_def)

text \<open>The last thread, which is the main one, leaves a process: only its own control block and the
  pending signals of its parent change.\<close>

lemma task_exit_last:
  assumes ok: "proc_ok s" "c \<in> dom (ps_tasks s)"
    and main: "ut_process_id (task_of s c) = c" "set (pc_threads (pcb_of s c)) \<subseteq> {c}"
    and own: "\<And>t. t \<in> dom (ps_tasks s) \<Longrightarrow> ut_pcb (task_of s t) = ut_pcb (task_of s c) \<Longrightarrow> t = c"
    and par: "ut_parent (task_of s c) = Some par" "alive par" "par \<in> dom (ps_tasks s)" "par \<noteq> c"
    and ex: "task_exit ops sc alive c code s = Some s2"
  shows "exit_code_of s2 c = Some code \<and> pc_exit_signal (pcb_of s2 c) = pc_exit_signal (pcb_of s c) \<and>
    pc_core_dumped (pcb_of s2 c) = pc_core_dumped (pcb_of s c) \<and>
    (\<forall>t\<in>dom (ps_tasks s) - {c}. pcb_of s2 t = pcb_of s t) \<and>
    ss_signal (tcb_of s2 par) = add_signal (ss_signal (tcb_of s par))
      (if tc_exit_signal (tcb_of s c) \<noteq> 0 then from_num (tc_exit_signal (tcb_of s c)) else SIGCHLD) \<and>
    (\<forall>t\<in>dom (ps_tasks s). ut_pcb (task_of s2 t) = ut_pcb (task_of s t)) \<and> dom (ps_tasks s2) = dom (ps_tasks s) \<and>
    length (ps_pcbs s2) = length (ps_pcbs s) \<and> ps_task_map s2 = ps_task_map s"
proof -
  note lc = proc_ok_task(3) [OF ok]
  define s1 where "s1 = clear_child c s"
  obtain f where f: "pcb_of s1 = (\<lambda>t. if ut_pcb (task_of s t) = ut_pcb (task_of s c)
        then (pcb_of s t)\<lparr>pc_futex_table := f\<rparr> else pcb_of s t)" "ps_tasks s1 = ps_tasks s" "task_of s1 = task_of s"
      "length (ps_pcbs s1) = length (ps_pcbs s)" "ps_world s1 = ps_world s" "ps_task_map s1 = ps_task_map s"
    using clear_child_keeps [OF ok] unfolding s1_def by blast
  define s1' where "s1' = set_pcb s1 c ((pcb_of s1 c)\<lparr>pc_exit_code := Some code\<rparr>)"
  define s3 where "s3 = leave_threads alive c s1'"
  have l1: "ut_pcb (task_of s1 c) < length (ps_pcbs s1)" using lc f(3,4) by simp
  then have l1': "ut_pcb (task_of s1' c) < length (ps_pcbs s1')" by (simp add: s1'_def)
  have t3: "task_of s3 = task_of s" "tcb_of s3 = tcb_of s" "ps_tasks s3 = ps_tasks s"
      "length (ps_pcbs s3) = length (ps_pcbs s)" "ps_task_map s3 = ps_task_map s"
    using f by (simp_all add: s3_def s1'_def tcb_of_def fun_eq_iff)
  have q1: "pcb_of s1' t = (if ut_pcb (task_of s t) = ut_pcb (task_of s c)
      then (pcb_of s c)\<lparr>pc_futex_table := f, pc_exit_code := Some code\<rparr> else pcb_of s t)" for t
    unfolding s1'_def pcb_of_set_pcb [OF l1] by (simp add: f)
  have q1t: "task_of s1' = task_of s" by (simp add: s1'_def f)
  have p3: "pcb_of s3 t = pcb_of s t" if "ut_pcb (task_of s t) \<noteq> ut_pcb (task_of s c)" for t
    using that unfolding s3_def leave_threads_pcb [OF l1'] q1t q1 by simp
  have c3: "pcb_of s3 c = (pcb_of s c)\<lparr>pc_futex_table := f, pc_exit_code := Some code,
      pc_threads := filter (\<lambda>t. alive t \<and> t \<noteq> c) (pc_threads (pcb_of s c))\<rparr>"
    unfolding s3_def leave_threads_pcb [OF l1'] q1t q1 by simp
  have th: "filter (\<lambda>t. alive t \<and> t \<noteq> c) (pc_threads (pcb_of s c)) = []"
    using main(2) by (auto simp: filter_empty_conv)
  have "cleanup_process ops sc alive c code s3 = Some s2"
    using ex unfolding task_exit_def Let_def s1_def [symmetric] s1'_def [symmetric] s3_def [symmetric] .
  then obtain w vm where s2: "s2 = notify_parent alive c (set_pcb (s3\<lparr>ps_world := w\<rparr>) c
      ((pcb_of s3 c)\<lparr>pc_vm := vm, pc_fd_table := [], pc_children := [], pc_exit_code := Some code\<rparr>))"
    using main(1) th by (auto simp: cleanup_process_def t3 c3 Let_def bind_eq_Some_conv)
  define s4 where "s4 = set_pcb (s3\<lparr>ps_world := w\<rparr>) c
      ((pcb_of s3 c)\<lparr>pc_vm := vm, pc_fd_table := [], pc_children := [], pc_exit_code := Some code\<rparr>)"
  have t4: "task_of s4 = task_of s" "tcb_of s4 = tcb_of s" by (simp_all add: s4_def t3)
  have l3: "ut_pcb (task_of (s3\<lparr>ps_world := w\<rparr>) c) < length (ps_pcbs (s3\<lparr>ps_world := w\<rparr>))"
    using lc t3 by simp
  have s2': "s2 = set_tcb s4 par ((tcb_of s par)\<lparr>ss_signal := add_signal (ss_signal (tcb_of s par))
      (if tc_exit_signal (tcb_of s c) \<noteq> 0 then from_num (tc_exit_signal (tcb_of s c)) else SIGCHLD)\<rparr>)"
    using par(1,2) unfolding s2 s4_def [symmetric] notify_parent_def t4 by (simp add: upgrade_def Let_def)
  have "pcb_of s2 t = pcb_of s t" if "t \<in> dom (ps_tasks s)" "t \<noteq> c" for t
  proof -
    have "ut_pcb (task_of s t) \<noteq> ut_pcb (task_of s c)" using own that by blast
    then show ?thesis unfolding s2' pcb_of_simps s4_def pcb_of_set_pcb [OF l3] by (simp add: t3 p3)
  qed
  moreover have "pcb_of s2 c = (pcb_of s3 c)\<lparr>pc_vm := vm, pc_fd_table := [], pc_children := [], pc_exit_code := Some code\<rparr>"
    unfolding s2' pcb_of_simps s4_def pcb_of_set_pcb [OF l3] by simp
  ultimately show ?thesis
    using par(3) by (auto simp: exit_code_of_def c3 s2' s4_def t3 dom_def)
qed

lemma reap_exited:
  assumes "proc_ok s" "self \<in> dom (ps_tasks s)" "ut_pcb (task_of s child) \<noteq> ut_pcb (task_of s self)"
    and "exit_code_of s child = Some code"
  shows "\<exists>s'. reap s self child status = Some (s', Ok child) \<and> pcb_of s' child = pcb_of s child \<and>
    pcb_of s' self = (pcb_of s self)\<lparr>pc_children := filter (\<lambda>x. x \<noteq> child) (pc_children (pcb_of s self))\<rparr> \<and>
    ps_task_map s' = ps_task_map s - {child} \<and>
    ps_stores s' = ps_stores s @
      (if status \<noteq> 0 then [(ut_pcb (task_of s self), status, wait_status (pcb_of s child) code)] else [])"
proof -
  note l = proc_ok_task(3) [OF assms(1,2)]
  let ?s = "set_pcb s self ((pcb_of s self)\<lparr>pc_children := filter (\<lambda>x. x \<noteq> child) (pc_children (pcb_of s self))\<rparr>)"
  have p: "pcb_of ?s child = pcb_of s child" "pcb_of ?s self =
      (pcb_of s self)\<lparr>pc_children := filter (\<lambda>x. x \<noteq> child) (pc_children (pcb_of s self))\<rparr>"
    unfolding pcb_of_set_pcb [OF l] using assms(3) by simp_all
  then have "exit_code_of ?s child = Some code" using assms(4) by (simp add: exit_code_of_def)
  then show ?thesis
    unfolding reap_def Let_def using p by (simp add: exit_code_of_def)
qed

text \<open>After a process exits, the parent's wait for it returns at the first poll.\<close>

lemma wait_after_exit:
  assumes "proc_ok s" "par \<in> dom (ps_tasks s)" "ut_pcb (task_of s c) \<noteq> ut_pcb (task_of s par)"
    and "exit_code_of s c = Some code" "c \<in> set (pc_children (pcb_of s par))" "c < 2 ^ 63"
    and "options = 0 \<or> options = 1"
  shows "\<exists>s'. wait4_poll s par (int c) status options = Some (s', Ready (Ok c)) \<and>
    pc_children (pcb_of s' par) = filter (\<lambda>x. x \<noteq> c) (pc_children (pcb_of s par)) \<and>
    ps_task_map s' = ps_task_map s - {c} \<and>
    ps_stores s' = ps_stores s @
      (if status \<noteq> 0 then [(ut_pcb (task_of s par), status, wait_status (pcb_of s c) code)] else [])"
proof -
  have u: "pid_usize (int c) = c" using assms(6) by (simp add: pid_usize_def)
  have "find (\<lambda>x. x = c) xs = Some c" "find (\<lambda>x. x = c \<and> exit_code_of s x \<noteq> None) xs = Some c"
    if "c \<in> set xs" for xs using that assms(4) by (induction xs) auto
  note f = this [OF assms(5)]
  have "wait4_poll s par (int c) status options = map_option (\<lambda>(s, r). (s, Ready r)) (reap s par c status)"
    using assms(4,7) f by (auto simp: wait4_poll_def wait_pid_poll_def u map_option_case split: option.splits)
  then show ?thesis using reap_exited [OF assms(1-4), of status] by force
qed

section \<open>The shape of the process tree\<close>

text \<open>The threads a control block lists run on it, its children were made by one of its threads, and
  the threads of one control block agree on the process identifier.\<close>

definition proc_tree :: "('s, 'n) proc_sys \<Rightarrow> bool" where
  "proc_tree s \<longleftrightarrow>
     (\<forall>t\<in>dom (ps_tasks s). \<forall>u\<in>dom (ps_tasks s). ut_pcb (task_of s t) = ut_pcb (task_of s u) \<longrightarrow>
        ut_process_id (task_of s t) = ut_process_id (task_of s u)) \<and>
     (\<forall>i<length (ps_pcbs s).
        (\<forall>t\<in>set (pc_threads (ps_pcbs s ! i)). ut_pcb (task_of s t) = i) \<and>
        (\<forall>x\<in>set (pc_children (ps_pcbs s ! i)).
           \<exists>p\<in>dom (ps_tasks s). ut_parent (task_of s x) = Some p \<and> ut_pcb (task_of s p) = i))"

text \<open>The operations that create no task keep the tree or cut links of it.\<close>

definition shrinks :: "('s, 'n) proc_sys \<Rightarrow> ('s, 'n) proc_sys \<Rightarrow> bool" where
  "shrinks s s' \<longleftrightarrow> ps_task_id s' = ps_task_id s \<and> dom (ps_tasks s') = dom (ps_tasks s) \<and>
     length (ps_pcbs s') = length (ps_pcbs s) \<and>
     (\<forall>t. ut_pcb (task_of s' t) = ut_pcb (task_of s t) \<and> ut_process_id (task_of s' t) = ut_process_id (task_of s t) \<and>
          ut_parent (task_of s' t) = ut_parent (task_of s t)) \<and>
     (\<forall>i<length (ps_pcbs s). set (pc_children (ps_pcbs s' ! i)) \<subseteq> set (pc_children (ps_pcbs s ! i)) \<and>
        set (pc_threads (ps_pcbs s' ! i)) \<subseteq> set (pc_threads (ps_pcbs s ! i)))"

lemma shrinksD:
  assumes "shrinks s s'"
  shows "ps_task_id s' = ps_task_id s" "dom (ps_tasks s') = dom (ps_tasks s)"
    "length (ps_pcbs s') = length (ps_pcbs s)" "ut_pcb (task_of s' t) = ut_pcb (task_of s t)"
    "ut_process_id (task_of s' t) = ut_process_id (task_of s t)" "ut_parent (task_of s' t) = ut_parent (task_of s t)"
    "i < length (ps_pcbs s) \<Longrightarrow> x \<in> set (pc_children (ps_pcbs s' ! i)) \<Longrightarrow> x \<in> set (pc_children (ps_pcbs s ! i))"
    "i < length (ps_pcbs s) \<Longrightarrow> x \<in> set (pc_threads (ps_pcbs s' ! i)) \<Longrightarrow> x \<in> set (pc_threads (ps_pcbs s ! i))"
  using assms unfolding shrinks_def by (blast+)

lemma shrinks_trans:
  assumes "shrinks a b" "shrinks b c" shows "shrinks a c"
  unfolding shrinks_def
  by (simp add: shrinksD(1-6) [OF assms(2)] shrinksD(1-6) [OF assms(1)])
    (blast intro: shrinksD(7,8) [OF assms(1)] shrinksD(7,8) [OF assms(2), unfolded shrinksD(3) [OF assms(1)]])

lemma shrinks_refl [simp]: "shrinks s s"
  by (simp add: shrinks_def)

lemma shrinks_ok:
  assumes sh: "shrinks s s'" and ok: "proc_ok s"
  shows "proc_ok s'" "proc_tree s \<Longrightarrow> proc_tree s'"
proof -
  have t: "t \<le> ps_task_id s \<and> ut_pcb u < length (ps_pcbs s)" if "ps_tasks s' t = Some u" for t u
  proof -
    have "t \<in> dom (ps_tasks s)" "u = task_of s' t" using that shrinksD(2) [OF sh] by (auto simp: task_of_def)
    then show ?thesis using proc_ok_task(2,3) [OF ok] by (simp add: shrinksD(4) [OF sh])
  qed
  have c: "set (pc_children p) \<union> set (pc_threads p) \<subseteq> dom (ps_tasks s)" if "p \<in> set (ps_pcbs s')" for p
  proof -
    obtain i where i: "i < length (ps_pcbs s)" "p = ps_pcbs s' ! i"
      using \<open>p \<in> _\<close> shrinksD(3) [OF sh] by (auto simp: in_set_conv_nth)
    have "set (pc_children (ps_pcbs s ! i)) \<union> set (pc_threads (ps_pcbs s ! i)) \<subseteq> dom (ps_tasks s)"
      using ok i(1) unfolding proc_ok_def by simp
    then show ?thesis using shrinksD(7,8) [OF sh i(1)] i(2) by blast
  qed
  show "proc_ok s'"
    unfolding proc_ok_def shrinksD(1-3) [OF sh] using t c ok [unfolded proc_ok_def] by blast
  show "proc_tree s'" if "proc_tree s"
    using that shrinksD(7,8) [OF sh] unfolding proc_tree_def shrinksD(1-6) [OF sh] by meson
qed

lemma shrinks_set_pcb:
  assumes "set (pc_children p) \<subseteq> set (pc_children (pcb_of s t))" "set (pc_threads p) \<subseteq> set (pc_threads (pcb_of s t))"
  shows "shrinks s (set_pcb s t p)"
proof (cases "ut_pcb (task_of s t) < length (ps_pcbs s)")
  case True
  then show ?thesis using assms by (auto simp: shrinks_def pcb_of_def nth_list_update)
qed (simp add: shrinks_def)

lemma shrinks_set_tcb: "t \<in> dom (ps_tasks s) \<Longrightarrow> shrinks s (set_tcb s t c)"
  by (auto simp: shrinks_def)

lemma shrinks_store32: "shrinks s (store32 s t a v)"
  by (simp add: shrinks_def)

lemma shrinks_fields:
  "shrinks s (s\<lparr>ps_world := w\<rparr>)" "shrinks s (s\<lparr>ps_task_map := m\<rparr>)" "shrinks s (s\<lparr>ps_queue := q\<rparr>)"
  by (simp_all add: shrinks_def)

lemma shrinks_dom: "shrinks s s' \<Longrightarrow> dom (ps_tasks s') = dom (ps_tasks s)"
  by (simp add: shrinks_def)

lemma shrinks_clear_child: "shrinks s (clear_child self s)"
proof -
  have "shrinks (store32 s self a v) (set_pcb (store32 s self a v) self ((pcb_of s self)\<lparr>pc_futex_table := f\<rparr>))" for a v f
    by (rule shrinks_set_pcb) simp_all
  then have "shrinks s (set_pcb (store32 s self a v) self ((pcb_of s self)\<lparr>pc_futex_table := f\<rparr>))" for a v f
    by (rule shrinks_trans [OF shrinks_store32])
  then show ?thesis by (simp add: clear_child_def Let_def)
qed

lemma shrinks_leave_threads: "shrinks s (leave_threads alive self s)"
  unfolding leave_threads_def Let_def by (rule shrinks_set_pcb) auto

lemma shrinks_cleanup:
  assumes "cleanup_process ops sc alive self code s = Some s'" "\<forall>p. alive p \<longrightarrow> p \<in> dom (ps_tasks s)"
  shows "shrinks s s'"
proof (cases "self = ut_process_id (task_of s self) \<and> pc_threads (pcb_of s self) = []")
  case True
  then obtain w vm where s': "s' = notify_parent alive self (set_pcb (s\<lparr>ps_world := w\<rparr>) self
      ((pcb_of s self)\<lparr>pc_vm := vm, pc_fd_table := [], pc_children := [], pc_exit_code := Some code\<rparr>))"
    using assms(1) by (auto simp: cleanup_process_def Let_def bind_eq_Some_conv)
  have n: "shrinks u (notify_parent alive self u)" if "dom (ps_tasks u) = dom (ps_tasks s)" for u :: "('a, 'b) proc_sys"
    using assms(2) that by (auto simp: notify_parent_def upgrade_def Let_def intro!: shrinks_set_tcb split: option.split)
  have "shrinks (s\<lparr>ps_world := w\<rparr>) (set_pcb (s\<lparr>ps_world := w\<rparr>) self
      ((pcb_of s self)\<lparr>pc_vm := vm, pc_fd_table := [], pc_children := [], pc_exit_code := Some code\<rparr>))"
    by (rule shrinks_set_pcb) simp_all
  then show ?thesis unfolding s' by (intro shrinks_trans [OF shrinks_trans [OF shrinks_fields(1)] n]) simp_all
next
  case False
  then have "s' = s" using assms(1) by (auto simp: cleanup_process_def)
  then show ?thesis by simp
qed

lemma shrinks_task_exit:
  assumes "task_exit ops sc alive self code s = Some s'" "\<forall>p. alive p \<longrightarrow> p \<in> dom (ps_tasks s)"
  shows "shrinks s s'"
proof -
  let ?a = "clear_child self s"
  let ?b = "set_pcb ?a self ((pcb_of ?a self)\<lparr>pc_exit_code := Some code\<rparr>)"
  have "shrinks ?a ?b" by (rule shrinks_set_pcb) simp_all
  then have s: "shrinks s (leave_threads alive self ?b)"
    by (intro shrinks_trans [OF shrinks_trans [OF shrinks_clear_child] shrinks_leave_threads])
  have "cleanup_process ops sc alive self code (leave_threads alive self ?b) = Some s'"
    using assms(1) by (simp add: task_exit_def Let_def)
  from shrinks_cleanup [OF this] assms(2) show ?thesis unfolding shrinks_dom [OF s] by (blast intro: shrinks_trans [OF s])
qed

lemma shrinks_thread_exit:
  assumes "thread_exit ops sc alive self code s = Some s'" "\<forall>p. alive p \<longrightarrow> p \<in> dom (ps_tasks s)" "self \<in> dom (ps_tasks s)"
  shows "shrinks s s'"
proof -
  let ?a = "clear_child self s"
  let ?b = "set_tcb ?a self ((tcb_of ?a self)\<lparr>tc_thread_exit_code := Some (of_nat code)\<rparr>)"
  have "shrinks ?a ?b" using assms(3) shrinks_dom [OF shrinks_clear_child] by (intro shrinks_set_tcb) blast
  then have s: "shrinks s (leave_threads alive self ?b)"
    by (intro shrinks_trans [OF shrinks_trans [OF shrinks_clear_child] shrinks_leave_threads])
  have "cleanup_process ops sc alive self code (leave_threads alive self ?b) = Some s'"
    using assms(1) by (simp add: thread_exit_def Let_def)
  from shrinks_cleanup [OF this] assms(2) show ?thesis unfolding shrinks_dom [OF s] by (blast intro: shrinks_trans [OF s])
qed

text \<open>A new task, with a control block of its own or on an existing one.\<close>

lemma new_task_ok:
  assumes ok: "proc_ok s" "proc_tree s" and c: "c = ps_task_id s + 1" "c < 2 ^ 64"
    and s': "ps_task_id s' = c" "ps_tasks s' = (ps_tasks s)(c \<mapsto> u)" "ut_pcb u < length (ps_pcbs s')"
      "length (ps_pcbs s) \<le> length (ps_pcbs s')"
    and links: "\<And>i x. i < length (ps_pcbs s') \<Longrightarrow> x \<in> set (pc_children (ps_pcbs s' ! i)) \<Longrightarrow>
        x = c \<and> (\<exists>p\<in>dom (ps_tasks s). ut_parent u = Some p \<and> ut_pcb (task_of s p) = i) \<or>
        i < length (ps_pcbs s) \<and> x \<in> set (pc_children (ps_pcbs s ! i))"
      "\<And>i x. i < length (ps_pcbs s') \<Longrightarrow> x \<in> set (pc_threads (ps_pcbs s' ! i)) \<Longrightarrow>
        x = c \<and> ut_pcb u = i \<or> i < length (ps_pcbs s) \<and> x \<in> set (pc_threads (ps_pcbs s ! i))"
    and pid: "\<And>t. t \<in> dom (ps_tasks s) \<Longrightarrow> ut_pcb (task_of s t) = ut_pcb u \<Longrightarrow>
        ut_process_id (task_of s t) = ut_process_id u"
  shows "proc_ok s'" "proc_tree s'"
proof -
  have tc: "task_of s' t = (if t = c then u else task_of s t)" for t using s'(2) by (simp add: task_of_def)
  have fresh: "t \<noteq> c" if "t \<in> dom (ps_tasks s)" for t using proc_ok_task(2) [OF ok(1) that] c(1) by simp
  have old: "x \<in> dom (ps_tasks s)"
    if "i < length (ps_pcbs s)" "x \<in> set (pc_children (ps_pcbs s ! i)) \<or> x \<in> set (pc_threads (ps_pcbs s ! i))" for i x
    using ok(1) that nth_mem unfolding proc_ok_def by blast
  have d: "dom (ps_tasks s') = insert c (dom (ps_tasks s))" using s'(2) by auto
  show "proc_ok s'"
  proof -
    have "t \<le> ps_task_id s' \<and> ut_pcb v < length (ps_pcbs s')" if "ps_tasks s' t = Some v" for t v
    proof (cases "t = c")
      case False
      then have "ps_tasks s t = Some v" using that s'(2) by simp
      then have "t \<le> ps_task_id s \<and> ut_pcb v < length (ps_pcbs s)" using ok(1) unfolding proc_ok_def by blast
      then show ?thesis using c(1) s'(1,4) by simp
    qed (use that s' in simp)
    moreover have "set (pc_children p) \<union> set (pc_threads p) \<subseteq> dom (ps_tasks s')" if "p \<in> set (ps_pcbs s')" for p
    proof -
      obtain i where i: "i < length (ps_pcbs s')" "p = ps_pcbs s' ! i" using \<open>p \<in> _\<close> by (auto simp: in_set_conv_nth)
      show ?thesis using links [OF i(1)] old unfolding i(2) d by blast
    qed
    ultimately show ?thesis using c(2) s'(1) unfolding proc_ok_def by blast
  qed
  have "(\<forall>t\<in>set (pc_threads (ps_pcbs s' ! i)). ut_pcb (task_of s' t) = i) \<and>
      (\<forall>x\<in>set (pc_children (ps_pcbs s' ! i)).
         \<exists>p\<in>dom (ps_tasks s'). ut_parent (task_of s' x) = Some p \<and> ut_pcb (task_of s' p) = i)"
    if i: "i < length (ps_pcbs s')" for i
  proof (intro conjI ballI)
    fix t assume t: "t \<in> set (pc_threads (ps_pcbs s' ! i))"
    from links(2) [OF i t] consider "t = c" "ut_pcb u = i"
      | "i < length (ps_pcbs s)" "t \<in> set (pc_threads (ps_pcbs s ! i))" by blast
    then show "ut_pcb (task_of s' t) = i"
    proof cases
      case 2
      then have "ut_pcb (task_of s t) = i" using ok(2) unfolding proc_tree_def by blast
      then show ?thesis using fresh [OF old [OF 2(1)]] 2(2) by (simp add: tc)
    qed (simp add: tc)
  next
    fix x assume x: "x \<in> set (pc_children (ps_pcbs s' ! i))"
    have up: "\<exists>p\<in>dom (ps_tasks s'). P = Some p \<and> ut_pcb (task_of s' p) = i"
      if "\<exists>p\<in>dom (ps_tasks s). P = Some p \<and> ut_pcb (task_of s p) = i" for P
      using that fresh by (auto simp: d tc)
    from links(1) [OF i x] consider "x = c" "\<exists>p\<in>dom (ps_tasks s). ut_parent u = Some p \<and> ut_pcb (task_of s p) = i"
      | "i < length (ps_pcbs s)" "x \<in> set (pc_children (ps_pcbs s ! i))" by blast
    then show "\<exists>p\<in>dom (ps_tasks s'). ut_parent (task_of s' x) = Some p \<and> ut_pcb (task_of s' p) = i"
    proof cases
      case 2
      then have "\<exists>p\<in>dom (ps_tasks s). ut_parent (task_of s x) = Some p \<and> ut_pcb (task_of s p) = i"
        using ok(2) unfolding proc_tree_def by blast
      moreover have "x \<noteq> c" using fresh [OF old [OF 2(1)]] 2(2) by simp
      ultimately show ?thesis using up [of "ut_parent (task_of s x)"] by (simp add: tc)
    next
      case 1
      then show ?thesis using up [of "ut_parent u"] by (simp add: tc)
    qed
  qed
  moreover have "ut_process_id (task_of s' t) = ut_process_id (task_of s' v)"
    if "t \<in> dom (ps_tasks s')" "v \<in> dom (ps_tasks s')" "ut_pcb (task_of s' t) = ut_pcb (task_of s' v)" for t v
  proof -
    have "ut_process_id (task_of s t) = ut_process_id (task_of s v)"
      if "t \<in> dom (ps_tasks s)" "v \<in> dom (ps_tasks s)" "ut_pcb (task_of s t) = ut_pcb (task_of s v)"
      using ok(2) that unfolding proc_tree_def by blast
    then show ?thesis using that pid [of t] pid [of v] unfolding d by (auto simp: tc split: if_splits)
  qed
  ultimately show "proc_tree s'" unfolding proc_tree_def by blast
qed

lemma cow_fork_ok:
  assumes "cow_fork ops mt self s = Some (s', c)" "proc_ok s" "self \<in> dom (ps_tasks s)"
    and "ps_task_id s < 2 ^ 64 - 1" "proc_tree s"
  shows "proc_ok s'" "proc_tree s'"
proof -
  let ?p = "pcb_of s self"
  obtain cv pv where f: "c = ps_task_id s + 1" "ps_task_id s' = c"
      "ps_tasks s' = (ps_tasks s)(c \<mapsto> \<lparr> ut_process_id = c, ut_pcb = length (ps_pcbs s), ut_parent = Some self,
        ut_tcb = forked_tcb (tcb_of s self) \<rparr>)"
      "ps_pcbs s' = (ps_pcbs s)[ut_pcb (task_of s self) :=
          ?p\<lparr>pc_vm := pv, pc_children := pc_children ?p @ [c]\<rparr>] @
        [(forked_pcb (length (ps_files s)) c ?p)\<lparr>pc_vm := cv\<rparr>]"
    using cow_fork_Some [OF assms(1-4)] by blast
  note l = proc_ok_task(3) [OF assms(2)]
  have n: "ps_pcbs s' ! i = (if i = length (ps_pcbs s) then (forked_pcb (length (ps_files s)) c ?p)\<lparr>pc_vm := cv\<rparr>
      else if i = ut_pcb (task_of s self) then (ps_pcbs s ! i)\<lparr>pc_vm := pv, pc_children := pc_children (ps_pcbs s ! i) @ [c]\<rparr>
      else ps_pcbs s ! i)" if "i < length (ps_pcbs s')" for i
    using that l [OF assms(3)] unfolding f(4) by (auto simp: nth_append pcb_of_def nth_list_update)
  have len: "length (ps_pcbs s') = length (ps_pcbs s) + 1" by (simp add: f(4))
  have ch: "pc_children ((forked_pcb m c ?p)\<lparr>pc_vm := cv\<rparr>) = []" "pc_threads ((forked_pcb m c ?p)\<lparr>pc_vm := cv\<rparr>) = [c]" for m
    by (simp_all add: forked_pcb_def pcb_new_def)
  have fr: "ut_pcb (task_of s t) \<noteq> length (ps_pcbs s)" if "t \<in> dom (ps_tasks s)" for t using l [OF that] by simp
  have links: "x = c \<and> self \<in> dom (ps_tasks s) \<and> ut_pcb (task_of s self) = i \<or>
        i < length (ps_pcbs s) \<and> x \<in> set (pc_children (ps_pcbs s ! i))"
    if "i < length (ps_pcbs s')" "x \<in> set (pc_children (ps_pcbs s' ! i))" for i x
    using that(2) assms(3) \<open>i < _\<close> len unfolding n [OF that(1)] by (simp add: ch split: if_splits)
  have threads: "x = c \<and> length (ps_pcbs s) = i \<or> i < length (ps_pcbs s) \<and> x \<in> set (pc_threads (ps_pcbs s ! i))"
    if "i < length (ps_pcbs s')" "x \<in> set (pc_threads (ps_pcbs s' ! i))" for i x
    using that(2) \<open>i < _\<close> len unfolding n [OF that(1)] by (simp add: ch split: if_splits)
  have c: "c < 2 ^ 64" using assms(4) f(1) by simp
  show "proc_ok s'" "proc_tree s'"
    by (rule new_task_ok [OF assms(2,5) f(1) c f(2,3)]; use len links threads fr in \<open>simp; blast\<close>)+
qed

lemma user_task_new_ok:
  assumes "user_task_new ops mt None wd s = Some (s', c)" "ps_task_id s < 2 ^ 64 - 1" "proc_ok s" "proc_tree s"
  shows "proc_ok s'" "proc_tree s'"
proof -
  let ?q = "(pcb_new (length (ps_files s)) (length (ps_files s) + 1))\<lparr>pc_threads := [c]\<rparr>"
  note u = user_task_new_Some [OF assms(1,2)]
  have c: "c = ps_task_id s + 1" "c < 2 ^ 64" using u assms(2) by auto
  have s': "ps_task_id s' = c" "ps_tasks s' = (ps_tasks s)(c \<mapsto> \<lparr> ut_process_id = c, ut_pcb = length (ps_pcbs s),
      ut_parent = None, ut_tcb = tcb_new \<rparr>)" and p: "ps_pcbs s' = ps_pcbs s @ [?q]" using u by blast+
  have n: "ps_pcbs s' ! i = (if i = length (ps_pcbs s) then ?q else ps_pcbs s ! i)"
    if "i < length (ps_pcbs s')" for i using that by (simp add: p nth_append)
  have ch: "pc_children (pcb_new n m) = []" "pc_threads ?q = [c]" for n m by (simp_all add: pcb_new_def)
  have len: "length (ps_pcbs s') = length (ps_pcbs s) + 1" by (simp add: p)
  have links: "i < length (ps_pcbs s) \<and> x \<in> set (pc_children (ps_pcbs s ! i))"
    if "i < length (ps_pcbs s')" "x \<in> set (pc_children (ps_pcbs s' ! i))" for i x
    using that(2) \<open>i < _\<close> len unfolding n [OF that(1)] by (simp add: ch split: if_splits)
  have threads: "x = c \<and> length (ps_pcbs s) = i \<or> i < length (ps_pcbs s) \<and> x \<in> set (pc_threads (ps_pcbs s ! i))"
    if "i < length (ps_pcbs s')" "x \<in> set (pc_threads (ps_pcbs s' ! i))" for i x
    using that(2) \<open>i < _\<close> len unfolding n [OF that(1)] by (simp add: ch split: if_splits)
  have fr: "ut_pcb (task_of s t) \<noteq> length (ps_pcbs s)" if "t \<in> dom (ps_tasks s)" for t
    using proc_ok_task(3) [OF assms(3) that] by simp
  show "proc_ok s'" "proc_tree s'"
    by (rule new_task_ok [OF assms(3,4) c s']; use len links threads fr in \<open>simp; blast\<close>)+
qed

lemma thread_clone_ok:
  assumes "thread_clone alive self s = (s', c)" "proc_ok s" "self \<in> dom (ps_tasks s)"
    and "ps_task_id s < 2 ^ 64 - 1" "proc_tree s"
  shows "proc_ok s'" "proc_tree s'" "c = ps_task_id s + 1" "c \<in> dom (ps_tasks s')"
proof -
  let ?t = "tcb_new\<lparr>tc_cx := tf_set RET 0 (tc_cx (tcb_of s self)), ss_sigmask := ss_sigmask (tcb_of s self)\<rparr>"
  let ?q = "(pcb_of s self)\<lparr>pc_threads := filter alive (pc_threads (pcb_of s self)) @ [c]\<rparr>"
  show c: "c = ps_task_id s + 1" using assms(1,4) by (auto simp: thread_clone_def Let_def wadd_def)
  have s': "ps_task_id s' = c" "ps_tasks s' = (ps_tasks s)(c \<mapsto> (task_of s self)\<lparr>ut_tcb := ?t\<rparr>)"
      and p: "ps_pcbs s' = (ps_pcbs s)[ut_pcb (task_of s self) := ?q]"
    using assms(1) by (auto simp: thread_clone_def Let_def)
  then show "c \<in> dom (ps_tasks s')" by simp
  note l = proc_ok_task(3) [OF assms(2)]
  have len: "length (ps_pcbs s') = length (ps_pcbs s)" by (simp add: p)
  have n: "ps_pcbs s' ! i = (if i = ut_pcb (task_of s self)
      then (ps_pcbs s ! i)\<lparr>pc_threads := filter alive (pc_threads (ps_pcbs s ! i)) @ [c]\<rparr> else ps_pcbs s ! i)"
    if "i < length (ps_pcbs s')" for i using that l [OF assms(3)] by (simp add: p pcb_of_def nth_list_update)
  have links: "i < length (ps_pcbs s) \<and> x \<in> set (pc_children (ps_pcbs s ! i))"
    if "i < length (ps_pcbs s')" "x \<in> set (pc_children (ps_pcbs s' ! i))" for i x
    using that(2) \<open>i < _\<close> len unfolding n [OF that(1)] by (simp split: if_splits)
  have threads: "x = c \<and> ut_pcb (task_of s self) = i \<or> i < length (ps_pcbs s) \<and> x \<in> set (pc_threads (ps_pcbs s ! i))"
    if "i < length (ps_pcbs s')" "x \<in> set (pc_threads (ps_pcbs s' ! i))" for i x
    using that(2) \<open>i < _\<close> len unfolding n [OF that(1)] by (auto split: if_splits)
  have pid: "ut_process_id (task_of s t) = ut_process_id (task_of s self)"
    if "t \<in> dom (ps_tasks s)" "ut_pcb (task_of s t) = ut_pcb (task_of s self)" for t
    using assms(3,5) that unfolding proc_tree_def by blast
  have c': "c < 2 ^ 64" using c assms(4) by simp
  show "proc_ok s'" "proc_tree s'"
    by (rule new_task_ok [OF assms(2,5) c c' s'];
        use len links threads pid l [OF assms(3)] in \<open>simp; blast\<close>)+
qed

lemma sys_clone_ok:
  assumes "sys_clone ops mt alive self s flags stack ptid tls ctid = Some (s', r)"
    and "proc_ok s" "proc_tree s" "self \<in> dom (ps_tasks s)" "ps_task_id s < 2 ^ 64 - 1"
  shows "proc_ok s'" "proc_tree s'"
proof -
  obtain s1 c where n: "(if has_flag flags CLONE_THREAD then Some (thread_clone alive self s)
      else cow_fork ops mt self s) = Some (s1, c)"
    using assms(1) unfolding sys_clone_def by (auto simp: bind_eq_Some_conv)
  have s1: "proc_ok s1" "proc_tree s1" "c \<in> dom (ps_tasks s1)"
    using n thread_clone_ok [of alive self s s1 c] cow_fork_ok [of ops mt self s s1 c] cow_fork_Some [of ops mt self s s1 c]
      assms(2-5) by (auto split: if_splits)
  let ?a = "set_tcb s1 c (clone_tcb flags stack tls ctid (tcb_of s1 c))"
  let ?b = "if has_flag flags CLONE_PARENT_SETTID then store32 ?a self ptid (of_nat c) else ?a"
  let ?c = "if has_flag flags CLONE_CHILD_SETTID \<and> ctid \<noteq> 0 then store32 ?b self ctid (of_nat c) else ?b"
  have s': "s' = ?c\<lparr>ps_task_map := insert c (ps_task_map ?c), ps_queue := ps_queue ?c @ [c]\<rparr>"
    using assms(1) n by (simp add: sys_clone_def Let_def)
  have "shrinks s1 ?a" by (rule shrinks_set_tcb [OF s1(3)])
  moreover have "shrinks ?a ?b" "shrinks ?b ?c" by (simp_all add: shrinks_store32)
  moreover have "shrinks ?c s'"
    unfolding s' by (rule shrinks_trans [OF shrinks_fields(2) shrinks_fields(3)])
  ultimately have "shrinks s1 s'" by (meson shrinks_trans)
  then show "proc_ok s'" "proc_tree s'" using shrinks_ok s1 by blast+
qed

lemma sys_setsid_ok:
  assumes "sys_setsid alive self s = (s', r)" "proc_ok s" "proc_tree s" "self \<in> dom (ps_tasks s)"
    and "\<forall>p. alive p \<longrightarrow> p \<in> dom (ps_tasks s)"
  shows "proc_ok s'" "proc_tree s'"
proof -
  have "proc_ok s' \<and> proc_tree s'"
  proof (cases "upgrade alive (ut_parent (task_of s self))")
    case None
    then show ?thesis using assms(1-3) by (auto simp: sys_setsid_def)
  next
    case (Some par)
    then have par: "ut_parent (task_of s self) = Some par" "par \<in> dom (ps_tasks s)"
      using assms(5) by (auto simp: upgrade_def split: option.splits if_splits)
    let ?p = "(pcb_of s par)\<lparr>pc_children := filter (\<lambda>x. x \<noteq> self) (pc_children (pcb_of s par))\<rparr>"
    let ?s = "set_pcb s par ?p"
    have s': "s' = ?s\<lparr>ps_tasks := (ps_tasks s)(self \<mapsto> (task_of s self)\<lparr>ut_parent := None\<rparr>)\<rparr>"
      using assms(1) Some by (auto simp: sys_setsid_def Let_def)
    have sh: "shrinks s ?s" by (rule shrinks_set_pcb) auto
    note ok = shrinks_ok(1) [OF sh assms(2)] shrinks_ok(2) [OF sh assms(2,3)]
    have d: "dom (ps_tasks s') = dom (ps_tasks ?s)" "ps_pcbs s' = ps_pcbs ?s" "ps_task_id s' = ps_task_id ?s"
      using assms(4) by (auto simp: s')
    have t: "task_of s' t = (if t = self then (task_of s self)\<lparr>ut_parent := None\<rparr> else task_of ?s t)" for t
      by (simp add: s' task_of_def)
    have l: "ut_pcb (task_of s par) < length (ps_pcbs s)" by (rule proc_ok_task(3) [OF assms(2) par(2)])
    have gone: "self \<notin> set (pc_children (ps_pcbs ?s ! i))" if i: "i < length (ps_pcbs ?s)" for i
    proof
      assume x: "self \<in> set (pc_children (ps_pcbs ?s ! i))"
      have "\<exists>p\<in>dom (ps_tasks ?s). ut_parent (task_of ?s self) = Some p \<and> ut_pcb (task_of ?s p) = i"
        using ok(2) i x unfolding proc_tree_def by blast
      then have "i = ut_pcb (task_of s par)" using par(1) by simp
      then show False using x l by (simp add: pcb_of_def)
    qed
    have same: "ut_pcb (task_of s' t) = ut_pcb (task_of ?s t)" "ut_process_id (task_of s' t) = ut_process_id (task_of ?s t)"
        "t \<noteq> self \<Longrightarrow> ut_parent (task_of s' t) = ut_parent (task_of ?s t)" for t
      by (simp_all add: t)
    have "ps_tasks s' t = Some u \<Longrightarrow> t \<le> ps_task_id ?s \<and> ut_pcb u < length (ps_pcbs ?s)" for t u
    proof -
      assume u: "ps_tasks s' t = Some u"
      then have "t \<in> dom (ps_tasks ?s)" "u = task_of s' t" using d(1) by (auto simp: task_of_def)
      then show ?thesis using proc_ok_task(2,3) [OF ok(1), of t] same(1) [of t] by simp
    qed
    then have "proc_ok s'" using ok(1) unfolding proc_ok_def d by blast
    moreover have "proc_tree s'"
    proof -
      have "ut_parent (task_of s' x) = ut_parent (task_of ?s x)"
        if "i < length (ps_pcbs ?s)" "x \<in> set (pc_children (ps_pcbs ?s ! i))" for i x
        using gone [OF that(1)] that(2) by (intro same(3)) blast
      then have "\<exists>p\<in>dom (ps_tasks ?s). ut_parent (task_of s' x) = Some p \<and> ut_pcb (task_of ?s p) = i"
        if "i < length (ps_pcbs ?s)" "x \<in> set (pc_children (ps_pcbs ?s ! i))" for i x
        using ok(2) that unfolding proc_tree_def by (simp only:)
      then show ?thesis using ok(2) unfolding proc_tree_def d same(1,2) by blast
    qed
    ultimately show ?thesis by blast
  qed
  then show "proc_ok s'" "proc_tree s'" by blast+
qed

lemma shrinks_reap: "reap s self child status = Some (s', r) \<Longrightarrow> shrinks s s'"
proof -
  assume r: "reap s self child status = Some (s', r)"
  let ?a = "set_pcb s self ((pcb_of s self)\<lparr>pc_children := filter (\<lambda>x. x \<noteq> child) (pc_children (pcb_of s self))\<rparr>)"
  have a: "shrinks s ?a" by (rule shrinks_set_pcb) auto
  have "shrinks ?a (?a\<lparr>ps_task_map := m\<rparr>)"
      "shrinks (?a\<lparr>ps_task_map := m\<rparr>) (store32 (?a\<lparr>ps_task_map := m\<rparr>) t x v)" for m t x v
    by (simp_all add: shrinks_fields shrinks_store32)
  then have "shrinks s (?a\<lparr>ps_task_map := m\<rparr>)" "shrinks s (store32 (?a\<lparr>ps_task_map := m\<rparr>) t x v)" for m t x v
    using a by (blast intro: shrinks_trans)+
  then show ?thesis using r by (auto simp: reap_def Let_def split: if_splits)
qed

lemma shrinks_wait4: "wait4_poll s self pid status options = Some (s', r) \<Longrightarrow> shrinks s s'"
  unfolding wait4_poll_def Let_def
  by (cases "options = 1"; cases "Option.bind (find (\<lambda>x. x = pid_usize pid \<or> pid = - 1) (pc_children (pcb_of s self))) (exit_code_of s)";
      cases "wait_pid_poll s self pid")
    (auto simp: bind_eq_Some_conv split: res.splits dest: shrinks_reap)

text \<open>The steps of the process part: a first task, the system calls, and a death by signal.  A
  reference that can be upgraded is to a task of the table; identifiers do not wrap.\<close>

inductive proc_step ::
  "(phys \<times> 's, 'n) inode_ops \<Rightarrow> 'n mounts \<Rightarrow> (usize \<Rightarrow> nat) \<Rightarrow> ('s, 'n) proc_sys \<Rightarrow> ('s, 'n) proc_sys \<Rightarrow> bool"
  for ops :: "(phys \<times> 's, 'n) inode_ops" and mt sc
where
  spawn: "user_task_new ops mt None wd s = Some (s', c) \<Longrightarrow> ps_task_id s < 2 ^ 64 - 1 \<Longrightarrow> proc_step ops mt sc s s'"
| clone: "self \<in> dom (ps_tasks s) \<Longrightarrow> ps_task_id s < 2 ^ 64 - 1 \<Longrightarrow>
    sys_clone ops mt alive self s flags stack ptid tls ctid = Some (s', r) \<Longrightarrow> proc_step ops mt sc s s'"
| exit: "self \<in> dom (ps_tasks s) \<Longrightarrow> \<forall>p. alive p \<longrightarrow> p \<in> dom (ps_tasks s) \<Longrightarrow>
    sys_exit ops sc alive self code s = Some (s', r) \<Longrightarrow> proc_step ops mt sc s s'"
| exit_group: "self \<in> dom (ps_tasks s) \<Longrightarrow> \<forall>p. alive p \<longrightarrow> p \<in> dom (ps_tasks s) \<Longrightarrow>
    sys_exit_group ops sc alive self ucode s = Some (s', r) \<Longrightarrow> proc_step ops mt sc s s'"
| killed: "self \<in> dom (ps_tasks s) \<Longrightarrow> \<forall>p. alive p \<longrightarrow> p \<in> dom (ps_tasks s) \<Longrightarrow>
    exit_with_signal ops sc alive self sig s = Some s' \<Longrightarrow> proc_step ops mt sc s s'"
| wait4: "self \<in> dom (ps_tasks s) \<Longrightarrow> wait4_poll s self pid status options = Some (s', pr) \<Longrightarrow> proc_step ops mt sc s s'"
| setsid: "self \<in> dom (ps_tasks s) \<Longrightarrow> \<forall>p. alive p \<longrightarrow> p \<in> dom (ps_tasks s) \<Longrightarrow>
    sys_setsid alive self s = (s', r) \<Longrightarrow> proc_step ops mt sc s s'"
| tgkill: "self \<in> dom (ps_tasks s) \<Longrightarrow> \<forall>p. alive p \<longrightarrow> p \<in> dom (ps_tasks s) \<Longrightarrow>
    sys_tgkill alive self s tgid tid signum = (s', r) \<Longrightarrow> proc_step ops mt sc s s'"
| kill: "\<forall>p. alive p \<longrightarrow> p \<in> dom (ps_tasks s) \<Longrightarrow> sys_kill alive user s pid' signum = (s', r) \<Longrightarrow> proc_step ops mt sc s s'"

lemma proc_step_ok:
  "proc_step ops mt sc s s' \<Longrightarrow> proc_ok s \<Longrightarrow> proc_tree s \<Longrightarrow> proc_ok s' \<and> proc_tree s'"
proof (induction rule: proc_step.induct)
  case (spawn wd s s' c)
  then show ?case using user_task_new_ok [OF spawn.hyps] by blast
next
  case (clone self s alive flags stack ptid tls ctid s' r)
  then show ?case using sys_clone_ok [OF clone.hyps(3)] by simp
next
  case (exit self s alive code s' r)
  then have "shrinks s s'" by (auto simp: sys_exit_def intro: shrinks_thread_exit)
  then show ?case using shrinks_ok exit.prems by blast
next
  case (exit_group self s alive ucode s' r)
  then have "shrinks s s'" by (auto simp: sys_exit_group_def intro: shrinks_task_exit)
  then show ?case using shrinks_ok exit_group.prems by blast
next
  case (killed self s alive sig s')
  let ?a = "set_pcb s self ((pcb_of s self)\<lparr>pc_exit_signal := Some sig, pc_exit_code := Some 0,
                pc_core_dumped := core_signal sig\<rparr>)"
  have a: "shrinks s ?a" by (rule shrinks_set_pcb) simp_all
  have "task_exit ops sc alive self 0 ?a = Some s'" using killed.hyps(3) by (simp add: exit_with_signal_def Let_def)
  then have "shrinks ?a s'" using killed.hyps(2) by (intro shrinks_task_exit) simp_all
  then show ?case using shrinks_ok [OF shrinks_trans [OF a]] killed.prems by blast
next
  case (wait4 self s pid status options s' pr)
  then show ?case using shrinks_ok [OF shrinks_wait4 [OF wait4.hyps(2)]] by blast
next
  case (setsid self s alive s' r)
  then show ?case using sys_setsid_ok [OF setsid.hyps(3)] by blast
next
  case (tgkill self s alive tgid tid signum s' r)
  have "s' = s \<or> (\<exists>c tcb. c \<in> dom (ps_tasks s) \<and> s' = set_tcb s c tcb)"
    using tgkill.hyps by (auto simp: sys_tgkill_def Let_def find_Some_iff split: option.splits if_splits)
  then show ?case using shrinks_ok [OF shrinks_set_tcb] tgkill.prems by blast
next
  case (kill alive s user pid' signum s' r)
  have "s' = s \<or> (\<exists>c tcb. c \<in> dom (ps_tasks s) \<and> s' = set_tcb s c tcb)"
    using kill.hyps by (auto simp: sys_kill_def split: if_splits)
  then show ?case using shrinks_ok [OF shrinks_set_tcb] kill.prems by blast
qed

definition proc_init :: "phys \<times> 's \<Rightarrow> 'n open_file list \<Rightarrow> shm_state \<Rightarrow> ('s, 'n) proc_sys" where
  "proc_init w fs sh = \<lparr> ps_world = w, ps_files = fs, ps_shm = sh, ps_tasks = Map.empty, ps_pcbs = [], ps_task_id = 0,
     ps_task_map = {}, ps_queue = [], ps_stores = [] \<rparr>"

section \<open>Fork, exit, wait\<close>

text \<open>A \<open>clone\<close> that only names the exit signal 17 is a fork.\<close>

lemma sys_fork_Some:
  assumes "sys_clone ops mt alive par s 17 stack ptid tls ctid = Some (s1, Ok c)"
    and "proc_ok s" "proc_tree s" "par \<in> dom (ps_tasks s)" "ps_task_id s < 2 ^ 64 - 1"
  shows "c = ps_task_id s + 1" "dom (ps_tasks s1) = insert c (dom (ps_tasks s))"
    "ut_process_id (task_of s1 c) = c" "ut_parent (task_of s1 c) = Some par"
    "t \<in> dom (ps_tasks s1) \<Longrightarrow> ut_pcb (task_of s1 t) = ut_pcb (task_of s1 c) \<Longrightarrow> t = c"
    "pc_threads (pcb_of s1 c) = [c]" "pc_exit_signal (pcb_of s1 c) = None" "tc_exit_signal (tcb_of s1 c) = 17"
    "pc_children (pcb_of s1 par) = pc_children (pcb_of s par) @ [c]"
    "ut_pcb (task_of s1 par) = ut_pcb (task_of s par)" "c \<in> ps_task_map s1"
proof -
  have fl: "\<not> has_flag 17 CLONE_THREAD" "\<not> has_flag 17 CLONE_PARENT_SETTID" "\<not> has_flag 17 CLONE_CHILD_SETTID"
    by (simp_all add: has_flag_def)
  obtain s0 where f: "cow_fork ops mt par s = Some (s0, c)"
      "s1 = (set_tcb s0 c (clone_tcb 17 stack tls ctid (tcb_of s0 c)))
          \<lparr>ps_task_map := insert c (ps_task_map s0), ps_queue := ps_queue (set_tcb s0 c (clone_tcb 17 stack tls ctid (tcb_of s0 c))) @ [c]\<rparr>"
    using assms(1) by (auto simp: sys_clone_def fl Let_def bind_eq_Some_conv)
  obtain cv pv where g: "c = ps_task_id s + 1"
      "ps_tasks s0 = (ps_tasks s)(c \<mapsto> \<lparr> ut_process_id = c, ut_pcb = length (ps_pcbs s), ut_parent = Some par,
        ut_tcb = forked_tcb (tcb_of s par) \<rparr>)"
      "ps_pcbs s0 = (ps_pcbs s)[ut_pcb (task_of s par) :=
          (pcb_of s par)\<lparr>pc_vm := pv, pc_children := pc_children (pcb_of s par) @ [c]\<rparr>] @
        [(forked_pcb (length (ps_files s)) c (pcb_of s par))\<lparr>pc_vm := cv\<rparr>]"
    using cow_fork_Some [OF f(1) assms(2,4,5)] by blast
  note l = proc_ok_task(3) [OF assms(2)] and ne = proc_ok_task(2) [OF assms(2)]
  have t0: "task_of s0 t = (if t = c then \<lparr> ut_process_id = c, ut_pcb = length (ps_pcbs s), ut_parent = Some par,
        ut_tcb = forked_tcb (tcb_of s par) \<rparr> else task_of s t)" for t by (simp add: task_of_def g(2))
  have pc: "par \<noteq> c" using ne [OF assms(4)] g(1) by simp
  have p0: "pcb_of s0 c = (forked_pcb (length (ps_files s)) c (pcb_of s par))\<lparr>pc_vm := cv\<rparr>"
      "pcb_of s0 par = (pcb_of s par)\<lparr>pc_vm := pv, pc_children := pc_children (pcb_of s par) @ [c]\<rparr>"
    using l [OF assms(4)] pc by (simp_all add: pcb_of_def t0 g(3) nth_append)
  have fu: "task_of (x\<lparr>ps_task_map := m, ps_queue := q\<rparr>) = task_of x" "pcb_of (x\<lparr>ps_task_map := m, ps_queue := q\<rparr>) = pcb_of x"
      "tcb_of (x\<lparr>ps_task_map := m, ps_queue := q\<rparr>) = tcb_of x" for x :: "('a, 'b) proc_sys" and m q
    by (auto simp: task_of_def pcb_of_def tcb_of_def fun_eq_iff)
  have s1: "task_of s1 t = (task_of s0 t)\<lparr>ut_tcb := ut_tcb (task_of s1 t)\<rparr>" "pcb_of s1 = pcb_of s0"
      "tcb_of s1 c = clone_tcb 17 stack tls ctid (tcb_of s0 c)" "dom (ps_tasks s1) = insert c (dom (ps_tasks s))" for t
    unfolding f(2) fu using g(2) by (auto)
  have k: "ut_pcb (task_of s1 t) = ut_pcb (task_of s0 t)" "ut_process_id (task_of s1 t) = ut_process_id (task_of s0 t)"
      "ut_parent (task_of s1 t) = ut_parent (task_of s0 t)" for t
    by (subst s1(1), simp)+
  show "c = ps_task_id s + 1" "dom (ps_tasks s1) = insert c (dom (ps_tasks s))" by (fact g(1) s1(4))+
  show "t = c" if "t \<in> dom (ps_tasks s1)" "ut_pcb (task_of s1 t) = ut_pcb (task_of s1 c)" for t
    using that l [of t] unfolding k s1(4) by (auto simp: t0 split: if_splits)
  show "tc_exit_signal (tcb_of s1 c) = 17" unfolding s1(3) by (simp add: clone_tcb_def Let_def)
  show "pc_threads (pcb_of s1 c) = [c]" "pc_exit_signal (pcb_of s1 c) = None"
      "pc_children (pcb_of s1 par) = pc_children (pcb_of s par) @ [c]"
    unfolding s1(2) p0 by (simp_all add: forked_pcb_def pcb_new_def)
  show "ut_process_id (task_of s1 c) = c" "ut_parent (task_of s1 c) = Some par"
      "ut_pcb (task_of s1 par) = ut_pcb (task_of s par)" "c \<in> ps_task_map s1"
    using pc by (simp_all add: k t0) (simp add: f(2))
qed

text \<open>C1: Fork, exit and wait work together.  A process forks; the child ends with \<open>exit_group(code)\<close>;
  then the parent has \<open>SIGCHLD\<close> pending, \<open>wait4\<close> for the child answers at its first poll, stores the
  code in bits 8 to 15 of the status, and takes the child from the parent's list, which is as before
  the fork, and from the table of tasks.\<close>

theorem fork_exit_wait:
  assumes "sys_clone ops mt alive par s 17 stack ptid tls ctid = Some (s1, Ok c)"
    and "proc_ok s" "proc_tree s" "par \<in> dom (ps_tasks s)" "ps_task_id s < 2 ^ 63 - 1" "alive par"
    and "sys_exit_group ops sc alive c code s1 = Some (s2, r)"
    and "\<forall>t. alive t \<longrightarrow> t \<in> dom (ps_tasks s1)" "status \<noteq> 0" "options = 0 \<or> options = 1"
  shows "bit (ss_signal (tcb_of s2 par)) 16 \<and>
    (\<exists>s3. wait4_poll s2 par (int c) status options = Some (s3, Ready (Ok c)) \<and>
      pc_children (pcb_of s3 par) = pc_children (pcb_of s par) \<and> c \<notin> ps_task_map s3 \<and>
      last (ps_stores s3) = (ut_pcb (task_of s par), status, push_bit 8 (of_nat code)))"
proof -
  have room: "ps_task_id s < 2 ^ 64 - 1" using assms(5) by simp
  note f = sys_fork_Some [OF assms(1-4) room]
  note ok1 = sys_clone_ok [OF assms(1-4) room]
  note c = f(1)
  have old: "t \<noteq> c" if "t \<in> dom (ps_tasks s)" for t using proc_ok_task(2) [OF assms(2) that] c by simp
  have x: "task_exit ops sc alive c code s1 = Some s2" using assms(7) by (auto simp: sys_exit_group_def)
  have d: "c \<in> dom (ps_tasks s1)" "par \<in> dom (ps_tasks s1)" using f(2) assms(4) by auto
  have pc: "par \<noteq> c" using old assms(4) by blast
  have pid: "ut_process_id (task_of s1 c) = c" "set (pc_threads (pcb_of s1 c)) \<subseteq> {c}" "ut_parent (task_of s1 c) = Some par"
    using f(3,4,6) by auto
  note e = task_exit_last [OF ok1(1) d(1) pid(1,2) f(5) pid(3) assms(6) d(2) pc x]
  have sh: "shrinks s1 s2" using shrinks_task_exit [OF x] assms(8) by blast
  have ok2: "proc_ok s2" using shrinks_ok(1) [OF sh ok1(1)] .
  have p2: "par \<in> dom (ps_tasks s2)" "pcb_of s2 par = pcb_of s1 par" "pc_exit_signal (pcb_of s2 c) = None"
      "exit_code_of s2 c = Some code"
    using e d pc f(7) by auto
  have ne: "ut_pcb (task_of s2 c) \<noteq> ut_pcb (task_of s2 par)"
    using f(5) [OF d(2)] pc unfolding shrinksD(4) [OF sh] by auto
  have ch: "pc_children (pcb_of s2 par) = pc_children (pcb_of s par) @ [c]" using f(9) p2(2) by simp
  have "filter (\<lambda>x. x \<noteq> c) (pc_children (pcb_of s par)) = pc_children (pcb_of s par)"
    using proc_ok_task(5) [OF assms(2,4)] old by (intro filter_True) blast
  moreover have "wait_status (pcb_of s2 c) code = push_bit 8 (of_nat code)" using p2(3) by (simp add: wait_status_def)
  moreover have "c \<in> set (pc_children (pcb_of s2 par))" "c < 2 ^ 63" using ch c assms(5) by simp_all
  moreover have "ut_pcb (task_of s2 par) = ut_pcb (task_of s par)" using f(10) unfolding shrinksD(4) [OF sh] by simp
  ultimately have w: "\<exists>s3. wait4_poll s2 par (int c) status options = Some (s3, Ready (Ok c)) \<and>
      pc_children (pcb_of s3 par) = pc_children (pcb_of s par) \<and> c \<notin> ps_task_map s3 \<and>
      last (ps_stores s3) = (ut_pcb (task_of s par), status, push_bit 8 (of_nat code))"
    using wait_after_exit [OF ok2 p2(1) ne p2(4) _ _ assms(10), of status] assms(9) ch by auto
  have "from_num 17 = flag_bit 16" using from_num_bit [of 17] by simp
  then have "bit (ss_signal (tcb_of s2 par)) 16" using e f(8) by (simp add: add_signal_def bit_or_iff)
  then show ?thesis using w by blast
qed

text \<open>C3: In every state the steps of the process part reach, every task has a control block, every
  thread a control block lists is a task that runs on it, every child it lists is a task made by one
  of its threads, and the threads of one control block have one process identifier.\<close>

theorem reachable_tree:
  assumes "(proc_step ops mt sc)\<^sup>*\<^sup>* (proc_init w fs sh) s"
  shows "proc_ok s \<and> proc_tree s"
  using assms
proof (induction rule: rtranclp_induct)
  case base
  show ?case by (simp add: proc_init_def proc_ok_def proc_tree_def)
next
  case (step s s')
  then show ?case using proc_step_ok by blast
qed

section \<open>Exits that no one sees\<close>

lemma thread_exit_keeps_code:
  assumes "thread_exit ops sc alive self code s = Some s'" "proc_ok s" "self \<in> dom (ps_tasks s)"
    and "self \<noteq> ut_process_id (task_of s self) \<or> (\<exists>w\<in>set (pc_threads (pcb_of s self)). alive w \<and> w \<noteq> self)"
  shows "exit_code_of s' t = exit_code_of s t" "ut_process_id (task_of s' t) = ut_process_id (task_of s t)"
    "dom (ps_tasks s') = dom (ps_tasks s)" "proc_ok s'" "pc_children (pcb_of s' t) = pc_children (pcb_of s t)"
proof -
  let ?a = "clear_child self s"
  let ?b = "set_tcb ?a self ((tcb_of ?a self)\<lparr>tc_thread_exit_code := Some (of_nat code)\<rparr>)"
  let ?c = "leave_threads alive self ?b"
  obtain f where f: "pcb_of ?a = (\<lambda>t. if ut_pcb (task_of s t) = ut_pcb (task_of s self)
        then (pcb_of s t)\<lparr>pc_futex_table := f\<rparr> else pcb_of s t)" "ps_tasks ?a = ps_tasks s" "task_of ?a = task_of s"
      "length (ps_pcbs ?a) = length (ps_pcbs s)"
    using clear_child_keeps [OF assms(2,3)] by blast
  have l: "ut_pcb (task_of ?b self) < length (ps_pcbs ?b)" using proc_ok_task(3) [OF assms(2,3)] f by simp
  have k: "ut_pcb (task_of ?b t) = ut_pcb (task_of s t)" "ut_process_id (task_of ?b t) = ut_process_id (task_of s t)"
      "pcb_of ?b = pcb_of ?a" for t by (simp_all add: f)
  have p: "pcb_of ?c t = (if ut_pcb (task_of s t) = ut_pcb (task_of s self)
      then (pcb_of s t)\<lparr>pc_futex_table := f, pc_threads := filter (\<lambda>t. alive t \<and> t \<noteq> self) (pc_threads (pcb_of s t))\<rparr>
      else pcb_of s t)" for t unfolding leave_threads_pcb [OF l] k f(1) by simp
  have "\<not> (self = ut_process_id (task_of ?c self) \<and> pc_threads (pcb_of ?c self) = [])"
    using assms(4) unfolding p leave_threads_simps k by (auto simp: filter_empty_conv)
  then have s': "s' = ?c" using assms(1) unfolding thread_exit_def Let_def cleanup_process_def by (simp only: if_False option.inject)
  show "exit_code_of s' t = exit_code_of s t" "pc_children (pcb_of s' t) = pc_children (pcb_of s t)"
    unfolding s' exit_code_of_def p by simp_all
  show "ut_process_id (task_of s' t) = ut_process_id (task_of s t)" unfolding s' leave_threads_simps k ..
  show d: "dom (ps_tasks s') = dom (ps_tasks s)" using assms(3) unfolding s' leave_threads_simps by (auto simp: f)
  have "shrinks ?a ?b" using assms(3) f(2) by (intro shrinks_set_tcb) simp
  then have "shrinks s s'"
    unfolding s' by (intro shrinks_trans [OF shrinks_trans [OF shrinks_clear_child] shrinks_leave_threads])
  then show "proc_ok s'" by (rule shrinks_ok(1) [OF _ assms(2)])
qed


lemma bit_80: "bit (0x80 :: 32 word) n \<longleftrightarrow> n = 7"
proof -
  have "(0x80 :: 32 word) = 2 ^ 7" by simp
  then show ?thesis using bit_exp_iff [where 'a = "32 word", of 7 n] by auto
qed

lemma bit_or_80: "bit (w OR 0x80) n \<longleftrightarrow> bit w n \<or> n = 7" for w :: "32 word"
  by (simp only: bit_or_iff bit_80)

lemma bit_of_nat32: "bit (of_nat k :: 32 word) n \<longleftrightarrow> n < 32 \<and> bit k n"
  by (auto simp: bit_simps)

text \<open>The status words tell exits and deaths by signal apart: after an exit the low seven bits are
  0 and bits 8 to 15 are the low byte of the code, after a death by a signal they are its number and
  bit 7 says whether it dumps core.\<close>

theorem wait_status_decodes:
  assumes "sig < 128" "0 < sig"
  shows "(pc_exit_signal p = None \<longrightarrow> wait_status p code AND 0x7f = 0 \<and>
      unat (drop_bit 8 (wait_status p code) AND 0xff) = code mod 256) \<and>
    (pc_exit_signal p = Some sig \<longrightarrow> unat (wait_status p code AND 0x7f) = sig \<and>
      (bit (wait_status p code) 7 \<longleftrightarrow> pc_core_dumped p))"
proof (intro conjI impI)
  have m: "(0x7f :: 32 word) = mask 7" "(0xff :: 32 word) = mask 8"
    by (simp_all add: mask_eq_exp_minus_1)
  show "wait_status p code AND 0x7f = 0" if "pc_exit_signal p = None"
    using that unfolding m wait_status_def by (auto intro!: bit_eqI simp: bit_simps)
  show "unat (drop_bit 8 (wait_status p code) AND 0xff) = code mod 256" if "pc_exit_signal p = None"
  proof -
    have "drop_bit 8 (push_bit 8 (of_nat code) :: 32 word) AND mask 8 = of_nat code AND mask 8"
      by (auto intro!: bit_eqI simp: bit_simps)
    also have "unat \<dots> = code mod 256"
      by (simp only: take_bit_eq_mask [symmetric] unsigned_take_bit_eq unat_of_nat)
        (simp add: take_bit_eq_mod mod_mod_cancel)
    finally show ?thesis using that unfolding m wait_status_def by simp
  qed
  have b: "\<not> bit sig n" if "7 \<le> n" for n
    using assms(1) that bit_take_bit_iff [of 7 sig n] take_bit_nat_eq_self [of sig 7] by auto
  show "unat (wait_status p code AND 0x7f) = sig" if "pc_exit_signal p = Some sig"
  proof -
    have "wait_status p code AND mask 7 = (of_nat sig :: 32 word)"
    proof (rule bit_word_eqI)
      fix n assume "n < LENGTH(32)"
      then show "bit (wait_status p code AND mask 7) n = bit (of_nat sig :: 32 word) n"
        using b [of n] that
        by (cases "n < 7") (simp_all add: wait_status_def bit_and_iff bit_or_80 bit_mask_iff bit_of_nat32)
    qed
    then show ?thesis using assms(1) unfolding m by (simp add: unat_of_nat)
  qed
  show "bit (wait_status p code) 7 \<longleftrightarrow> pc_core_dumped p" if "pc_exit_signal p = Some sig"
    using that b [of 7] by (simp add: wait_status_def bit_or_80 bit_of_nat32)
qed

theorem wait_status_decodes_witness:
  "unat (wait_status ((pcb_new 0 1 :: inode pcb)\<lparr>pc_exit_signal := Some 11, pc_core_dumped := True\<rparr>) 0 AND 0x7f) = 11"
  using wait_status_decodes [of 11 "(pcb_new 0 1 :: inode pcb)\<lparr>pc_exit_signal := Some 11, pc_core_dumped := True\<rparr>" 0] by simp

section \<open>A system with one process\<close>

text \<open>Not part of the kernel: a first task on a memory file system that holds the terminal.\<close>

definition tty_fs :: ram_fs where
  "tty_fs = \<lparr> fs_dirs = [([], [CDir ''dev'' 1]), (''dev'', [CFile ''ttyv0'' 0])], fs_files = [ram_file_new ''ttyv0''] \<rparr>"

definition demo_open :: "path_buf \<Rightarrow> inode \<Rightarrow> open_flags \<Rightarrow> inode open_file" where
  "demo_open p n fl = \<lparr> of_inner = n, of_path = p, of_offset = 0, of_flags = fl \<rparr>"

lemma tty_open:
  "open_path ram_ops [([], IDir 0)] (demo_phys, tty_fs) [] O_DIRECTORY =
     ((demo_phys, tty_fs), Ok (demo_open [] (IDir 0) O_DIRECTORY))"
  "open_path ram_ops [([], IDir 0)] (demo_phys, tty_fs) (path_from ''/dev/ttyv0'') O_RDWR =
     ((demo_phys, tty_fs), Ok (demo_open [''dev'', ''ttyv0''] (IFile 0) O_RDWR))"
  by (simp_all add: path_from_def path_join_def join_step_def open_path_def file_open_def ram_ops_def
        get_mounted_def path_starts_with_def path_trim_start_def path_levels_def path_dir_def path_filename_def
        flags_contain_def rd_lookup_def tty_fs_def demo_open_def)

abbreviation demo_init :: "(ram_fs, inode) proc_sys" where
  "demo_init \<equiv> proc_init (demo_phys, tty_fs) [] shm_init"

definition demo_sys :: "(ram_fs, inode) proc_sys" where
  "demo_sys = fst (the (user_task_new ram_ops [([], IDir 0)] None [] demo_init))"

lemma demo_sys_new: "user_task_new ram_ops [([], IDir 0)] None [] demo_init = Some (demo_sys, 1)"
  by (simp add: demo_sys_def user_task_new_def proc_init_def tty_open Let_def wadd_def)

lemma demo_sys_eq: "demo_sys = \<lparr> ps_world = (demo_phys, tty_fs),
    ps_files = [demo_open [] (IDir 0) O_DIRECTORY, demo_open [''dev'', ''ttyv0''] (IFile 0) O_RDWR], ps_shm = shm_init,
    ps_tasks = [1 \<mapsto> \<lparr> ut_process_id = 1, ut_pcb = 0, ut_parent = None, ut_tcb = tcb_new \<rparr>],
    ps_pcbs = [(pcb_new 0 1)\<lparr>pc_threads := [1]\<rparr>], ps_task_id = 1, ps_task_map = {}, ps_queue = [], ps_stores = [] \<rparr>"
  using demo_sys_new by (simp add: user_task_new_def proc_init_def tty_open Let_def wadd_def)

theorem reachable_tree_witness: "proc_ok demo_sys \<and> proc_tree demo_sys"
proof -
  have "proc_step ram_ops [([], IDir 0)] (\<lambda>_. 1) demo_init demo_sys"
    by (rule proc_step.spawn [OF demo_sys_new]) (simp add: proc_init_def)
  then show ?thesis using reachable_tree [of ram_ops "[([], IDir 0)]" "\<lambda>_. 1" "(demo_phys, tty_fs)" "[]" shm_init demo_sys]
    by (simp add: r_into_rtranclp)
qed

lemma demo_fork:
  "\<exists>s1 s2 r. sys_clone ram_ops [([], IDir 0)] (\<lambda>t. t \<in> {1, 2}) 1 demo_sys 17 0 0 0 0 = Some (s1, Ok 2) \<and>
     sys_exit_group ram_ops (\<lambda>_. 1) (\<lambda>t. t \<in> {1, 2}) 2 7 s1 = Some (s2, r)"
  unfolding demo_sys_eq
  by (simp add: sys_clone_def has_flag_def cow_fork_def user_task_new_def Let_def pcb_of_def task_of_def tty_open
      demo_open_def pcb_new_def shm_init_def set_pcb_def set_tcb_def tcb_of_def clone_tcb_def wadd_def sys_exit_group_def
      task_exit_def clear_child_def tcb_new_def leave_threads_def cleanup_process_def memset_clear_def drop_frames_def)

theorem fork_exit_wait_witness:
  "\<exists>s2 s3. wait4_poll s2 1 2 0x1000 0 = Some (s3, Ready (Ok 2)) \<and> bit (ss_signal (tcb_of (s2 :: (ram_fs, inode) proc_sys) 1)) 16 \<and>
     last (ps_stores s3) = (0, 0x1000, 0x700)"
proof -
  let ?al = "\<lambda>t. t \<in> {1, 2}"
  obtain s1 s2 r where f: "sys_clone ram_ops [([], IDir 0)] ?al 1 demo_sys 17 0 0 0 0 = Some (s1, Ok 2)"
      "sys_exit_group ram_ops (\<lambda>_. 1) ?al 2 7 s1 = Some (s2, r)" using demo_fork by blast
  have ok: "proc_ok demo_sys" "proc_tree demo_sys" "1 \<in> dom (ps_tasks demo_sys)" "ps_task_id demo_sys < 2 ^ 63 - 1"
      "ut_pcb (task_of demo_sys 1) = 0"
    by (simp_all add: demo_sys_eq proc_ok_def proc_tree_def task_of_def pcb_new_def)
  have d: "\<forall>t. t \<in> {1, 2} \<longrightarrow> t \<in> dom (ps_tasks s1)"
    using sys_fork_Some(2) [OF f(1) ok(1-3)] ok(4) by (auto simp: demo_sys_eq)
  show ?thesis
    using fork_exit_wait [OF f(1) ok(1-4) _ f(2) d, where status = "0x1000" and options = 0] ok(5) by auto
qed

definition demo_threads :: "(ram_fs, inode) proc_sys" where
  "demo_threads = fst (thread_clone (\<lambda>t. t \<in> {1, 2}) 1 demo_sys)"

lemma demo_threads_eq: "demo_threads = \<lparr> ps_world = (demo_phys, tty_fs),
    ps_files = [demo_open [] (IDir 0) O_DIRECTORY, demo_open [''dev'', ''ttyv0''] (IFile 0) O_RDWR], ps_shm = shm_init,
    ps_tasks = [1 \<mapsto> \<lparr> ut_process_id = 1, ut_pcb = 0, ut_parent = None, ut_tcb = tcb_new \<rparr>,
      2 \<mapsto> \<lparr> ut_process_id = 1, ut_pcb = 0, ut_parent = None, ut_tcb = tcb_new \<rparr>],
    ps_pcbs = [(pcb_new 0 1)\<lparr>pc_threads := [1, 2]\<rparr>], ps_task_id = 2, ps_task_map = {}, ps_queue = [], ps_stores = [] \<rparr>"
proof -
  have "wadd (Suc 0) (Suc 0) = 2" by (simp add: wadd_def)
  moreover have "tf_set RET 0 trap_frame_new = trap_frame_new" by (simp add: tf_set_def trap_frame_new_def list_update_same_conv)
  ultimately show ?thesis
    by (simp add: demo_threads_def thread_clone_def demo_sys_eq Let_def set_pcb_def pcb_of_def task_of_def
        tcb_of_def tcb_new_def fun_upd_idem)
qed


definition demo_paged :: "(ram_fs, inode) proc_sys" where
  "demo_paged = set_pcb demo_sys 1 ((pcb_of demo_sys 1)\<lparr>pc_vm := (pc_vm (pcb_of demo_sys 1))\<lparr>vm_areas :=
     [\<lparr> ma_type = Mmap, ma_tracks = [\<lparr> mt_vaddr = 0x1000, mt_frame = 0x90000000 \<rparr>], ma_file = None, ma_offset = 0,
        ma_start = 0x1000, ma_len = 0x1000 \<rparr>]\<rparr>\<rparr>)"

theorem fork_copies_witness:
  "\<exists>s'. cow_fork ram_ops [([], IDir 0)] 1 demo_paged = Some (s', 2) \<and>
     vm_pt (pc_vm (pcb_of s' 2)) 0x1000 = Some (0x90000000, URX) \<and>
     vm_pt (pc_vm (pcb_of s' 1)) 0x1000 = Some (0x90000000, URX)"
proof -
  have ok: "proc_ok demo_paged" "1 \<in> dom (ps_tasks demo_paged)" "ps_task_id demo_paged < 2 ^ 64 - 1"
      "vm_areas (pc_vm (pcb_of demo_paged 1)) =
        [\<lparr> ma_type = Mmap, ma_tracks = [\<lparr> mt_vaddr = 0x1000, mt_frame = 0x90000000 \<rparr>], ma_file = None, ma_offset = 0,
           ma_start = 0x1000, ma_len = 0x1000 \<rparr>]"
      "pc_shms (pcb_of demo_paged 1) = []"
    by (simp_all add: demo_paged_def demo_sys_eq proc_ok_def task_of_def pcb_of_def pcb_new_def set_pcb_def)
  have "\<exists>s'. cow_fork ram_ops [([], IDir 0)] 1 demo_paged = Some (s', 2)"
    by (simp add: demo_paged_def demo_sys_eq cow_fork_def user_task_new_def Let_def pcb_of_def task_of_def tty_open
      demo_open_def pcb_new_def shm_init_def set_pcb_def set_tcb_def tcb_of_def wadd_def tcb_new_def user_map_def)
  then obtain s' where f: "cow_fork ram_ops [([], IDir 0)] 1 demo_paged = Some (s', 2)" by blast
  have "shm_pages o1 [] = {}" for o1 by (simp add: shm_pages_def)
  then show ?thesis
    using fork_copies [OF f ok(1-3), unfolded ok(4,5) Let_def] f by simp
qed

end
