(* ===== verification/UserSignal.thy ===== *)
theory UserSignal
  imports Process
begin

unbundle bit_operations_syntax

text \<open>
  Running user code and delivering signals to it, on riscv64: \<open>handle_signal\<close> of \<open>user/signal.rs\<close>,
  \<open>handle_syscall\<close> of \<open>user/mod.rs\<close>, the signal part of \<open>user/entry.rs\<close>, and \<open>sys_sigreturn\<close> of
  \<open>syscall/task.rs\<close>, on the process system of the theory Process.

  \<^item> The parts of user memory the kernel reads and writes here are typed stores by address: signal
    contexts, signal information, trampolines.  The three lie in one frame and do not overlap.
  \<^item> \<open>user\<close> is \<open>run_user_task\<close>: the user program runs until the next trap and may change registers and
    memory; \<open>sysc\<close> is the dispatch of the other system calls.  Both are arguments.
  \<^item> The time accounting of \<open>handle_syscall\<close> is left out.
\<close>

record umem =
  um_ctx :: "usize \<Rightarrow> sig_user_context"
  um_info :: "usize \<Rightarrow> sig_info"
  um_tramp :: "usize \<Rightarrow> 32 word list"

type_synonym ('s, 'n) user_sys = "umem \<times> ('s, 'n) proc_sys"

definition cx_of :: "('s, 'n) proc_sys \<Rightarrow> usize \<Rightarrow> trap_frame" where
  "cx_of s self = tc_cx (tcb_of s self)"

definition set_cx :: "('s, 'n) proc_sys \<Rightarrow> usize \<Rightarrow> trap_frame \<Rightarrow> ('s, 'n) proc_sys" where
  "set_cx s self cx = set_tcb s self ((tcb_of s self)\<lparr>tc_cx := cx\<rparr>)"

definition translated :: "('s, 'n) proc_sys \<Rightarrow> usize \<Rightarrow> usize \<Rightarrow> bool" where
  "translated s self va \<longleftrightarrow> vm_pt (pc_vm (pcb_of s self)) (page_floor va) \<noteq> None"

section \<open>Default actions\<close>

definition fatal_default :: "u64 \<Rightarrow> bool" where
  "fatal_default signal \<longleftrightarrow>
     signal \<in> set (map flag_bit [32, 10, 3, 5, 2, 14, 0, 1, 12, 13, 7, 6, 4, 23, 24, 25, 26, 9, 11])"

definition fatal_restorer :: "u64 \<Rightarrow> bool" where
  "fatal_restorer signal \<longleftrightarrow>
     signal \<in> set (map flag_bit [32, 10, 3, 5, 2, 14, 0, 1, 12, 13, 7, 6, 4, 23, 24, 25, 26])"

abbreviation SIGTIMER :: u64 where "SIGTIMER \<equiv> flag_bit 31"
abbreviation SIGUSR1 :: u64 where "SIGUSR1 \<equiv> flag_bit 9"
abbreviation SIGUSR2 :: u64 where "SIGUSR2 \<equiv> flag_bit 11"

definition default_action ::
  "(phys \<times> 's, 'n) inode_ops \<Rightarrow> (usize \<Rightarrow> nat) \<Rightarrow> (usize \<Rightarrow> bool) \<Rightarrow> usize \<Rightarrow> u64 \<Rightarrow> ('s, 'n) proc_sys
   \<Rightarrow> ('s, 'n) proc_sys run" where
  "default_action ops sc alive self signal s =
     (if fatal_default signal then exit_with_signal ops sc alive self (sig_num signal) s else Some s)"

section \<open>The frame of a handler\<close>

definition exec_area :: "'n vm \<Rightarrow> usize \<Rightarrow> bool" where
  "exec_area vm addr \<longleftrightarrow>
     (\<exists>a\<in>set (vm_areas vm). ma_contains a addr \<and> ma_type a \<in> {Mmap, Stack, CodeSection})"

definition frame_size :: usize where
  "frame_size = 16 + sizeof_sig_info + sizeof_sig_user_context"

text \<open>\<open>(current_sp - 128 - frame_size) & !0xf\<close>.\<close>

definition frame_sp :: "usize \<Rightarrow> usize" where
  "frame_sp current_sp =
     (let a = wsub (wsub current_sp 128) frame_size in a - a mod 16)"

definition stack_ok :: "'n vm \<Rightarrow> usize \<Rightarrow> usize \<Rightarrow> bool" where
  "stack_ok vm current_sp sp \<longleftrightarrow>
     (let siginfo_sp = wadd sp 16; uctx_sp = wadd siginfo_sp sizeof_sig_info
      in \<not> (sp \<ge> current_sp \<or> current_sp - sp > 64 * 1024) \<and> \<not> (sp < 0x1000 \<or> sp \<ge> 0x800000000000) \<and>
         (\<exists>a\<in>set (vm_areas vm). ma_contains a siginfo_sp \<and>
            ma_contains a (wadd uctx_sp sizeof_sig_user_context) \<and> ma_type a \<in> {Stack, Mmap}))"

definition trampoline_code :: "32 word list" where
  "trampoline_code = [0x08b00893, 0x00000073, 0, 0]"

text \<open>Where the handler returns to.\<close>

definition set_return :: "usize \<Rightarrow> sig_action \<Rightarrow> usize \<Rightarrow> usize \<Rightarrow> ('s, 'n) user_sys \<Rightarrow> ('s, 'n) user_sys" where
  "set_return self act tramp_sp original_pc u =
     (case u of (m, s) \<Rightarrow>
        if sa_restorer act = 0 \<or> sa_restorer act < 0x1000
        then if translated s self tramp_sp
             then (m\<lparr>um_tramp := (um_tramp m)(tramp_sp := trampoline_code)\<rparr>,
                   set_cx s self (tf_set RA tramp_sp (cx_of s self)))
             else (m, set_cx s self (tf_set RA original_pc (cx_of s self)))
        else (m, set_cx s self (tf_set RA (sa_restorer act) (cx_of s self))))"

text \<open>Either the handling is over, or the task is set up to run its handler; then the mask and the
  registers to restore and the address of the context are kept.\<close>

datatype 'u sig_entry = Returned 'u | Entered 'u u64 trap_frame usize

definition signal_frame ::
  "(phys \<times> 's, 'n) inode_ops \<Rightarrow> (usize \<Rightarrow> nat) \<Rightarrow> (usize \<Rightarrow> bool) \<Rightarrow> usize \<Rightarrow> u64 \<Rightarrow> sig_action
   \<Rightarrow> ('s, 'n) user_sys \<Rightarrow> ('s, 'n) user_sys sig_entry run" where
  "signal_frame ops sc alive self signal act u =
     (case u of (m, s) \<Rightarrow>
      let cx = cx_of s self;
          task_mask = ss_sigmask (tcb_of s self);
          s = set_tcb s self ((tcb_of s self)\<lparr>ss_sigmask := sa_mask act\<rparr>);
          vm = pc_vm (pcb_of s self);
          sp = frame_sp (tf_get cx SP);
          siginfo_sp = wadd sp 16;
          uctx_sp = wadd siginfo_sp sizeof_sig_info
      in if \<not> stack_ok vm (tf_get cx SP) sp then Some (Returned (m, s))
         else if \<not> translated s self siginfo_sp then Some (Returned (m, s))
         else let m = m\<lparr>um_info := (um_info m)(siginfo_sp := sig_info_default\<lparr>si_signo := of_nat (sig_num signal)\<rparr>)\<rparr>
              in if \<not> translated s self uctx_sp then Some (Returned (m, s))
                 else let original_pc = tf_get cx SEPC;
                          uc = (store_ctx cx (um_ctx m uctx_sp))\<lparr>uc_pc := original_pc, uc_sig_mask := sa_mask act\<rparr>;
                          m = m\<lparr>um_ctx := (um_ctx m)(uctx_sp := uc)\<rparr>;
                          s = set_cx s self (tf_set SEPC (sa_handler act) (tf_set SP sp cx))
                      in if sa_restorer act \<noteq> 0 \<and> \<not> exec_area vm (sa_restorer act) \<and> signal \<noteq> SIGUSR1 \<and> signal \<noteq> SIGUSR2
                         then if fatal_restorer signal
                              then map_option (\<lambda>s. Returned (m, s)) (exit_with_signal ops sc alive self (sig_num signal) s)
                              else Some (Returned (m, s))
                         else let u = set_return self act sp original_pc (m, s);
                                  cx' = tf_set ARG2 uctx_sp (tf_set ARG1 siginfo_sp
                                          (tf_set ARG0 (sig_num signal) (cx_of (snd u) self)))
                              in Some (Entered (fst u, set_cx (snd u) self cx') task_mask cx uctx_sp))"

definition signal_enter ::
  "(phys \<times> 's, 'n) inode_ops \<Rightarrow> (usize \<Rightarrow> nat) \<Rightarrow> (usize \<Rightarrow> bool) \<Rightarrow> usize \<Rightarrow> u64
   \<Rightarrow> ('s, 'n) user_sys \<Rightarrow> ('s, 'n) user_sys sig_entry run" where
  "signal_enter ops sc alive self signal u =
     (case u of (m, s) \<Rightarrow>
      do { s \<leftarrow> (if signal = SIGKILL then exit_with_signal ops sc alive self (sig_num signal) s else Some s);
           act \<leftarrow> vec_get (pc_sigaction (pcb_of s self)) (sig_num signal);
           (if sa_handler act = 0
            then map_option (\<lambda>s. Returned (m, s)) (default_action ops sc alive self signal s)
            else if sa_handler act = 1 then Some (Returned (m, s))
            else if sa_handler act < 0x10000 \<or> sa_handler act \<ge> 0x800000000000
            then map_option (\<lambda>s. Returned (m, s)) (exit_with_signal ops sc alive self (sig_num signal) s)
            else if \<not> exec_area (pc_vm (pcb_of s self)) (sa_handler act)
            then map_option (\<lambda>s. Returned (m, s)) (exit_with_signal ops sc alive self (sig_num signal) s)
            else if signal = SIGTIMER then Some (Returned (m, s))
            else if signal = SIGCHLD then Some (Returned (m, s))
            else signal_frame ops sc alive self signal act (m, s)) })"

section \<open>Running user code\<close>

datatype escape_reason = NoReason | IRQ | Timer | SysCall

datatype user_task_control_flow = Continue | Break

text \<open>The numbers of the errors, and the word a call returns.\<close>

fun errno_raw :: "errno \<Rightarrow> nat" where
  "errno_raw EPERM = 1" | "errno_raw ENOENT = 2" | "errno_raw ESRCH = 3" | "errno_raw EINTR = 4"
| "errno_raw EIO = 5" | "errno_raw E2BIG = 7" | "errno_raw EBADF = 9" | "errno_raw ECHILD = 10"
| "errno_raw EAGAIN = 11" | "errno_raw ENOMEM = 12" | "errno_raw EACCES = 13" | "errno_raw EFAULT = 14"
| "errno_raw EEXIST = 17" | "errno_raw ENOTDIR = 20" | "errno_raw EISDIR = 21" | "errno_raw EINVAL = 22"
| "errno_raw ENFILE = 23" | "errno_raw EMFILE = 24" | "errno_raw ENOTTY = 25" | "errno_raw EFBIG = 27"
| "errno_raw ENOSPC = 28" | "errno_raw ESPIPE = 29" | "errno_raw EPIPE = 32" | "errno_raw ERANGE = 34"
| "errno_raw ENOSYS = 38" | "errno_raw ENOTEMPTY = 39" | "errno_raw ENOMSG = 42" | "errno_raw EIDRM = 43"
| "errno_raw EWOULDBLOCK = 11" | "errno_raw ENOTSOCK = 88" | "errno_raw EOPNOTSUPP = 95"
| "errno_raw EAFNOSUPPORT = 97" | "errno_raw ETIMEDOUT = 110" | "errno_raw EALREADY = 114"

fun sys_ret :: "usize res \<Rightarrow> usize run" where
  "sys_ret (Ok x) = Some x"
| "sys_ret (Err e) = Some (wsub 0 (errno_raw e))"
| "sys_ret Panic = None"

definition sys_sigreturn :: "usize \<Rightarrow> ('s, 'n) user_sys \<Rightarrow> ('s, 'n) user_sys \<times> usize res" where
  "sys_sigreturn self u =
     (case u of (m, s) \<Rightarrow>
      let cx = cx_of s self; sp = tf_get cx SP; uctx_sp = wadd (wadd sp 16) sizeof_sig_info
      in if sp < 0x1000 \<or> sp \<ge> 0x800000000000 then (u, Err EFAULT)
         else if \<not> translated s self uctx_sp then (u, Err EFAULT)
         else let uc = um_ctx m uctx_sp;
                  s = set_tcb s self ((tcb_of s self)\<lparr>ss_sigmask := uc_sig_mask uc\<rparr>)
              in ((m, set_cx s self (tf_set SEPC (uc_pc uc) (restore_ctx uc cx))), Ok 0))"

definition handle_syscall ::
  "(('s, 'n) user_sys \<Rightarrow> ('s, 'n) user_sys \<times> escape_reason)
   \<Rightarrow> (usize \<Rightarrow> usize list \<Rightarrow> ('s, 'n) user_sys \<Rightarrow> ('s, 'n) user_sys \<times> usize res)
   \<Rightarrow> usize \<Rightarrow> ('s, 'n) user_sys \<Rightarrow> (('s, 'n) user_sys \<times> user_task_control_flow) run" where
  "handle_syscall user sysc self u =
     (case user u of (u, reason) \<Rightarrow>
        if reason = SysCall
        then let syscall_id = tf_get (cx_of (snd u) self) SYSCALL
             in if syscall_id = 139
                then case sys_sigreturn self u of (u, r) \<Rightarrow>
                       do { v \<leftarrow> sys_ret r;
                            Some ((fst u, set_cx (snd u) self (tf_set RET v (cx_of (snd u) self))), Break) }
                else let u = (fst u, set_cx (snd u) self (syscall_ok (cx_of (snd u) self)))
                     in case sysc syscall_id (tf_args (cx_of (snd u) self)) u of (u, r) \<Rightarrow>
                          do { v \<leftarrow> sys_ret r;
                               Some ((fst u, set_cx (snd u) self (tf_set RET v (cx_of (snd u) self))), Continue) }
        else Some (u, Continue))"

text \<open>The loop in which the handler runs; it may not end.\<close>

partial_function (option) handler_loop ::
  "(('s, 'n) user_sys \<Rightarrow> ('s, 'n) user_sys \<times> escape_reason)
   \<Rightarrow> (usize \<Rightarrow> usize list \<Rightarrow> ('s, 'n) user_sys \<Rightarrow> ('s, 'n) user_sys \<times> usize res)
   \<Rightarrow> usize \<Rightarrow> ('s, 'n) user_sys \<Rightarrow> ('s, 'n) user_sys option" where
  "handler_loop user sysc self u =
     (if exit_code_of (snd u) self \<noteq> None then Some u
      else Option.bind (handle_syscall user sysc self u) (\<lambda>(u, c).
             if c = Break then Some u else handler_loop user sysc self u))"

text \<open>What follows the handler: mask and registers are put back, then the registers of the context
  the handler leaves, when its program counter is plausible.\<close>

definition signal_leave ::
  "usize \<Rightarrow> u64 \<Rightarrow> trap_frame \<Rightarrow> usize \<Rightarrow> ('s, 'n) user_sys \<Rightarrow> ('s, 'n) user_sys" where
  "signal_leave self task_mask store_cx uctx_sp u =
     (case u of (m, s) \<Rightarrow>
      let s = set_tcb s self ((tcb_of s self)\<lparr>ss_sigmask := task_mask, tc_cx := store_cx\<rparr>)
      in if \<not> translated s self uctx_sp then (m, s)
         else let new_pc = uc_pc (um_ctx m uctx_sp)
              in if new_pc < 0x10000 \<or> new_pc \<ge> 0x800000000000 then (m, s)
                 else (m, set_cx s self (restore_ctx (um_ctx m uctx_sp) (tf_set SEPC new_pc store_cx))))"

definition handle_signal ::
  "(phys \<times> 's, 'n) inode_ops \<Rightarrow> (usize \<Rightarrow> nat) \<Rightarrow> (usize \<Rightarrow> bool)
   \<Rightarrow> (('s, 'n) user_sys \<Rightarrow> ('s, 'n) user_sys \<times> escape_reason)
   \<Rightarrow> (usize \<Rightarrow> usize list \<Rightarrow> ('s, 'n) user_sys \<Rightarrow> ('s, 'n) user_sys \<times> usize res)
   \<Rightarrow> usize \<Rightarrow> u64 \<Rightarrow> ('s, 'n) user_sys \<Rightarrow> ('s, 'n) user_sys option" where
  "handle_signal ops sc alive user sysc self signal u =
     do { e \<leftarrow> signal_enter ops sc alive self signal u;
          (case e of
             Returned u \<Rightarrow> Some u
           | Entered u task_mask store_cx uctx_sp \<Rightarrow>
               do { u \<leftarrow> handler_loop user sysc self u; Some (signal_leave self task_mask store_cx uctx_sp u) }) }"

text \<open>One round of \<open>check_signal\<close> on the whole system, after the handling of \<open>signal\<close>.\<close>

definition signal_done :: "u64 \<Rightarrow> tcb \<Rightarrow> tcb run" where
  "signal_done signal t =
     (let t = t\<lparr>ss_signal := remove_signal (ss_signal t) signal\<rparr>
      in case real_time_index signal of
           None \<Rightarrow> Some t
         | Some index \<Rightarrow>
             do { n \<leftarrow> vec_get (ss_queue t) index;
                  Some (if n > 0 then t\<lparr>ss_signal := add_signal (ss_signal t) signal,
                                        ss_queue := (ss_queue t)[index := n - 1]\<rparr> else t) })"

definition check_signal_turn ::
  "(phys \<times> 's, 'n) inode_ops \<Rightarrow> (usize \<Rightarrow> nat) \<Rightarrow> (usize \<Rightarrow> bool)
   \<Rightarrow> (('s, 'n) user_sys \<Rightarrow> ('s, 'n) user_sys \<times> escape_reason)
   \<Rightarrow> (usize \<Rightarrow> usize list \<Rightarrow> ('s, 'n) user_sys \<Rightarrow> ('s, 'n) user_sys \<times> usize res)
   \<Rightarrow> usize \<Rightarrow> ('s, 'n) user_sys \<Rightarrow> (('s, 'n) user_sys \<times> bool) option" where
  "check_signal_turn ops sc alive user sysc self u =
     (case try_get_signal (mask_signals (ss_signal (tcb_of (snd u) self)) (ss_sigmask (tcb_of (snd u) self))) of
        None \<Rightarrow> Some (u, False)
      | Some signal \<Rightarrow>
          do { (m, s) \<leftarrow> handle_signal ops sc alive user sysc self signal u;
               t \<leftarrow> signal_done signal (tcb_of s self);
               Some ((m, set_tcb s self t), True) })"

section \<open>Entering a handler\<close>

lemma cx_simps [simp]:
  "cx_of (set_cx s self cx) self = cx" "task_of (set_cx s self cx) t = (task_of s t)\<lparr>ut_tcb := tcb_of (set_cx s self cx) t\<rparr>"
  "pcb_of (set_cx s self cx) = pcb_of s" "tcb_of (set_cx s self cx) self = (tcb_of s self)\<lparr>tc_cx := cx\<rparr>"
  by (auto simp: cx_of_def set_cx_def tcb_of_def)

lemma translated_simps [simp]:
  "translated (set_cx s self cx) = translated s" "translated (set_tcb s t c) = translated s"
  by (simp_all add: translated_def fun_eq_iff)

lemma frame_sizes: "frame_size = 1112" "sizeof_sig_info = 128" "sizeof_sig_user_context = 968"
  by (simp_all add: frame_size_def sizeof_sig_info_def sizeof_sig_user_context_def)

text \<open>A frame that passes the test of the stack lies below the stack pointer by the red zone, and
  none of its addresses wraps.\<close>

lemma stack_ok_sp:
  assumes "stack_ok vm cur (frame_sp cur)" "cur < 2 ^ 64"
  shows "frame_sp cur mod 16 = 0" "frame_sp cur + 1112 + 128 \<le> cur" "frame_sp cur < 0x800000000000"
    "wadd (frame_sp cur) 16 = frame_sp cur + 16" "wadd (frame_sp cur + 16) 128 = frame_sp cur + 144"
proof -
  show m: "frame_sp cur mod 16 = 0"
    by (simp add: frame_sp_def Let_def minus_mod_eq_div_mult)
  have sp: "frame_sp cur < cur" "frame_sp cur < 0x800000000000"
    using assms(1) by (auto simp: stack_ok_def Let_def)
  show "frame_sp cur < 0x800000000000" by fact
  have "1240 \<le> cur"
  proof (rule ccontr)
    assume "\<not> 1240 \<le> cur"
    then have a: "(2 ^ 64 - 1112 + (2 ^ 64 - 128 + cur)) mod 2 ^ 64 = 2 ^ 64 + cur - 1240"
      by (simp add: le_mod_geq)
    have "wsub (wsub cur 128) frame_size = (2 ^ 64 - 1112 + (2 ^ 64 - 128 + cur)) mod 2 ^ 64"
      unfolding wsub_def frame_sizes by (simp add: mod_simps)
    then have "wsub (wsub cur 128) frame_size = 2 ^ 64 + cur - 1240" using a by simp
    then show False using sp(2) by (simp add: frame_sp_def Let_def)
  qed
  then have "wsub (wsub cur 128) frame_size = cur - 1240" using assms(2) by (simp add: wsub_exact frame_sizes)
  then show "frame_sp cur + 1112 + 128 \<le> cur" using \<open>1240 \<le> cur\<close> by (simp add: frame_sp_def Let_def)
  show "wadd (frame_sp cur) 16 = frame_sp cur + 16" "wadd (frame_sp cur + 16) 128 = frame_sp cur + 144"
    using sp(2) by (simp_all add: wadd_def)
qed

lemma set_return_eq:
  "\<exists>m' ra. set_return self act sp pc (m, s) = (m', set_cx s self (tf_set RA ra (cx_of s self))) \<and> um_ctx m' = um_ctx m \<and>
     um_info m' = um_info m \<and> (0x1000 \<le> sa_restorer act \<longrightarrow> ra = sa_restorer act) \<and>
     (sa_restorer act < 0x1000 \<longrightarrow> translated s self sp \<longrightarrow> ra = sp \<and> um_tramp m' sp = trampoline_code)"
  by (auto simp: set_return_def)

lemma signal_frame_Entered:
  assumes "signal_frame ops sc alive self signal act (m, s) = Some (Entered (m', s') tm cx uc)"
    and "tf_ok (cx_of s self)" "tf_get (cx_of s self) SP < 2 ^ 64"
  shows "tm = ss_sigmask (tcb_of s self)" "cx = cx_of s self" "ss_sigmask (tcb_of s' self) = sa_mask act"
    "tf_get (cx_of s' self) SEPC = sa_handler act" "tf_get (cx_of s' self) ARG0 = sig_num signal"
    "tf_get (cx_of s' self) SP mod 16 = 0" "tf_get (cx_of s' self) SP + frame_size + 128 \<le> tf_get (cx_of s self) SP"
    "tf_get (cx_of s' self) ARG1 = tf_get (cx_of s' self) SP + 16" "tf_get (cx_of s' self) ARG2 = uc"
    "uc = tf_get (cx_of s' self) SP + 144"
    "uc_gregs (um_ctx m' uc) = tf_x (cx_of s self)" "uc_pc (um_ctx m' uc) = tf_sepc (cx_of s self)"
    "si_signo (um_info m' (tf_get (cx_of s' self) ARG1)) = of_nat (sig_num signal)"
    "0x1000 \<le> sa_restorer act \<longrightarrow> tf_get (cx_of s' self) RA = sa_restorer act"
    "pcb_of s' = pcb_of s" "translated s' = translated s" "tf_ok (cx_of s' self)"
proof -
  let ?cur = "tf_get (cx_of s self) SP"
  let ?sp = "frame_sp ?cur"
  let ?s = "set_tcb s self ((tcb_of s self)\<lparr>ss_sigmask := sa_mask act\<rparr>)"
  have st: "stack_ok (pc_vm (pcb_of s self)) ?cur ?sp"
    using assms(1) by (auto simp: signal_frame_def Let_def split: if_splits)
  note w = stack_ok_sp [OF st assms(3)]
  define s1 where "s1 = set_cx ?s self (tf_set SEPC (sa_handler act) (tf_set SP ?sp (cx_of s self)))"
  define m1 where "m1 = m\<lparr>um_info := (um_info m)(?sp + 16 := sig_info_default\<lparr>si_signo := of_nat (sig_num signal)\<rparr>)\<rparr>"
  define u1 where "u1 = (store_ctx (cx_of s self) (um_ctx m1 (?sp + 144)))\<lparr>uc_pc := tf_get (cx_of s self) SEPC, uc_sig_mask := sa_mask act\<rparr>"
  define m2 where "m2 = m1\<lparr>um_ctx := (um_ctx m1)(?sp + 144 := u1)\<rparr>"
  obtain m3 ra where r: "set_return self act ?sp (tf_get (cx_of s self) SEPC) (m2, s1) =
        (m3, set_cx s1 self (tf_set RA ra (cx_of s1 self)))" "um_ctx m3 = um_ctx m2" "um_info m3 = um_info m2"
      "0x1000 \<le> sa_restorer act \<longrightarrow> ra = sa_restorer act"
    using set_return_eq by blast
  let ?cx = "tf_set ARG2 (?sp + 144) (tf_set ARG1 (?sp + 16) (tf_set ARG0 (sig_num signal) (tf_set RA ra (cx_of s1 self))))"
  have "Some (Entered (m', s') tm cx uc) =
      Some (Entered (m3, set_cx (set_cx s1 self (tf_set RA ra (cx_of s1 self))) self ?cx)
        (ss_sigmask (tcb_of s self)) (cx_of s self) (?sp + 144))"
    using assms(1) unfolding signal_frame_def Let_def prod.case frame_sizes(2) w(4,5)
      s1_def [symmetric] m1_def [symmetric] u1_def [symmetric] m2_def [symmetric] r(1)
    by (auto split: if_splits)
  then have e: "m' = m3" "tm = ss_sigmask (tcb_of s self)" "cx = cx_of s self" "uc = ?sp + 144"
      "s' = set_cx (set_cx s1 self (tf_set RA ra (cx_of s1 self))) self ?cx"
    by simp_all
  have ok: "tf_ok (cx_of s1 self)" using assms(2) by (simp add: s1_def)
  have g: "tf_get (cx_of s' self) b = tf_get ?cx b" for b by (simp add: e(5))
  show "tm = ss_sigmask (tcb_of s self)" "cx = cx_of s self" by (fact e)+
  show "ss_sigmask (tcb_of s' self) = sa_mask act" by (simp add: e(5) s1_def)
  show sp: "tf_get (cx_of s' self) SEPC = sa_handler act" "tf_get (cx_of s' self) ARG0 = sig_num signal"
      "tf_get (cx_of s' self) ARG2 = uc" "0x1000 \<le> sa_restorer act \<longrightarrow> tf_get (cx_of s' self) RA = sa_restorer act"
    unfolding g using ok assms(2) r(4) by (simp_all add: tf_get_set s1_def e(4))
  have sp': "tf_get (cx_of s' self) SP = ?sp" unfolding g using ok assms(2) by (simp add: tf_get_set s1_def)
  have a1: "tf_get (cx_of s' self) ARG1 = ?sp + 16" unfolding g using ok by (simp add: tf_get_set)
  show "tf_get (cx_of s' self) SP mod 16 = 0" "tf_get (cx_of s' self) SP + frame_size + 128 \<le> ?cur"
      "tf_get (cx_of s' self) ARG1 = tf_get (cx_of s' self) SP + 16" "uc = tf_get (cx_of s' self) SP + 144"
    using w by (simp_all add: sp' a1 e(4) frame_sizes)
  show "uc_gregs (um_ctx m' uc) = tf_x (cx_of s self)" "uc_pc (um_ctx m' uc) = tf_sepc (cx_of s self)"
    by (simp_all add: e r(2) m2_def u1_def store_ctx_def tf_get_def)
  show "si_signo (um_info m' (tf_get (cx_of s' self) ARG1)) = of_nat (sig_num signal)"
    unfolding a1 by (simp add: e(1) r(3) m2_def m1_def)
  show "pcb_of s' = pcb_of s" "translated s' = translated s" by (simp_all add: e(5) s1_def)
  show "tf_ok (cx_of s' self)" using ok by (simp add: e(5))
qed

lemma signal_enter_Entered:
  assumes "signal_enter ops sc alive self signal (m, s) = Some (Entered u tm cx uc)" "signal \<noteq> SIGKILL"
  shows "\<exists>act. vec_get (pc_sigaction (pcb_of s self)) (sig_num signal) = Some act \<and>
    signal_frame ops sc alive self signal act (m, s) = Some (Entered u tm cx uc) \<and>
    exec_area (pc_vm (pcb_of s self)) (sa_handler act)"
  using assms by (auto simp: signal_enter_def bind_eq_Some_conv split: if_splits)

text \<open>C11: how a handler starts.  The frame is on the user stack, aligned to 16 bytes and below the
  128 bytes under the stack pointer, also for a small stack pointer, where the subtraction wraps.  The
  program counter is the handler, its arguments are the number of the signal and the addresses of the
  information and the context, which holds every register and the program counter of the interrupted
  program.  The mask is the one of the action.\<close>

theorem handler_entry:
  assumes "signal_enter ops sc alive self signal (m, s) = Some (Entered (m', s') tm cx uc)" "signal \<noteq> SIGKILL"
    and "tf_ok (cx_of s self)" "tf_get (cx_of s self) SP < 2 ^ 64"
  shows "let act = pc_sigaction (pcb_of s self) ! sig_num signal; old = cx_of s self; new = cx_of s' self in
    tf_get new SEPC = sa_handler act \<and> exec_area (pc_vm (pcb_of s self)) (sa_handler act) \<and>
    tf_get new SP mod 16 = 0 \<and> tf_get new SP + frame_size + 128 \<le> tf_get old SP \<and>
    tf_get new ARG0 = sig_num signal \<and> tf_get new ARG1 = tf_get new SP + 16 \<and> tf_get new ARG2 = uc \<and>
    uc = tf_get new SP + 144 \<and> si_signo (um_info m' (tf_get new ARG1)) = of_nat (sig_num signal) \<and>
    uc_gregs (um_ctx m' uc) = tf_x old \<and> uc_pc (um_ctx m' uc) = tf_sepc old \<and>
    ss_sigmask (tcb_of s' self) = sa_mask act \<and> tm = ss_sigmask (tcb_of s self) \<and>
    (0x1000 \<le> sa_restorer act \<longrightarrow> tf_get new RA = sa_restorer act)"
proof -
  obtain act where a: "vec_get (pc_sigaction (pcb_of s self)) (sig_num signal) = Some act"
      "signal_frame ops sc alive self signal act (m, s) = Some (Entered (m', s') tm cx uc)"
      "exec_area (pc_vm (pcb_of s self)) (sa_handler act)"
    using signal_enter_Entered [OF assms(1,2)] by blast
  have "act = pc_sigaction (pcb_of s self) ! sig_num signal" using a(1) by (auto simp: vec_get_def split: if_splits)
  then show ?thesis using signal_frame_Entered [OF a(2) assms(3,4)] a(3) by (simp add: Let_def)
qed

lemma sys_sigreturn_total:
  "\<exists>s' r. sys_sigreturn self (m, s) = ((m, s'), r) \<and> r \<noteq> Panic \<and> pcb_of s' = pcb_of s"
  by (cases "tf_get (cx_of s self) SP < 0x1000 \<or> tf_get (cx_of s self) SP \<ge> 0x800000000000";
      cases "translated s self (wadd (wadd (tf_get (cx_of s self) SP) 16) sizeof_sig_info)")
    (simp_all add: sys_sigreturn_def Let_def)

lemma handler_loop_sigreturn:
  assumes "exit_code_of (snd u) self = None" "user u = (u2, SysCall)" "tf_get (cx_of (snd u2) self) SYSCALL = 139"
  shows "\<exists>s3. handler_loop user sysc self u = Some (fst u2, s3) \<and> pcb_of s3 = pcb_of (snd u2)"
proof -
  obtain m2 s2 where u2: "u2 = (m2, s2)" by (cases u2)
  obtain s3 r where r: "sys_sigreturn self (m2, s2) = ((m2, s3), r)" "r \<noteq> Panic" "pcb_of s3 = pcb_of s2"
    using sys_sigreturn_total by blast
  from r(2) obtain v where "sys_ret r = Some v" by (cases r) auto
  then have "handle_syscall user sysc self u = Some ((m2, set_cx s3 self (tf_set RET v (cx_of s3 self))), Break)"
    using assms(2,3) r(1) by (simp add: handle_syscall_def u2 Let_def)
  then show ?thesis using assms(1) r(3) by (subst handler_loop.simps) (simp add: u2)
qed


text \<open>C21: a signal whose handler has no room on the stack changes the mask for good.  The frame is
  refused and the handler does not run, but the thread goes on with the mask of the action.\<close>

theorem bad_stack_keeps_mask:
  assumes "vec_get (pc_sigaction (pcb_of s self)) (sig_num signal) = Some act"
    and "signal \<noteq> SIGKILL" "signal \<noteq> SIGTIMER" "signal \<noteq> SIGCHLD"
    and "0x10000 \<le> sa_handler act" "sa_handler act < 0x800000000000"
    and "exec_area (pc_vm (pcb_of s self)) (sa_handler act)"
    and "\<not> stack_ok (pc_vm (pcb_of s self)) (tf_get (cx_of s self) SP) (frame_sp (tf_get (cx_of s self) SP))"
  shows "\<exists>s'. handle_signal ops sc alive user sysc self signal (m, s) = Some (m, s') \<and>
    ss_sigmask (tcb_of s' self) = sa_mask act \<and> cx_of s' self = cx_of s self"
  using assms
  by (simp add: handle_signal_def signal_enter_def signal_frame_def Let_def cx_of_def)

section \<open>Death by signal\<close>

lemma fatal_not_special: "fatal_default signal \<Longrightarrow> signal \<noteq> SIGKILL"
  by (auto simp: fatal_default_def flag_bit_def)

lemma handle_signal_default:
  assumes "fatal_default signal" "vec_get (pc_sigaction (pcb_of s self)) (sig_num signal) = Some act" "sa_handler act = 0"
  shows "handle_signal ops sc alive user sysc self signal (m, s) =
    map_option (\<lambda>s. (m, s)) (exit_with_signal ops sc alive self (sig_num signal) s)"
  using assms fatal_not_special [OF assms(1)]
  by (cases "exit_with_signal ops sc alive self (sig_num signal) s")
    (simp_all add: handle_signal_def signal_enter_def default_action_def)

lemma sole_signal:
  assumes "n < 64" "\<not> bit w n"
  shows "try_get_signal (mask_signals (add_signal 0 (flag_bit n)) w) = Some (flag_bit n)"
proof -
  have "bit (mask_signals (add_signal 0 (flag_bit n)) w) = (\<lambda>i. i = n)"
    using assms by (auto simp: bit_mask_signals add_signal_def fun_eq_iff)
  moreover have "find (\<lambda>i. i = n) [0 ..< 64] = Some n" using assms(1) by (simp add: find_upt_Some)
  ultimately show ?thesis by (simp add: try_get_signal_find del: upt_rec_numeral)
qed


section \<open>A process with a handler\<close>

text \<open>Not part of the kernel: the first task with a page of stack and a handler for \<open>SIGUSR1\<close>.\<close>

definition demo_action :: sig_action where
  "demo_action = \<lparr> sa_handler = 0x20000, sa_flags = 0, sa_restorer = 0x20800, sa_mask = 1 \<rparr>"

definition demo_handled :: "usize \<Rightarrow> (ram_fs, inode) proc_sys" where
  "demo_handled sp = set_cx (set_pcb demo_sys 1 ((pcb_of demo_sys 1)\<lparr>
     pc_sigaction := (replicate 65 sig_action_new)[10 := demo_action],
     pc_vm := \<lparr> vm_pt = [0x7fffe000 \<mapsto> (0x90000000, URWX)],
       vm_areas = [\<lparr> ma_type = Mmap, ma_tracks = [], ma_file = None, ma_offset = 0, ma_start = 0x20000, ma_len = 0x1000 \<rparr>,
                   \<lparr> ma_type = Stack, ma_tracks = [], ma_file = None, ma_offset = 0, ma_start = 0x70000000, ma_len = 0x10000000 \<rparr>],
       vm_shms = [], vm_heap = 0 \<rparr>\<rparr>)) 1 (tf_set SP sp (tf_set SEPC 0x20100 trap_frame_new))"

definition demo_mem :: umem where
  "demo_mem = \<lparr> um_ctx = (\<lambda>_. \<lparr> uc_flags = 0, uc_link = 0, uc_stack = (0, 0, 0), uc_sig_mask = 0, uc_pad = replicate 16 0,
       uc_pc = 0, uc_gregs = replicate 32 0, uc_fpstate = replicate 66 0 \<rparr>),
     um_info = (\<lambda>_. sig_info_default), um_tramp = (\<lambda>_. replicate 4 0) \<rparr>"

lemma demo_handled_simps:
  "cx_of (demo_handled sp) 1 = tf_set SP sp (tf_set SEPC 0x20100 trap_frame_new)"
  "pc_sigaction (pcb_of (demo_handled sp) 1) = (replicate 65 sig_action_new)[10 := demo_action]"
  "pc_exit_code (pcb_of (demo_handled sp) 1) = None"
  "translated (demo_handled sp) 1 va \<longleftrightarrow> page_floor va = 0x7fffe000"
  "vm_areas (pc_vm (pcb_of (demo_handled sp) 1)) =
     [\<lparr> ma_type = Mmap, ma_tracks = [], ma_file = None, ma_offset = 0, ma_start = 0x20000, ma_len = 0x1000 \<rparr>,
      \<lparr> ma_type = Stack, ma_tracks = [], ma_file = None, ma_offset = 0, ma_start = 0x70000000, ma_len = 0x10000000 \<rparr>]"
  by (simp_all add: demo_handled_def translated_def pcb_of_def demo_sys_eq task_of_def set_pcb_def set_cx_def set_tcb_def
      cx_of_def tcb_of_def pcb_new_def)

lemma demo_cx: "tf_ok (tf_set SP sp (tf_set SEPC 0x20100 trap_frame_new))"
  "tf_get (tf_set SP sp (tf_set SEPC 0x20100 trap_frame_new)) SP = sp"
  "tf_sepc (tf_set SP sp (tf_set SEPC 0x20100 trap_frame_new)) = 0x20100"
  by (simp_all add: tf_get_set) (simp add: tf_set_def)

lemma demo_enter:
  "\<exists>m' s'. signal_enter ram_ops (\<lambda>_. 1) (\<lambda>t. t = 1) 1 SIGUSR1 (demo_mem, demo_handled 0x7fffef00) =
     Some (Entered (m', s') 0 (cx_of (demo_handled 0x7fffef00) 1) 0x7fffeab0)"
proof -
  have n: "sig_num SIGUSR1 = 10" using sig_num_push [of 9] by simp
  have ne: "SIGUSR1 \<noteq> SIGKILL" "SIGUSR1 \<noteq> SIGTIMER" "SIGUSR1 \<noteq> SIGCHLD" by (simp_all add: flag_bit_def)
  have a: "vec_get (pc_sigaction (pcb_of (demo_handled 0x7fffef00) 1)) 10 = Some demo_action"
    unfolding demo_handled_simps by (simp add: vec_get_def)
  have f: "frame_sp 0x7fffef00 = 0x7fffea20" by (simp add: frame_sp_def wsub_def frame_sizes)
  have s: "stack_ok (pc_vm (pcb_of (demo_handled 0x7fffef00) 1)) 0x7fffef00 0x7fffea20"
    unfolding stack_ok_def demo_handled_simps by (simp add: ma_contains_def wadd_def frame_sizes Let_def)
  have x: "exec_area (pc_vm (pcb_of (demo_handled 0x7fffef00) 1)) 0x20000" "exec_area (pc_vm (pcb_of (demo_handled 0x7fffef00) 1)) 0x20800"
    unfolding exec_area_def demo_handled_simps by (simp_all add: ma_contains_def wadd_def)
  have t: "translated (demo_handled 0x7fffef00) 1 0x7fffea30" "translated (demo_handled 0x7fffef00) 1 0x7fffeab0"
    unfolding demo_handled_simps by (simp_all add: page_floor_def)
  have w: "wadd 0x7fffea20 16 = 0x7fffea30" "wadd 0x7fffea30 128 = 0x7fffeab0" by (simp_all add: wadd_def)
  have c: "tf_get (cx_of (demo_handled 0x7fffef00) 1) SP = 0x7fffef00" unfolding demo_handled_simps demo_cx ..
  have h: "sa_handler demo_action = 0x20000" "sa_restorer demo_action = 0x20800" by (simp_all add: demo_action_def)
  have m: "ss_sigmask (tcb_of (demo_handled 0x7fffef00) 1) = 0"
    by (simp add: demo_handled_def demo_sys_eq tcb_of_def task_of_def set_pcb_def set_cx_def set_tcb_def tcb_new_def)
  show ?thesis
    unfolding signal_enter_def signal_frame_def prod.case n Let_def frame_sizes
    using ne a s x t f h m c
    by (simp add: w set_return_def del: One_nat_def)
qed

lemma demo_user: "SIGUSR1 \<noteq> SIGKILL" "tf_ok (cx_of (demo_handled sp) 1)" "tf_get (cx_of (demo_handled sp) 1) SP = sp"
  "0x10000 \<le> tf_sepc (cx_of (demo_handled sp) 1)" "tf_sepc (cx_of (demo_handled sp) 1) < 0x800000000000"
  unfolding demo_handled_simps demo_cx by (simp_all add: flag_bit_def)

theorem handler_entry_witness:
  "\<exists>m' s'. signal_enter ram_ops (\<lambda>_. 1) (\<lambda>t. t = 1) 1 SIGUSR1 (demo_mem, demo_handled 0x7fffef00) =
     Some (Entered (m', s') 0 (cx_of (demo_handled 0x7fffef00) 1) 0x7fffeab0) \<and>
     tf_get (cx_of s' 1) SP = 0x7fffea20 \<and> uc_pc (um_ctx m' 0x7fffeab0) = 0x20100"
proof -
  obtain m' s' where e: "signal_enter ram_ops (\<lambda>_. 1) (\<lambda>t. t = 1) 1 SIGUSR1 (demo_mem, demo_handled 0x7fffef00) =
     Some (Entered (m', s') 0 (cx_of (demo_handled 0x7fffef00) 1) 0x7fffeab0)" using demo_enter by blast
  have sp: "tf_get (cx_of (demo_handled 0x7fffef00) 1) SP < 2 ^ 64" unfolding demo_user by simp
  show ?thesis
    using handler_entry [OF e demo_user(1,2) sp] e unfolding Let_def demo_handled_simps demo_cx by simp
qed


theorem bad_stack_keeps_mask_witness:
  "\<exists>s'. handle_signal ram_ops (\<lambda>_. 1) (\<lambda>t. t = 1) (\<lambda>u. (u, SysCall)) (\<lambda>_ _ u. (u, Ok 0)) 1 SIGUSR1
       (demo_mem, demo_handled 0x100) = Some (demo_mem, s') \<and> ss_sigmask (tcb_of s' 1) = 1"
proof -
  have "sig_num SIGUSR1 = 10" using sig_num_push [of 9] by simp
  then have a: "vec_get (pc_sigaction (pcb_of (demo_handled 0x100) 1)) (sig_num SIGUSR1) = Some demo_action"
    unfolding demo_handled_simps by (simp add: vec_get_def)
  have ne: "SIGUSR1 \<noteq> SIGKILL" "SIGUSR1 \<noteq> SIGTIMER" "SIGUSR1 \<noteq> SIGCHLD" by (simp_all add: flag_bit_def)
  have h: "0x10000 \<le> sa_handler demo_action" "sa_handler demo_action < 0x800000000000" "sa_mask demo_action = 1"
    by (simp_all add: demo_action_def)
  have x: "exec_area (pc_vm (pcb_of (demo_handled 0x100) 1)) (sa_handler demo_action)"
    unfolding exec_area_def demo_handled_simps by (simp add: ma_contains_def wadd_def demo_action_def)
  have "\<not> stack_ok (pc_vm (pcb_of (demo_handled 0x100) 1)) (tf_get (cx_of (demo_handled 0x100) 1) SP)
      (frame_sp (tf_get (cx_of (demo_handled 0x100) 1) SP))"
    unfolding demo_user by (simp add: stack_ok_def frame_sp_def wsub_def frame_sizes Let_def)
  from bad_stack_keeps_mask [OF a ne h(1,2) x this, unfolded h(3)] show ?thesis by blast
qed

definition demo_forked :: "(ram_fs, inode) proc_sys" where
  "demo_forked = fst (the (sys_clone ram_ops [([], IDir 0)] (\<lambda>t. t \<in> {1, 2}) 1 demo_sys 17 0 0 0 0))"

lemma demo_forked_eq:
  "sys_clone ram_ops [([], IDir 0)] (\<lambda>t. t \<in> {1, 2}) 1 demo_sys 17 0 0 0 0 = Some (demo_forked, Ok 2)"
  "ss_signal (tcb_of demo_forked 2) = 0" "ss_sigmask (tcb_of demo_forked 2) = 0"
  "pc_sigaction (pcb_of demo_forked 2) = replicate 65 sig_action_new"
  unfolding demo_forked_def demo_sys_eq
  by (simp_all add: sys_clone_def has_flag_def cow_fork_def user_task_new_def Let_def pcb_of_def task_of_def tty_open
      demo_open_def pcb_new_def shm_init_def set_pcb_def set_tcb_def tcb_of_def clone_tcb_def wadd_def tcb_new_def)

lemma demo_forked_dies:
  "\<exists>s2. exit_with_signal ram_ops (\<lambda>_. 1) (\<lambda>t. t \<in> {1, 2}) 2 15 (set_tcb demo_forked 2 (kill_signal (tcb_of demo_forked 2) 15)) = Some s2"
  unfolding demo_forked_def demo_sys_eq
  by (simp add: sys_clone_def has_flag_def cow_fork_def user_task_new_def Let_def pcb_of_def task_of_def tty_open
      demo_open_def pcb_new_def shm_init_def set_pcb_def set_tcb_def tcb_of_def clone_tcb_def wadd_def tcb_new_def
      kill_signal_def exit_with_signal_def task_exit_def clear_child_def leave_threads_def cleanup_process_def
      memset_clear_def drop_frames_def)


end
