(* ===== verification/Faults.thy ===== *)
theory Faults
  imports UserSignal
begin

unbundle bit_operations_syntax

text \<open>
  Page faults and illegal instructions of user code: \<open>user_cow_int\<close> and \<open>task_ilegal\<close> of
  \<open>user/mod.rs\<close>, \<open>get_elf_segment_for_addr\<close> of \<open>tasks/task.rs\<close> and \<open>kernel_interrupt\<close> of
  \<open>main.rs\<close>.  A fault inside an area is \<open>area_fault\<close> of the theory AddrSpace; outside all areas the
  handler goes by fixed ranges of addresses.  The diagnostic output is left out.
\<close>

abbreviation SIGSEGV :: u64 where "SIGSEGV \<equiv> flag_bit 10"
abbreviation SIGILL :: u64 where "SIGILL \<equiv> flag_bit 3"

definition add_sig :: "usize \<Rightarrow> u64 \<Rightarrow> ('s, 'n) proc_sys \<Rightarrow> ('s, 'n) proc_sys" where
  "add_sig self f s = set_tcb s self ((tcb_of s self)\<lparr>ss_signal := add_signal (ss_signal (tcb_of s self)) f\<rparr>)"

definition set_vm :: "usize \<Rightarrow> phys \<times> 's \<Rightarrow> 'n vm \<Rightarrow> ('s, 'n) proc_sys \<Rightarrow> ('s, 'n) proc_sys" where
  "set_vm self w vm s = set_pcb (s\<lparr>ps_world := w\<rparr>) self ((pcb_of s self)\<lparr>pc_vm := vm\<rparr>)"

text \<open>The task's own \<open>frame_alloc\<close>, which adds an area and maps it.\<close>

definition fault_alloc ::
  "usize \<Rightarrow> usize \<Rightarrow> mem_type \<Rightarrow> usize \<Rightarrow> ('s, 'n) proc_sys \<Rightarrow> (('s, 'n) proc_sys \<times> usize option) run" where
  "fault_alloc self va ty n s =
     do { (ph, vm, r) \<leftarrow> user_frame_alloc (fst (ps_world s)) (pc_vm (pcb_of s self)) va ty n;
          Some (set_vm self (ph, snd (ps_world s)) vm s, r) }"

section \<open>The file behind an address\<close>

text \<open>A gap between two areas is read from the file of the first one.\<close>

fun elf_gap :: "'n mem_area list \<Rightarrow> usize \<Rightarrow> ('n \<times> usize \<times> usize) option" where
  "elf_gap (current # next # ms) vaddr =
     (let gap_start = wadd (ma_start current) (ma_len current); gap_end = ma_start next
      in case ma_file current of
           Some f \<Rightarrow>
             if gap_end > gap_start \<and> vaddr \<ge> gap_start \<and> vaddr < gap_end
             then Some (f, wadd (ma_offset current) (wsub vaddr (ma_start current)), wsub gap_end gap_start)
             else elf_gap (next # ms) vaddr
         | None \<Rightarrow> elf_gap (next # ms) vaddr)"
| "elf_gap _ vaddr = None"

definition elf_segment :: "'n mem_area list \<Rightarrow> usize \<Rightarrow> ('n \<times> usize \<times> usize) option" where
  "elf_segment ms vaddr =
     (case elf_gap ms vaddr of
        Some r \<Rightarrow> Some r
      | None \<Rightarrow>
          (case find (\<lambda>a. ma_contains a vaddr \<and> ma_file a \<noteq> None) ms of
             None \<Rightarrow> None
           | Some a \<Rightarrow> map_option (\<lambda>f. (f, wadd (ma_offset a) (wsub (page_floor vaddr) (ma_start a)), ma_len a)) (ma_file a)))"

text \<open>Loading the page of an address from that file; the flag says that the handler returns.\<close>

definition elf_page ::
  "(phys \<times> 's, 'n) inode_ops \<Rightarrow> usize \<Rightarrow> usize \<Rightarrow> ('s, 'n) proc_sys \<Rightarrow> (('s, 'n) proc_sys \<times> bool) run" where
  "elf_page ops self vaddr s =
     (case elf_segment (vm_areas (pc_vm (pcb_of s self))) vaddr of
        None \<Rightarrow> Some (s, False)
      | Some (f, file_offset, _) \<Rightarrow>
          (case io_size ops (ps_world s) f of
             Panic \<Rightarrow> None
           | Err _ \<Rightarrow> Some (s, True)
           | Ok file_size \<Rightarrow>
               if file_offset \<ge> file_size then Some (s, True)
               else do { (s, r) \<leftarrow> fault_alloc self (page_floor vaddr) Mmap 1 s;
                         (case r of
                            None \<Rightarrow> Some (s, False)
                          | Some ppn \<Rightarrow>
                              (let read_size = min PAGE_SIZE (file_size - file_offset)
                               in if read_size > 0
                                  then case io_readat ops (ps_world s) f file_offset
                                              (frame_bytes (fst (ps_world s)) ppn read_size) of
                                         (w, b, res) \<Rightarrow>
                                           (let s = s\<lparr>ps_world := (store_page (fst w) ppn b, snd w)\<rparr>
                                            in case res of Ok _ \<Rightarrow> Some (s, True) | Err _ \<Rightarrow> Some (s, False) | Panic \<Rightarrow> None)
                                  else Some (s, False))) }))"

section \<open>Faults\<close>

text \<open>The two static counters of the thread-local range.\<close>

record tls_guard =
  tg_last :: usize
  tg_count :: usize

text \<open>A page from the file when there is one, else a blank one.\<close>

definition elf_or_blank ::
  "(phys \<times> 's, 'n) inode_ops \<Rightarrow> usize \<Rightarrow> usize \<Rightarrow> ('s, 'n) proc_sys \<Rightarrow> ('s, 'n) proc_sys run" where
  "elf_or_blank ops self vaddr s =
     do { (s, returned) \<leftarrow> elf_page ops self vaddr s;
          (if returned then Some s
           else do { (s, r) \<leftarrow> fault_alloc self (page_floor vaddr) Mmap 1 s;
                     Some (if r \<noteq> None then s else add_sig self SIGSEGV s) }) }"

definition tls_fault ::
  "(phys \<times> 's, 'n) inode_ops \<Rightarrow> (usize \<Rightarrow> nat) \<Rightarrow> (usize \<Rightarrow> bool) \<Rightarrow> usize \<Rightarrow> usize \<Rightarrow> tls_guard \<times> ('s, 'n) proc_sys
   \<Rightarrow> (tls_guard \<times> ('s, 'n) proc_sys) run" where
  "tls_fault ops sc alive self vaddr gs =
     (case gs of (g, s) \<Rightarrow>
      let g' = (if tg_last g = page_floor vaddr then g\<lparr>tg_count := wadd (tg_count g) 1\<rparr>
                else \<lparr> tg_last = page_floor vaddr, tg_count = 1 \<rparr>)
      in if tg_last g = page_floor vaddr \<and> tg_count g' > 3
         then do { s \<leftarrow> task_exit ops sc alive self 1 s; Some (g', s) }
         else do { (s, r) \<leftarrow> fault_alloc self (page_floor vaddr) Mmap 1 s;
                   (case r of
                      Some ppn \<Rightarrow>
                        Some (g'\<lparr>tg_count := 0\<rparr>,
                              s\<lparr>ps_world := (store_page (fst (ps_world s)) ppn (replicate PAGE_SIZE 0), snd (ps_world s))\<rparr>)
                    | None \<Rightarrow> Some (g', add_sig self SIGSEGV s)) })"

definition null_fault ::
  "(phys \<times> 's, 'n) inode_ops \<Rightarrow> (usize \<Rightarrow> nat) \<Rightarrow> (usize \<Rightarrow> bool) \<Rightarrow> usize \<Rightarrow> ('s, 'n) proc_sys
   \<Rightarrow> ('s, 'n) proc_sys run" where
  "null_fault ops sc alive self s =
     (if \<not> has_sig (ss_signal (tcb_of s self)) SIGSEGV then Some (add_sig self SIGSEGV s)
      else do { s \<leftarrow> task_exit ops sc alive self (128 + sig_num SIGSEGV) s;
                Some (set_pcb s self ((pcb_of s self)\<lparr>pc_exit_code := Some (128 + sig_num SIGSEGV)\<rparr>)) })"

definition fault_outside ::
  "(phys \<times> 's, 'n) inode_ops \<Rightarrow> (usize \<Rightarrow> nat) \<Rightarrow> (usize \<Rightarrow> bool) \<Rightarrow> usize \<Rightarrow> usize \<Rightarrow> tls_guard \<times> ('s, 'n) proc_sys
   \<Rightarrow> (tls_guard \<times> ('s, 'n) proc_sys) run" where
  "fault_outside ops sc alive self vaddr gs =
     (case gs of (g, s) \<Rightarrow>
      do { (s, returned) \<leftarrow> (if vaddr \<ge> 0x70000000 \<and> vaddr < 0x80000000
                         then map_option (\<lambda>(s, r). (s, r \<noteq> None)) (fault_alloc self (page_floor vaddr) Stack 1 s)
                         else Some (s, False));
           (if returned then Some (g, s)
            else if vaddr < 0x1000 then map_option (\<lambda>s. (g, s)) (null_fault ops sc alive self s)
            else if vaddr \<ge> 0x10000 \<and> vaddr < 0x100000 then map_option (\<lambda>s. (g, s)) (elf_or_blank ops self vaddr s)
            else if vaddr \<ge> 0x1000000 \<and> vaddr < 0x2000000
            then do { (s, r) \<leftarrow> fault_alloc self (page_floor vaddr) Mmap 12 s;
                      Some (g, if r \<noteq> None then s else add_sig self SIGSEGV s) }
            else if vaddr \<ge> 0x200000000 \<and> vaddr < 0x300000000 then tls_fault ops sc alive self vaddr (g, s)
            else if vaddr \<ge> 0x200a0000 \<and> vaddr < 0x300b0000 then map_option (\<lambda>s. (g, s)) (elf_or_blank ops self vaddr s)
            else Some (g, add_sig self SIGSEGV s)) })"

definition user_cow_int ::
  "(phys \<times> 's, 'n) inode_ops \<Rightarrow> (usize \<Rightarrow> nat) \<Rightarrow> (usize \<Rightarrow> bool) \<Rightarrow> usize \<Rightarrow> usize \<Rightarrow> tls_guard \<times> ('s, 'n) proc_sys
   \<Rightarrow> (tls_guard \<times> ('s, 'n) proc_sys) run" where
  "user_cow_int ops sc alive self vaddr gs =
     (case gs of (g, s) \<Rightarrow>
      case area_fault ops sc (ps_world s) (pc_vm (pcb_of s self)) vaddr of
        Some r \<Rightarrow>
          do { (w, vm, ok) \<leftarrow> r;
               (let s = set_vm self w vm s in Some (g, if ok then s else add_sig self SIGSEGV s)) }
      | None \<Rightarrow> fault_outside ops sc alive self vaddr (g, s))"

section \<open>Traps\<close>

text \<open>An illegal instruction in a page of an area is skipped, else it is \<open>SIGILL\<close>.\<close>

definition task_ilegal :: "usize \<Rightarrow> usize \<Rightarrow> ('s, 'n) proc_sys \<Rightarrow> ('s, 'n) proc_sys" where
  "task_ilegal self vaddr s =
     (case find (\<lambda>a. ma_contains a vaddr) (vm_areas (pc_vm (pcb_of s self))) of
        Some a \<Rightarrow>
          (case find (\<lambda>t. mt_vaddr t = vaddr) (ma_tracks a) of
             Some _ \<Rightarrow> set_cx s self (tf_set SEPC (wadd (tf_get (cx_of s self) SEPC) 2) (cx_of s self))
           | None \<Rightarrow> add_sig self SIGILL s)
      | None \<Rightarrow> add_sig self SIGILL s)"

datatype trap_type = Breakpoint | TrapSysCall | TrapTimer | TrapUnknown | SupervisorExternal
  | StorePageFault usize | LoadPageFault usize | InstructionPageFault usize | IllegalInstruction usize | Irq usize

abbreviation VIRT_ADDR_START :: usize where "VIRT_ADDR_START \<equiv> 0xffffffc000000000"

text \<open>\<open>current\<close> is the running task when it is a user task; an external interrupt goes to the devices.\<close>

fun kernel_interrupt ::
  "(phys \<times> 's, 'n) inode_ops \<Rightarrow> (usize \<Rightarrow> nat) \<Rightarrow> (usize \<Rightarrow> bool) \<Rightarrow> usize option \<Rightarrow> trap_type
   \<Rightarrow> tls_guard \<times> ('s, 'n) proc_sys \<Rightarrow> (tls_guard \<times> ('s, 'n) proc_sys) run"
and page_fault ::
  "(phys \<times> 's, 'n) inode_ops \<Rightarrow> (usize \<Rightarrow> nat) \<Rightarrow> (usize \<Rightarrow> bool) \<Rightarrow> usize option \<Rightarrow> usize
   \<Rightarrow> tls_guard \<times> ('s, 'n) proc_sys \<Rightarrow> (tls_guard \<times> ('s, 'n) proc_sys) run" where
  "kernel_interrupt ops sc alive current (StorePageFault addr) gs = page_fault ops sc alive current addr gs"
| "kernel_interrupt ops sc alive current (InstructionPageFault addr) gs = page_fault ops sc alive current addr gs"
| "kernel_interrupt ops sc alive current (LoadPageFault addr) gs = page_fault ops sc alive current addr gs"
| "kernel_interrupt ops sc alive current (IllegalInstruction addr) gs =
     (if addr > VIRT_ADDR_START then Some gs
      else (case current of
              None \<Rightarrow> None
            | Some self \<Rightarrow>
                (case gs of (g, s) \<Rightarrow> Some (g, task_ilegal self (tf_get (cx_of s self) SEPC) s))))"
| "kernel_interrupt ops sc alive current _ gs = Some gs"
| "page_fault ops sc alive current addr gs =
     (if addr > VIRT_ADDR_START then None
      else (case current of None \<Rightarrow> None | Some self \<Rightarrow> user_cow_int ops sc alive self addr gs))"

section \<open>A fault ends in a page or a signal\<close>

lemma map_tracks_maps:
  "map_tracks vm ts fl = Some vm' \<Longrightarrow> v \<in> dom (vm_pt vm) \<or> (\<exists>t\<in>set ts. mt_vaddr t = v \<and> v \<noteq> 0) \<Longrightarrow> v \<in> dom (vm_pt vm')"
proof (induction ts arbitrary: vm)
  case (Cons t ts)
  show ?case
  proof (cases "mt_vaddr t = 0")
    case True
    then show ?thesis using Cons.prems by (intro Cons.IH [of vm]) auto
  next
    case False
    let ?vm = "vm\<lparr>vm_pt := (vm_pt vm)(mt_vaddr t \<mapsto> (mt_frame t, fl))\<rparr>"
    have "map_tracks ?vm ts fl = Some vm'"
      using Cons.prems(1) False by (auto simp: bind_eq_Some_conv user_map_def split: if_splits)
    moreover have "v \<in> dom (vm_pt ?vm) \<or> (\<exists>t\<in>set ts. mt_vaddr t = v \<and> v \<noteq> 0)" using Cons.prems(2) by auto
    ultimately show ?thesis by (rule Cons.IH)
  qed
qed simp

lemma tracks_at_hd: "v \<noteq> 0 \<Longrightarrow> v < 2 ^ 64 \<Longrightarrow> ps \<noteq> [] \<Longrightarrow> \<exists>t\<in>set (tracks_at v ps). mt_vaddr t = v \<and> v \<noteq> 0"
  by (cases ps) (auto simp: tracks_at_def wadd_def wmul_def)

lemma map_frames_maps:
  assumes "map_frames ph vm va ty n mf off st ln fl = Some (ph', vm', Some p)" "va \<noteq> 0" "va < 2 ^ 64"
  shows "va \<in> dom (vm_pt vm')"
proof -
  obtain ph1 r where f: "frame_alloc_much ph n = Some (ph1, r)"
    using assms(1) by (auto simp: map_frames_def bind_eq_Some_conv split: if_splits)
  then obtain ps where r: "r = Some ps"
    using assms(1) by (cases r) (auto simp: map_frames_def split: if_splits)
  have e: "tracks_at va [] = []" by (simp add: tracks_at_def)
  obtain vm1 where 1: "map_tracks vm (tracks_at va ps) fl = Some vm1" "vm_pt vm' = vm_pt vm1" "ps \<noteq> []"
    using assms(1,2) unfolding map_frames_def f r
    by (cases "ps = []") (auto simp: bind_eq_Some_conv Let_def vec_get_def push_area_def e split: if_splits)
  then show ?thesis using map_tracks_maps [OF 1(1)] tracks_at_hd [OF assms(2,3) 1(3)] by simp
qed

lemma user_frame_alloc_maps:
  assumes "user_frame_alloc ph vm va ty n = Some (ph', vm', Some p)" "va \<noteq> 0" "va + n * PAGE_SIZE < 2 ^ 64" "phys_ok ph"
  shows "va \<in> dom (vm_pt vm')"
proof -
  let ?fl = "if ty = ShareFile then URW else URWX"
  have va: "va < 2 ^ 64" using assms(3) by simp
  have fin: "va \<in> dom (vm_pt vm')"
    if b: "Option.bind (map_tracks vm ts ?fl) (\<lambda>vm. Some (ph1, push_area vm a, Some q)) = Some (ph', vm', Some p)"
      and c: "\<exists>t\<in>set ts. mt_vaddr t = va \<and> va \<noteq> 0" for ts ph1 a q
  proof -
    obtain vm1 where 1: "map_tracks vm ts ?fl = Some vm1" "vm_pt vm' = vm_pt vm1"
      using b by (auto simp: bind_eq_Some_conv push_area_def)
    show ?thesis using map_tracks_maps [OF 1(1)] c by (simp add: 1(2))
  qed
  show ?thesis
  proof (cases "ty = Mmap \<and> n > 1")
    case False
    then have "map_frames ph vm va ty n None 0 va (wmul n PAGE_SIZE) ?fl = Some (ph', vm', Some p)"
      using assms(1) by (auto simp: user_frame_alloc_def Let_def)
    then show ?thesis by (rule map_frames_maps [OF _ assms(2) va])
  next
    case True
    then obtain ph1 r where f: "frame_alloc_much ph n = Some (ph1, r)"
      using assms(1) by (auto simp: user_frame_alloc_def Let_def bind_eq_Some_conv)
    show ?thesis
    proof (cases r)
      case (Some ps)
      then obtain q where q: "vec_get ps 0 = Some q"
        using assms(1) True f by (auto simp: user_frame_alloc_def Let_def bind_eq_Some_conv)
      then have ps: "ps \<noteq> []" by (auto simp: vec_get_def split: if_splits)
      have "Option.bind (map_tracks vm (tracks_at va ps) ?fl) (\<lambda>vm. Some (ph1, push_area vm \<lparr>ma_type = ty,
          ma_tracks = tracks_at va ps, ma_file = None, ma_offset = 0, ma_start = va, ma_len = wmul n PAGE_SIZE\<rparr>, Some q)) =
          Some (ph', vm', Some p)"
        using assms(1,2) True f Some q by (simp add: user_frame_alloc_def Let_def)
      from fin [OF this tracks_at_hd [OF assms(2) va ps]] show ?thesis .
    next
      case None
      have ph1: "ph1 = ph" "phys_ok ph1" using frame_alloc_much_phys [OF assms(4), of n] True f None by auto
      obtain ph2 r2 where s: "seg_alloc ph n va [] = Some (ph2, r2)" "seg_result ph n va [] (ph2, r2)"
        using seg_alloc_spec [OF assms(4), of va n "[]"] assms(2,3) by auto
      have "r2 \<noteq> None" using assms(1) True f None s(1) ph1(1)
        by (cases r2) (simp_all add: user_frame_alloc_def Let_def)
      then obtain ts where ts: "r2 = Some ts" "map mt_vaddr ts = frame_run va n" using s(2) by (auto simp: seg_result_def)
      have "hd (frame_run va n) = va" "frame_run va n \<noteq> []" using True by (simp_all add: frame_run_def hd_map upt_rec)
      then obtain t ts' where t: "ts = t # ts'" "mt_vaddr t = va" using ts(2) by (cases ts) (metis list.simps(8), metis list.sel(1) list.simps(9))
      have "Option.bind (map_tracks vm ts ?fl) (\<lambda>vm. Some (ph2, push_area vm \<lparr>ma_type = ty,
          ma_tracks = ts, ma_file = None, ma_offset = 0, ma_start = va, ma_len = wmul n PAGE_SIZE\<rparr>, Some (mt_frame t))) =
          Some (ph', vm', Some p)"
        using assms(1,2) True f None s(1) ph1(1) ts(1) t(1) by (simp add: user_frame_alloc_def Let_def)
      from fin [OF this] t assms(2) show ?thesis by simp
    qed
  qed
qed

lemma set_vm_simps:
  assumes "proc_ok s" "self \<in> dom (ps_tasks s)"
  shows "pcb_of (set_vm self w vm s) self = (pcb_of s self)\<lparr>pc_vm := vm\<rparr>" "tcb_of (set_vm self w vm s) = tcb_of s"
    "proc_ok (set_vm self w vm s)" "ps_tasks (set_vm self w vm s) = ps_tasks s" "ps_world (set_vm self w vm s) = w"
proof -
  have l: "ut_pcb (task_of (s\<lparr>ps_world := w\<rparr>) self) < length (ps_pcbs (s\<lparr>ps_world := w\<rparr>))"
    using proc_ok_task(3) [OF assms] by simp
  show "pcb_of (set_vm self w vm s) self = (pcb_of s self)\<lparr>pc_vm := vm\<rparr>"
    unfolding set_vm_def pcb_of_set_pcb [OF l] by simp
  show "tcb_of (set_vm self w vm s) = tcb_of s" "ps_tasks (set_vm self w vm s) = ps_tasks s"
      "ps_world (set_vm self w vm s) = w" by (simp_all add: set_vm_def)
  have "shrinks (s\<lparr>ps_world := w\<rparr>) (set_vm self w vm s)"
    unfolding set_vm_def by (rule shrinks_set_pcb) simp_all
  then show "proc_ok (set_vm self w vm s)" using shrinks_ok(1) shrinks_trans [OF shrinks_fields(1)] assms(1) by blast
qed

lemma add_sig_simps [simp]:
  "pcb_of (add_sig self f s) = pcb_of s" "bit (ss_signal (tcb_of (add_sig self f s) self)) i \<longleftrightarrow> bit (ss_signal (tcb_of s self)) i \<or> bit f i"
  "translated (add_sig self f s) = translated s"
  by (simp_all add: add_sig_def add_signal_def bit_or_iff)

text \<open>The outcomes of a fault with which the user program does not fault at once again.\<close>

definition fault_settled :: "('s, 'n) proc_sys \<Rightarrow> usize \<Rightarrow> usize \<Rightarrow> bool" where
  "fault_settled s self vaddr \<longleftrightarrow>
     translated s self vaddr \<or> bit (ss_signal (tcb_of s self)) 10 \<or> exit_code_of s self \<noteq> None"

lemma fault_settled_sig [simp]: "fault_settled (add_sig self SIGSEGV s) self vaddr"
  by (simp add: fault_settled_def)

lemma fault_alloc_settles:
  assumes "fault_alloc self va ty n s = Some (s', r)" "proc_ok s" "self \<in> dom (ps_tasks s)" "phys_ok (fst (ps_world s))"
    and "va = page_floor vaddr" "va \<noteq> 0" "va + n * PAGE_SIZE < 2 ^ 64"
  shows "proc_ok s'" "self \<in> dom (ps_tasks s')" "tcb_of s' = tcb_of s" "pc_exit_code (pcb_of s' self) = pc_exit_code (pcb_of s self)"
    "r \<noteq> None \<Longrightarrow> translated s' self vaddr"
proof -
  obtain ph vm where a: "user_frame_alloc (fst (ps_world s)) (pc_vm (pcb_of s self)) va ty n = Some (ph, vm, r)"
      "s' = set_vm self (ph, snd (ps_world s)) vm s"
    using assms(1) by (auto simp: fault_alloc_def bind_eq_Some_conv)
  note v = set_vm_simps [OF assms(2,3)]
  show "proc_ok s'" "self \<in> dom (ps_tasks s')" "tcb_of s' = tcb_of s" "pc_exit_code (pcb_of s' self) = pc_exit_code (pcb_of s self)"
    using assms(3) by (simp_all add: a(2) v)
  show "translated s' self vaddr" if "r \<noteq> None"
    using that user_frame_alloc_maps [OF _ assms(6,7,4)] a(1) assms(5) unfolding translated_def a(2) v by force
qed

lemma task_exit_code:
  assumes "task_exit ops sc alive self code s = Some s'" "proc_ok s" "self \<in> dom (ps_tasks s)"
  shows "exit_code_of s' self = Some code"
proof -
  let ?a = "clear_child self s"
  let ?b = "set_pcb ?a self ((pcb_of ?a self)\<lparr>pc_exit_code := Some code\<rparr>)"
  let ?c = "leave_threads alive self ?b"
  have la: "ut_pcb (task_of ?a self) < length (ps_pcbs ?a)"
    using clear_child_keeps [OF assms(2,3)] proc_ok_task(3) [OF assms(2,3)] by auto
  then have lb: "ut_pcb (task_of ?b self) < length (ps_pcbs ?b)" by simp
  have c: "pc_exit_code (pcb_of ?c self) = Some code" "ut_pcb (task_of ?c self) < length (ps_pcbs ?c)"
    unfolding leave_threads_pcb [OF lb] pcb_of_set_pcb [OF la] using la by simp_all
  have "cleanup_process ops sc alive self code ?c = Some s'" using assms(1) by (simp add: task_exit_def Let_def)
  then consider "s' = ?c" | w vm where "s' = notify_parent alive self (set_pcb (?c\<lparr>ps_world := w\<rparr>) self
      ((pcb_of ?c self)\<lparr>pc_vm := vm, pc_fd_table := [], pc_children := [], pc_exit_code := Some code\<rparr>))"
    by (auto simp: cleanup_process_def Let_def bind_eq_Some_conv split: if_splits)
  then show ?thesis
  proof cases
    case 1
    then show ?thesis using c(1) by (simp add: exit_code_of_def)
  next
    case (2 w vm)
    have n: "pcb_of (notify_parent alive self u) = pcb_of u" for u :: "('a, 'b) proc_sys"
      by (simp add: notify_parent_def Let_def split: option.split)
    have l: "ut_pcb (task_of (?c\<lparr>ps_world := w\<rparr>) self) < length (ps_pcbs (?c\<lparr>ps_world := w\<rparr>))" using c(2) by simp
    show ?thesis unfolding 2 exit_code_of_def n pcb_of_set_pcb [OF l] by simp
  qed
qed

lemma area_fault_settles:
  assumes "area_fault ops sc (ps_world s) (pc_vm (pcb_of s self)) vaddr = Some (Some (w, vm, ok))"
    and "proc_ok s" "self \<in> dom (ps_tasks s)"
  shows "fault_settled (if ok then set_vm self w vm s else add_sig self SIGSEGV (set_vm self w vm s)) self vaddr"
proof (cases ok)
  case True
  then have "\<exists>vm0 p fl. user_map vm0 p (page_floor vaddr) fl = Some vm"
    using assms(1) by (auto simp: area_fault_def bind_eq_Some_conv Let_def split: option.splits)
  then have "vm_pt vm (page_floor vaddr) \<noteq> None" by (auto simp: user_map_def split: if_splits)
  then show ?thesis using True by (simp add: fault_settled_def translated_def set_vm_simps [OF assms(2,3)])
qed simp

lemma null_fault_settles:
  assumes "null_fault ops sc alive self s = Some s'" "proc_ok s" "self \<in> dom (ps_tasks s)"
  shows "fault_settled s' self vaddr"
proof (cases "has_sig (ss_signal (tcb_of s self)) SIGSEGV")
  case False
  then have "s' = add_sig self SIGSEGV s" using assms(1) by (simp add: null_fault_def)
  then show ?thesis by simp
next
  case True
  then obtain s1 where s1: "task_exit ops sc alive self (128 + sig_num SIGSEGV) s = Some s1"
      "s' = set_pcb s1 self ((pcb_of s1 self)\<lparr>pc_exit_code := Some (128 + sig_num SIGSEGV)\<rparr>)"
    using assms(1) by (auto simp: null_fault_def bind_eq_Some_conv)
  have "exit_code_of s' self \<noteq> None"
  proof (cases "ut_pcb (task_of s1 self) < length (ps_pcbs s1)")
    case True
    show ?thesis unfolding s1(2) exit_code_of_def pcb_of_set_pcb [OF True] by simp
  next
    case False
    then have "pcb_of s' self = pcb_of s1 self" by (simp add: s1(2) pcb_of_def list_update_beyond not_less)
    then show ?thesis using task_exit_code [OF s1(1) assms(2,3)] by (simp add: exit_code_of_def)
  qed
  then show ?thesis by (simp add: fault_settled_def)
qed

lemma alloc_or_sig_settles:
  assumes "fault_alloc self (page_floor vaddr) ty n s = Some (s1, r)" "proc_ok s" "self \<in> dom (ps_tasks s)"
    and "phys_ok (fst (ps_world s))" "PAGE_SIZE \<le> vaddr" "vaddr + n * PAGE_SIZE < 2 ^ 64"
  shows "fault_settled (if r \<noteq> None then s1 else add_sig self SIGSEGV s1) self vaddr"
proof -
  have "page_floor vaddr \<noteq> 0" "page_floor vaddr \<le> vaddr" using assms(5) by (simp_all add: page_floor_def div_eq_0_iff)
  then show ?thesis using fault_alloc_settles(5) [OF assms(1-4) refl] assms(6) by (auto simp: fault_settled_def)
qed

lemma tls_fault_settles:
  assumes "tls_fault ops sc alive self vaddr (g, s) = Some (g', s')" "proc_ok s" "self \<in> dom (ps_tasks s)"
    and "phys_ok (fst (ps_world s))" "PAGE_SIZE \<le> vaddr" "vaddr < 2 ^ 63"
  shows "fault_settled s' self vaddr"
proof -
  let ?g = "if tg_last g = page_floor vaddr then g\<lparr>tg_count := wadd (tg_count g) 1\<rparr> else \<lparr> tg_last = page_floor vaddr, tg_count = 1 \<rparr>"
  show ?thesis
  proof (cases "tg_last g = page_floor vaddr \<and> tg_count ?g > 3")
    case True
    then obtain s1 where "task_exit ops sc alive self 1 s = Some s1" "s' = s1"
      using assms(1) unfolding tls_fault_def prod.case Let_def by (auto simp: bind_eq_Some_conv)
    then show ?thesis using task_exit_code [OF _ assms(2,3)] by (simp add: fault_settled_def)
  next
    case False
    then obtain s1 r where s1: "fault_alloc self (page_floor vaddr) Mmap 1 s = Some (s1, r)"
        "(case r of Some ppn \<Rightarrow> s' = s1\<lparr>ps_world := (store_page (fst (ps_world s1)) ppn (replicate PAGE_SIZE 0), snd (ps_world s1))\<rparr>
            | None \<Rightarrow> s' = add_sig self SIGSEGV s1)"
      using assms(1) unfolding tls_fault_def prod.case Let_def if_not_P [OF False]
      by (cases "fault_alloc self (page_floor vaddr) Mmap 1 s") (auto split: option.splits)
    have "vaddr + 1 * PAGE_SIZE < 2 ^ 64" using assms(6) by simp
    note f = alloc_or_sig_settles [OF s1(1) assms(2-5) this]
    show ?thesis
      using f s1(2) by (cases r) (auto simp: fault_settled_def translated_def exit_code_of_def)
  qed
qed

text \<open>C13: a page fault of user code does not spin.  When no file lies behind the address, the handler
  leaves the page mapped, or \<open>SIGSEGV\<close> pending, or the process ended, for every address and also when
  memory runs out.\<close>

theorem fault_settles:
  assumes "user_cow_int ops sc alive self vaddr (g, s) = Some (g', s')" "proc_ok s" "self \<in> dom (ps_tasks s)"
    and "phys_ok (fst (ps_world s))" "vaddr < 2 ^ 63" "elf_segment (vm_areas (pc_vm (pcb_of s self))) vaddr = None"
  shows "fault_settled s' self vaddr"
proof (cases "area_fault ops sc (ps_world s) (pc_vm (pcb_of s self)) vaddr")
  case (Some r)
  then obtain w vm ok where "r = Some (w, vm, ok)" "s' = (if ok then set_vm self w vm s else add_sig self SIGSEGV (set_vm self w vm s))"
    using assms(1) by (cases r) (auto simp: user_cow_int_def Let_def)
  then show ?thesis using area_fault_settles [OF _ assms(2,3)] Some by simp
next
  case None
  then have o: "fault_outside ops sc alive self vaddr (g, s) = Some (g', s')" using assms(1) by (simp add: user_cow_int_def)
  have blank: "fault_settled s1 self vaddr" if b: "elf_or_blank ops self vaddr s = Some s1" and pg: "PAGE_SIZE \<le> vaddr" for s1
  proof -
    obtain s2 r where "fault_alloc self (page_floor vaddr) Mmap 1 s = Some (s2, r)"
        "s1 = (if r \<noteq> None then s2 else add_sig self SIGSEGV s2)"
      using b assms(6) by (auto simp: elf_or_blank_def elf_page_def bind_eq_Some_conv)
    then show ?thesis using alloc_or_sig_settles [OF _ assms(2-4) pg] assms(5) by simp
  qed
  consider "vaddr \<ge> 0x70000000 \<and> vaddr < 0x80000000" | "vaddr < 0x1000" | "vaddr \<ge> 0x10000 \<and> vaddr < 0x100000"
    | "vaddr \<ge> 0x1000000 \<and> vaddr < 0x2000000" | "vaddr \<ge> 0x200000000 \<and> vaddr < 0x300000000"
    | "vaddr \<ge> 0x200a0000 \<and> vaddr < 0x300b0000" | "s' = add_sig self SIGSEGV s"
    using o unfolding fault_outside_def prod.case by (auto split: if_splits)
  then show ?thesis
  proof cases
    case 1
    then obtain s1 r where "fault_alloc self (page_floor vaddr) Stack 1 s = Some (s1, r)"
        "s' = (if r \<noteq> None then s1 else add_sig self SIGSEGV s1)"
      using o unfolding fault_outside_def prod.case by (auto simp: bind_eq_Some_conv split: if_splits)
    then show ?thesis using alloc_or_sig_settles [OF _ assms(2-4)] 1 by simp
  next
    case 2
    then show ?thesis using o null_fault_settles [OF _ assms(2,3)] by (auto simp: fault_outside_def)
  next
    case 3
    then show ?thesis using o blank by (auto simp: fault_outside_def)
  next
    case 4
    then obtain s1 r where "fault_alloc self (page_floor vaddr) Mmap 12 s = Some (s1, r)"
        "s' = (if r \<noteq> None then s1 else add_sig self SIGSEGV s1)"
      using o by (auto simp: fault_outside_def bind_eq_Some_conv)
    then show ?thesis using alloc_or_sig_settles [OF _ assms(2-4)] 4 by simp
  next
    case 5
    then show ?thesis using o tls_fault_settles [OF _ assms(2-4) _ assms(5)] by (auto simp: fault_outside_def)
  next
    case 6
    then show ?thesis using o blank by (auto simp: fault_outside_def)
  qed simp
qed

text \<open>A fault behind the end of a file does.  In the ranges that are loaded from the program file,
  when the file ends before the address, the handler returns with nothing changed: the same
  instruction faults again, forever.\<close>

theorem fault_past_file_spins:
  assumes "area_fault ops sc (ps_world s) (pc_vm (pcb_of s self)) vaddr = None"
    and "0x10000 \<le> vaddr" "vaddr < 0x100000"
    and "elf_segment (vm_areas (pc_vm (pcb_of s self))) vaddr = Some (f, off, n)"
    and "io_size ops (ps_world s) f = Ok sz" "sz \<le> off"
  shows "user_cow_int ops sc alive self vaddr (g, s) = Some (g, s)"
  using assms by (simp add: user_cow_int_def fault_outside_def elf_or_blank_def elf_page_def)

theorem fault_settles_witness:
  "\<exists>g' s'. user_cow_int ram_ops (\<lambda>_. 1) (\<lambda>t. t = 1) 1 0x40000000 (\<lparr>tg_last = 0, tg_count = 0\<rparr>, demo_sys) = Some (g', s') \<and>
     fault_settled s' 1 0x40000000"
proof -
  have ok: "proc_ok demo_sys" "1 \<in> dom (ps_tasks demo_sys)" "phys_ok (fst (ps_world demo_sys))"
      "vm_areas (pc_vm (pcb_of demo_sys 1)) = []"
    using demo_phys_ok by (simp_all add: demo_sys_eq proc_ok_def task_of_def pcb_of_def pcb_new_def)
  have e: "elf_segment (vm_areas (pc_vm (pcb_of demo_sys 1))) 0x40000000 = None" unfolding ok(4) by (simp add: elf_segment_def)
  have "area_fault ram_ops (\<lambda>_. 1) (ps_world demo_sys) (pc_vm (pcb_of demo_sys 1)) 0x40000000 = None"
    by (simp add: area_fault_def ok(4) [simplified])
  then have f: "user_cow_int ram_ops (\<lambda>_. 1) (\<lambda>t. t = 1) 1 0x40000000 (\<lparr>tg_last = 0, tg_count = 0\<rparr>, demo_sys) =
      Some (\<lparr>tg_last = 0, tg_count = 0\<rparr>, add_sig 1 SIGSEGV demo_sys)"
    by (simp add: user_cow_int_def fault_outside_def)
  show ?thesis using fault_settles [OF f ok(1-3) _ e] f by auto
qed

text \<open>Not part of the kernel: two areas with a gap between them, the first on an empty file.\<close>

definition demo_gap :: "(ram_fs, inode) proc_sys" where
  "demo_gap = set_vm 1 (ps_world demo_sys) ((pc_vm (pcb_of demo_sys 1))\<lparr>vm_areas :=
     [\<lparr> ma_type = Mmap, ma_tracks = [], ma_file = Some (IFile 0), ma_offset = 0, ma_start = 0x10000, ma_len = 0x1000 \<rparr>,
      \<lparr> ma_type = Mmap, ma_tracks = [], ma_file = None, ma_offset = 0, ma_start = 0x20000, ma_len = 0x1000 \<rparr>]\<rparr>) demo_sys"

theorem fault_past_file_spins_witness:
  "user_cow_int ram_ops (\<lambda>_. 1) (\<lambda>t. t = 1) 1 0x18000 (\<lparr>tg_last = 0, tg_count = 0\<rparr>, demo_gap) =
     Some (\<lparr>tg_last = 0, tg_count = 0\<rparr>, demo_gap)"
proof -
  have ok: "proc_ok demo_sys" "1 \<in> dom (ps_tasks demo_sys)"
    by (simp_all add: demo_sys_eq proc_ok_def task_of_def pcb_of_def pcb_new_def)
  have a: "vm_areas (pc_vm (pcb_of demo_gap 1)) =
      [\<lparr> ma_type = Mmap, ma_tracks = [], ma_file = Some (IFile 0), ma_offset = 0, ma_start = 0x10000, ma_len = 0x1000 \<rparr>,
       \<lparr> ma_type = Mmap, ma_tracks = [], ma_file = None, ma_offset = 0, ma_start = 0x20000, ma_len = 0x1000 \<rparr>]"
    unfolding demo_gap_def set_vm_simps [OF ok] by simp
  have w: "ps_world demo_gap = (demo_phys, tty_fs)" by (simp add: demo_gap_def set_vm_def demo_sys_eq)
  have f: "area_fault ram_ops (\<lambda>_. 1) (ps_world demo_gap) (pc_vm (pcb_of demo_gap 1)) 0x18000 = None"
    unfolding area_fault_def a by (simp add: ma_contains_def wadd_def)
  have e: "elf_segment (vm_areas (pc_vm (pcb_of demo_gap 1))) 0x18000 = Some (IFile 0, 0x8000, 0xf000)"
    unfolding a by (simp add: elf_segment_def wadd_def wsub_def)
  have z: "io_size ram_ops (ps_world demo_gap) (IFile 0) = Ok 0"
    unfolding w by (simp add: ram_ops_def tty_fs_def ram_file_new_def)
  show ?thesis using fault_past_file_spins [OF f _ _ e z] by simp
qed

end
