(* ===== verification/Exec.thy ===== *)
theory Exec
  imports Faults
begin

unbundle bit_operations_syntax

text \<open>
  Program execution: \<open>execve\<close> of \<open>syscall/task.rs\<close>, \<open>exec_with_process\<close> of \<open>tasks/exec.rs\<close>, the
  initial stack and the ELF extensions of \<open>tasks/elf.rs\<close>, and the pushes of \<open>tasks/task.rs\<close>.

  \<^item> User memory is a map from virtual addresses to bytes; a store to a page that is not there yet is
    served by the fault handler, so at this level it just happens.  A page that is new to the address
    space holds zeros: the theory Frames shows that every free frame does.
  \<^item> The parser \<open>xmas_elf\<close> is an argument: \<open>elf_new\<close> says whether a buffer is accepted and \<open>elf_of\<close>
    reads the fields from it.  They read the buffer anew at each access, which matters where the
    buffer has been given back before.
  \<^item> The assertions that compare a loaded segment with the buffer through the frames are left out.
\<close>

section \<open>Pushing on the user stack\<close>

type_synonym vmem = "usize \<Rightarrow> u8"

definition write_bytes :: "usize \<Rightarrow> u8 list \<Rightarrow> vmem \<Rightarrow> vmem" where
  "write_bytes a bs m = (\<lambda>x. if a \<le> x \<and> x < a + length bs then bs ! (x - a) else m x)"

text \<open>The eight bytes of a word, the lowest first.\<close>

definition word_bytes :: "usize \<Rightarrow> u8 list" where
  "word_bytes n = map (\<lambda>i. of_nat (n div 256 ^ i mod 256)) [0 ..< 8]"

definition push_arr :: "u8 list \<Rightarrow> vmem \<times> usize \<Rightarrow> (vmem \<times> usize) \<times> usize" where
  "push_arr buffer st =
     (case st of (m, sp) \<Rightarrow>
      let sp = wsub sp (alignup (length buffer + 1) 8) in ((write_bytes sp buffer m, sp), sp))"

definition push_num :: "usize \<Rightarrow> vmem \<times> usize \<Rightarrow> vmem \<times> usize" where
  "push_num num st = (case st of (m, sp) \<Rightarrow> let sp = wsub sp 8 in (write_bytes sp (word_bytes num) m, sp))"

definition str_bytes :: "string \<Rightarrow> u8 list" where
  "str_bytes s = map of_char s"

text \<open>\<open>xs.rev().map(push_str)\<close>: the last string goes first, the addresses are collected in that order.\<close>

fun push_strs :: "string list \<Rightarrow> vmem \<times> usize \<Rightarrow> (vmem \<times> usize) \<times> usize list" where
  "push_strs [] st = (st, [])"
| "push_strs (x # xs) st =
     (case push_arr (str_bytes x) st of (st, p) \<Rightarrow> case push_strs xs st of (st, ps) \<Rightarrow> (st, p # ps))"

fun push_nums :: "usize list \<Rightarrow> vmem \<times> usize \<Rightarrow> vmem \<times> usize" where
  "push_nums [] st = st"
| "push_nums (x # xs) st = push_nums xs (push_num x st)"

section \<open>The initial stack\<close>

abbreviation USER_STACK_TOP :: usize where "USER_STACK_TOP \<equiv> 0x80000000"
abbreviation USER_STACK_INIT_SIZE :: usize where "USER_STACK_INIT_SIZE \<equiv> 0x20000"
abbreviation USER_DYN_ADDR :: usize where "USER_DYN_ADDR \<equiv> 0x20000000"

definition default_env :: "string \<Rightarrow> string list" where
  "default_env libc_path =
     [''LD_LIBRARY_PATH='' @ libc_path,
      ''PS1='' @ [CHR 0x1B] @ ''[1m'' @ [CHR 0x1B] @ ''[32mMonkeyOS'' @ [CHR 0x1B] @ ''[0m:'' @ [CHR 0x1B] @ ''[1m'' @
        [CHR 0x1B] @ ''[34m'' @ [CHR 0x5C] @ ''w'' @ [CHR 0x1B] @ ''[0m'' @ [CHR 0x5C] @ ''$ '' @ [CHR 0x00],
      ''PATH=/:/bin:/usr/bin'', ''UB_BINDIR=./'']"

text \<open>What the parser reports of a program; \<open>PtBad\<close> is a header type it rejects.\<close>

datatype ph_type = PtInterp | PtLoad | PtPhdr | PtOther | PtBad

record prog_header =
  ph_ty :: ph_type
  ph_off :: usize
  ph_vaddr :: usize
  ph_filesz :: usize
  ph_memsz :: usize
  ph_data :: "string option"

record elf_file =
  ef_magic :: "u8 list"
  ef_entry :: usize
  ef_ph_count :: usize
  ef_ph_entry_size :: usize
  ef_ph_offset :: usize
  ef_phs :: "prog_header list"
  ef_rela :: "(nat \<times> nat) list option"
  ef_dynsym :: "nat list option"

record image =
  im_base :: usize
  im_entry :: usize
  im_ph_count :: usize
  im_ph_entry_size :: usize
  im_ph_addr :: usize
  im_heap_bottom :: usize

text \<open>The auxiliary vector, in the order of its keys.\<close>

definition auxv :: "image \<Rightarrow> usize \<Rightarrow> usize \<Rightarrow> usize \<Rightarrow> usize btree_map" where
  "auxv im platform execfn random =
     foldl (\<lambda>t (k, v). bt_insert k v t) []
       [(15, platform), (31, execfn), (5, im_ph_count im), (6, PAGE_SIZE), (9, wadd (im_base im) (im_entry im)),
        (4, im_ph_entry_size im), (3, wadd (im_base im) (im_ph_addr im)), (13, 0), (14, 0), (11, 0), (12, 0), (23, 0),
        (25, random)]"

definition build_stack :: "string \<Rightarrow> string list \<Rightarrow> string \<Rightarrow> image \<Rightarrow> vmem \<times> usize \<Rightarrow> vmem \<times> usize" where
  "build_stack libc_path args path im st =
     (case push_strs (rev (default_env libc_path)) st of (st, envp) \<Rightarrow>
      case push_strs (rev args) st of (st, argp) \<Rightarrow>
      case push_arr (replicate 16 0) st of (st, random_ptr) \<Rightarrow>
      case push_arr (str_bytes ''riscv'') st of (st, platform) \<Rightarrow>
      case push_arr (str_bytes path) st of (st, execfn) \<Rightarrow>
      let st = push_num 0 st;
          st = push_nums (concat (map (\<lambda>(k, v). [v, k]) (auxv im platform execfn random_ptr))) st;
          st = push_num 0 st;
          st = push_nums envp st;
          st = push_num 0 st;
          st = push_nums argp st
      in push_num (length argp) st)"

definition init_task_stack ::
  "usize \<Rightarrow> string \<Rightarrow> string list \<Rightarrow> string \<Rightarrow> image \<Rightarrow> vmem \<times> ('s, 'n) proc_sys \<Rightarrow> (vmem \<times> ('s, 'n) proc_sys) run" where
  "init_task_stack self libc_path args path im u =
     (case u of (m, s) \<Rightarrow>
      do { (s, _) \<leftarrow> fault_alloc self (USER_STACK_TOP - USER_STACK_INIT_SIZE) Stack (USER_STACK_INIT_SIZE div PAGE_SIZE) s;
           (let pcb = pcb_of s self;
                s = set_pcb s self (pcb\<lparr>pc_vm := (pc_vm pcb)\<lparr>vm_heap := im_heap_bottom im\<rparr>,
                      pc_entry := wadd (im_base im) (im_entry im)\<rparr>);
                (m, sp) = build_stack libc_path args path im (m, USER_STACK_TOP);
                cx = tf_set SP sp (tf_set SEPC (wadd (im_base im) (im_entry im)) trap_frame_new)
            in Some (m, set_cx s self cx)) })"

section \<open>ELF files\<close>

definition get_ph_addr :: "elf_file \<Rightarrow> usize res" where
  "get_ph_addr ef =
     (case find (\<lambda>ph. ph_ty ph = PtPhdr) (ef_phs ef) of
        Some phdr \<Rightarrow> Ok (ph_vaddr phdr)
      | None \<Rightarrow>
          (case find (\<lambda>ph. ph_ty ph = PtLoad \<and> ph_off ph = 0) (ef_phs ef) of
             Some elf_addr \<Rightarrow> Ok (wadd (ph_vaddr elf_addr) (ef_ph_offset ef))
           | None \<Rightarrow> Err EBADF))"

text \<open>The relocations are checked, not applied: the entries are pairs of a type and a symbol.\<close>

fun reloc_check :: "nat list \<Rightarrow> (nat \<times> nat) list \<Rightarrow> unit run" where
  "reloc_check dynsym [] = Some ()"
| "reloc_check dynsym ((ty, sy) # es) =
     (if ty \<in> {6, 7, 2, 0x401}
      then do { shndx \<leftarrow> vec_get dynsym sy; (if shndx = 0 then None else reloc_check dynsym es) }
      else if ty \<in> {8, 3, 0x403} then reloc_check dynsym es
      else None)"

definition relocate :: "elf_file \<Rightarrow> usize \<Rightarrow> usize option run" where
  "relocate ef base =
     (case ef_rela ef of
        None \<Rightarrow> Some None
      | Some entries \<Rightarrow>
          (case ef_dynsym ef of
             None \<Rightarrow> Some None
           | Some dynsym \<Rightarrow> map_option (\<lambda>_. Some base) (reloc_check dynsym entries)))"

datatype libc_type = Musl | Glibc | Unknown

definition str_contains :: "string \<Rightarrow> string \<Rightarrow> bool" where
  "str_contains p s \<longleftrightarrow> list_ex (\<lambda>i. take (length p) (drop i s) = p) [0 ..< length s + 1]"

definition detect_libc_type :: "elf_file \<Rightarrow> libc_type" where
  "detect_libc_type ef =
     (case find (\<lambda>ph. ph_ty ph = PtInterp) (ef_phs ef) of
        None \<Rightarrow> Unknown
      | Some ph \<Rightarrow>
          (case ph_data ph of
             None \<Rightarrow> Unknown
           | Some interp_path \<Rightarrow>
               (let interp_path = rev (dropWhile (\<lambda>c. c = CHR 0x00) (rev interp_path))
                in if str_contains ''musl'' interp_path then Musl
                   else if str_contains ''glibc'' interp_path \<or> str_contains ''ld-linux'' interp_path then Glibc
                   else Unknown)))"

section \<open>Loading and executing\<close>

record 'n task_cache =
  ca_name :: path_buf
  ca_maps :: "'n mem_area list"
  ca_image :: image

record 'n exec_env =
  ee_caches :: "'n task_cache list"
  ee_libc_path :: string
  ee_dyn_path :: string

text \<open>All areas go, and the page table is restored to the one without user pages.\<close>

definition clear_space ::
  "(phys \<times> 's, 'n) inode_ops \<Rightarrow> (usize \<Rightarrow> nat) \<Rightarrow> usize \<Rightarrow> ('s, 'n) proc_sys \<Rightarrow> ('s, 'n) proc_sys run" where
  "clear_space ops sc self s =
     do { (w, vm) \<leftarrow> memset_clear ops sc (ps_world s) (pc_vm (pcb_of s self));
          Some (set_vm self w (vm\<lparr>vm_pt := Map.empty\<rparr>) s) }"

fun map_readonly :: "'n vm \<Rightarrow> map_track list \<Rightarrow> 'n vm run" where
  "map_readonly vm [] = Some vm"
| "map_readonly vm (t # ts) = do { vm \<leftarrow> user_map vm (mt_frame t) (mt_vaddr t) URX; map_readonly vm ts }"

fun map_cached ::
  "(phys \<times> 's, 'n) inode_ops \<Rightarrow> (usize \<Rightarrow> nat) \<Rightarrow> usize \<Rightarrow> 'n mem_area list \<Rightarrow> ('s, 'n) proc_sys \<Rightarrow> ('s, 'n) proc_sys run"
where
  "map_cached ops sc self [] s = Some s"
| "map_cached ops sc self (a # ms) s =
     do { (w, vm) \<leftarrow> vm_sub_area ops sc (ps_world s) (pc_vm (pcb_of s self)) (ma_start a) (wadd (ma_start a) (ma_len a));
          vm \<leftarrow> map_readonly (push_area vm a) (ma_tracks a);
          map_cached ops sc self ms (set_vm self w vm s) }"

text \<open>One loadable segment; \<open>buffer\<close> holds the file.\<close>

definition load_segment ::
  "usize \<Rightarrow> u8 list \<Rightarrow> usize \<Rightarrow> prog_header \<Rightarrow> vmem \<times> ('s, 'n) proc_sys \<Rightarrow> (vmem \<times> ('s, 'n) proc_sys) run" where
  "load_segment self buffer base ph u =
     (case u of (m, s) \<Rightarrow>
      let virt_addr = wadd base (ph_vaddr ph);
          vpn = virt_addr div PAGE_SIZE;
          page_count = wsub (div_ceil (wadd virt_addr (ph_memsz ph)) PAGE_SIZE) vpn
      in do { (s, r) \<leftarrow> fault_alloc self (page_floor virt_addr) Mmap page_count s;
              _ \<leftarrow> r;
              (if wadd (ph_off ph) (ph_filesz ph) > length buffer \<or> ph_off ph > wadd (ph_off ph) (ph_filesz ph) then None
               else Some (write_bytes virt_addr (take (ph_filesz ph) (drop (ph_off ph) buffer)) m, s)) })"

fun load_segments ::
  "usize \<Rightarrow> u8 list \<Rightarrow> usize \<Rightarrow> prog_header list \<Rightarrow> vmem \<times> ('s, 'n) proc_sys \<Rightarrow> (vmem \<times> ('s, 'n) proc_sys) run" where
  "load_segments self buffer base [] u = Some u"
| "load_segments self buffer base (ph # phs) u =
     do { u \<leftarrow> load_segment self buffer base ph u; load_segments self buffer base phs u }"

definition heap_bottom :: "elf_file \<Rightarrow> usize run" where
  "heap_bottom ef =
     (if ef_phs ef = [] then None
      else Some (wmul (div_ceil (Max (set (map (\<lambda>x. wadd (ph_vaddr x) (ph_memsz x)) (ef_phs ef)))) PAGE_SIZE) PAGE_SIZE))"

text \<open>The headers to load; a type the parser rejects is unwrapped here.\<close>

definition load_headers :: "elf_file \<Rightarrow> prog_header list run" where
  "load_headers ef =
     (if list_ex (\<lambda>ph. ph_ty ph = PtBad) (ef_phs ef) then None else Some (filter (\<lambda>ph. ph_ty ph = PtLoad) (ef_phs ef)))"

text \<open>A static program: its stack, then its segments.\<close>

definition exec_static ::
  "usize \<Rightarrow> string \<Rightarrow> string list \<Rightarrow> string \<Rightarrow> elf_file \<Rightarrow> u8 list \<Rightarrow> vmem \<times> ('s, 'n) proc_sys
   \<Rightarrow> (vmem \<times> ('s, 'n) proc_sys) run" where
  "exec_static self libc_path args path ef buffer u =
     do { hb \<leftarrow> heap_bottom ef;
          r \<leftarrow> relocate ef USER_DYN_ADDR;
          (let base = (case r of Some b \<Rightarrow> b | None \<Rightarrow> 0);
               im = \<lparr> im_base = base, im_entry = ef_entry ef, im_ph_count = ef_ph_count ef,
                      im_ph_entry_size = ef_ph_entry_size ef,
                      im_ph_addr = (case get_ph_addr ef of Ok a \<Rightarrow> a | _ \<Rightarrow> 0), im_heap_bottom = hb \<rparr>
           in do { u \<leftarrow> init_task_stack self libc_path args path im u;
                   phs \<leftarrow> load_headers ef;
                   load_segments self buffer base phs u }) }"

text \<open>Reading the whole file into frames of its own.\<close>

definition read_program ::
  "(phys \<times> 's, 'n) inode_ops \<Rightarrow> 'n mounts \<Rightarrow> path_buf \<Rightarrow> ('s, 'n) proc_sys
   \<Rightarrow> (('s, 'n) proc_sys \<times> (u8 list \<times> usize list) res) run" where
  "read_program ops mt path s =
     (case open_path ops mt (ps_world s) path O_RDONLY of
        (w, Panic) \<Rightarrow> None
      | (w, Err e) \<Rightarrow> Some (s\<lparr>ps_world := w\<rparr>, Err e)
      | (w, Ok f) \<Rightarrow>
          (case io_size ops w (of_inner f) of
             Panic \<Rightarrow> None
           | Err e \<Rightarrow> Some (s\<lparr>ps_world := w\<rparr>, Err e)
           | Ok file_size \<Rightarrow>
               do { (ph, r) \<leftarrow> frame_alloc_much (fst w) (div_ceil file_size PAGE_SIZE);
                    ps \<leftarrow> r;
                    p \<leftarrow> vec_get ps 0;
                    (case io_readat ops (ph, snd w) (of_inner f) 0 (frame_bytes ph p file_size) of
                       (w, b, Panic) \<Rightarrow> None
                     | (w, b, Err e) \<Rightarrow>
                         do { ph \<leftarrow> release_all frame_drop (fst w) ps; Some (s\<lparr>ps_world := (ph, snd w)\<rparr>, Err e) }
                     | (w, b, Ok rsize) \<Rightarrow>
                         if rsize \<noteq> file_size then None
                         else Some (s\<lparr>ps_world := (store_page (fst w) p b, snd w)\<rparr>, Ok (b, ps))) }))"

definition drop_buffer :: "usize list \<Rightarrow> ('s, 'n) proc_sys \<Rightarrow> ('s, 'n) proc_sys run" where
  "drop_buffer ps s =
     do { ph \<leftarrow> release_all frame_drop (fst (ps_world s)) ps; Some (s\<lparr>ps_world := (ph, snd (ps_world s))\<rparr>) }"

text \<open>A file that is no program is run by the shell, a dynamic one by the loader.  The buffer of a
  script is held until the call returns; that of a dynamic program is given back, and so zeroed, before
  the kind of its library is looked up in it.\<close>

partial_function (option) exec_with_process ::
  "(phys \<times> 's, 'n) inode_ops \<Rightarrow> 'n mounts \<Rightarrow> (usize \<Rightarrow> nat) \<Rightarrow> (u8 list \<Rightarrow> bool) \<Rightarrow> (u8 list \<Rightarrow> elf_file) \<Rightarrow> 'n exec_env
   \<Rightarrow> usize \<Rightarrow> path_buf \<Rightarrow> string \<Rightarrow> string list \<Rightarrow> vmem \<times> ('s, 'n) proc_sys
   \<Rightarrow> ((vmem \<times> ('s, 'n) proc_sys) \<times> unit res) option" where
  "exec_with_process ops mt sc elf_new elf_of env self cwd file_name args u =
     (let path = path_join cwd file_name
      in Option.bind (clear_space ops sc self (snd u)) (\<lambda>s.
         case find (\<lambda>c. ca_name c = path) (ee_caches env) of
           Some c \<Rightarrow>
             Option.bind (init_task_stack self (ee_libc_path env) args (path_print path) (ca_image c) ((\<lambda>_. 0), s)) (\<lambda>(m, s).
             Option.bind (map_cached ops sc self (ca_maps c) s) (\<lambda>s. Some ((m, s), Ok ())))
         | None \<Rightarrow>
             Option.bind (read_program ops mt path s) (\<lambda>(s, r).
             case r of
               Panic \<Rightarrow> None
             | Err e \<Rightarrow> Some (((\<lambda>_. 0), s), Err e)
             | Ok (buffer, ps) \<Rightarrow>
                 if \<not> elf_new buffer
                 then Option.bind (exec_with_process ops mt sc elf_new elf_of env self cwd ''busybox''
                        ([''busybox'', ''sh''] @ args) ((\<lambda>_. 0), s)) (\<lambda>((m, s), r).
                      map_option (\<lambda>s. ((m, s), r)) (drop_buffer ps s))
                 else if ef_magic (elf_of buffer) \<noteq> [0x7f, 0x45, 0x4c, 0x46] then None
                 else if (case find (\<lambda>ph. ph_ty ph = PtInterp) (ef_phs (elf_of buffer)) of
                            Some ph \<Rightarrow> ph_data ph \<noteq> None | None \<Rightarrow> False)
                 then Option.bind (drop_buffer ps s) (\<lambda>s.
                      let libc_path = (case detect_libc_type (elf_of (replicate (length buffer) 0)) of
                                         Musl \<Rightarrow> ee_libc_path env | _ \<Rightarrow> ee_dyn_path env);
                          new_args = [libc_path, path_print path] @ drop 1 args
                      in exec_with_process ops mt sc elf_new elf_of env self cwd libc_path new_args ((\<lambda>_. 0), s))
                 else Option.bind (exec_static self (ee_libc_path env) args (path_print path) (elf_of buffer) buffer ((\<lambda>_. 0), s))
                        (\<lambda>(m, s). map_option (\<lambda>s. ((m, s), Ok ())) (drop_buffer ps s)))))"

text \<open>A program kept in memory: its pages are filled once and every process that runs it maps them.\<close>

definition cache_segment :: "u8 list \<Rightarrow> usize \<Rightarrow> prog_header \<Rightarrow> phys \<Rightarrow> (phys \<times> 'n mem_area) run" where
  "cache_segment buffer base h ph =
     (let virt_addr = wadd base (ph_vaddr h);
          vpn = virt_addr div PAGE_SIZE;
          page_count = wsub (div_ceil (wadd virt_addr (ph_memsz h)) PAGE_SIZE) vpn
      in do { (ph, r) \<leftarrow> frame_alloc_much ph page_count;
              pages \<leftarrow> r;
              p \<leftarrow> vec_get pages 0;
              (if wadd (ph_off h) (ph_filesz h) > length buffer \<or> ph_off h > wadd (ph_off h) (ph_filesz h) then None
               else Some (store_page ph (p + virt_addr mod PAGE_SIZE) (take (ph_filesz h) (drop (ph_off h) buffer)),
                 \<lparr>ma_type = Mmap,
                  ma_tracks = map (\<lambda>(i, x). \<lparr>mt_vaddr = wmul (wadd vpn i) PAGE_SIZE, mt_frame = x\<rparr>) (enumerate 0 pages),
                  ma_file = None, ma_offset = 0, ma_start = wmul vpn PAGE_SIZE, ma_len = wmul page_count PAGE_SIZE\<rparr>)) })"

fun cache_segments :: "u8 list \<Rightarrow> usize \<Rightarrow> prog_header list \<Rightarrow> phys \<Rightarrow> (phys \<times> 'n mem_area list) run" where
  "cache_segments buffer base [] ph = Some (ph, [])"
| "cache_segments buffer base (h # hs) ph =
     do { (ph, a) \<leftarrow> cache_segment buffer base h ph;
          (ph, as) \<leftarrow> cache_segments buffer base hs ph;
          Some (ph, a # as) }"

definition cache_task_template ::
  "(phys \<times> 's, 'n) inode_ops \<Rightarrow> 'n mounts \<Rightarrow> (u8 list \<Rightarrow> bool) \<Rightarrow> (u8 list \<Rightarrow> elf_file) \<Rightarrow> path_buf \<Rightarrow> 'n exec_env \<times> ('s, 'n) proc_sys
   \<Rightarrow> (('n exec_env \<times> ('s, 'n) proc_sys) \<times> unit res) run" where
  "cache_task_template ops mt elf_new elf_of path u =
     (case u of (env, s) \<Rightarrow>
      do { (s, r) \<leftarrow> read_program ops mt path s;
           (case r of
              Panic \<Rightarrow> None
            | Err e \<Rightarrow> Some ((env, s), Err e)
            | Ok (buffer, ps) \<Rightarrow>
                if \<not> elf_new buffer then do { s \<leftarrow> drop_buffer ps s; Some ((env, s), Ok ()) }
                else
                  (let ef = elf_of buffer
                   in if ef_magic ef \<noteq> [0x7f, 0x45, 0x4c, 0x46] \<or> find (\<lambda>h. ph_ty h = PtInterp) (ef_phs ef) \<noteq> None then None
                      else do { hb \<leftarrow> heap_bottom ef;
                                r \<leftarrow> relocate ef USER_DYN_ADDR;
                                (let base = (case r of Some b \<Rightarrow> b | None \<Rightarrow> 0)
                                 in do { phs \<leftarrow> load_headers ef;
                                         (ph, maps) \<leftarrow> cache_segments buffer base phs (fst (ps_world s));
                                         s \<leftarrow> drop_buffer ps (s\<lparr>ps_world := (ph, snd (ps_world s))\<rparr>);
                                         Some ((env\<lparr>ee_caches := ee_caches env @ [\<lparr>ca_name = path, ca_maps = maps,
                                            ca_image = \<lparr>im_base = base, im_entry = ef_entry ef, im_ph_count = ef_ph_count ef,
                                              im_ph_entry_size = ef_ph_entry_size ef,
                                              im_ph_addr = (case get_ph_addr ef of Ok a \<Rightarrow> a | _ \<Rightarrow> 0), im_heap_bottom = hb\<rparr>\<rparr>]\<rparr>, s),
                                            Ok ()) }) })) })"

definition sys_execve ::
  "(phys \<times> 's, 'n) inode_ops \<Rightarrow> 'n mounts \<Rightarrow> (usize \<Rightarrow> nat) \<Rightarrow> (usize \<Rightarrow> bool) \<Rightarrow> (u8 list \<Rightarrow> bool) \<Rightarrow> (u8 list \<Rightarrow> elf_file)
   \<Rightarrow> 'n exec_env \<Rightarrow> usize \<Rightarrow> string \<Rightarrow> string list \<Rightarrow> string list \<Rightarrow> vmem \<times> ('s, 'n) proc_sys
   \<Rightarrow> ((vmem \<times> ('s, 'n) proc_sys) \<times> usize res) option" where
  "sys_execve ops mt sc alive elf_new elf_of env self file_name args envp u =
     (if file_name = ''/bin/true''
      then map_option (\<lambda>s. ((fst u, s), Ok 0)) (task_exit ops sc alive self 0 (snd u))
      else map_option (\<lambda>(u, r). (u, case r of Ok _ \<Rightarrow> Ok 0 | Err e \<Rightarrow> Err e | Panic \<Rightarrow> Panic))
             (exec_with_process ops mt sc elf_new elf_of env self
                (of_path (ps_files (snd u) ! pc_curr_dir (pcb_of (snd u) self))) file_name args u))"

section \<open>Reading the stack back\<close>

definition read_word :: "vmem \<Rightarrow> usize \<Rightarrow> usize" where
  "read_word m a = (\<Sum>i<8. unat (m (a + i)) * 256 ^ i)"

text \<open>The words from an address on, and a string that ends with a zero byte.\<close>

definition words :: "vmem \<Rightarrow> usize \<Rightarrow> nat \<Rightarrow> usize list" where
  "words m a n = map (\<lambda>i. read_word m (a + 8 * i)) [0 ..< n]"

definition cstr_at :: "vmem \<Rightarrow> usize \<Rightarrow> string \<Rightarrow> bool" where
  "cstr_at m p s \<longleftrightarrow> (\<forall>i<length s. m (p + i) = of_char (s ! i)) \<and> m (p + length s) = 0"

definition str_room :: "nat \<Rightarrow> usize" where
  "str_room n = (n div 8 + 1) * 8"

lemma str_room_gt: "n < str_room n"
  by (simp add: str_room_def)

lemma alignup_room: "n < 2 ^ 60 \<Longrightarrow> alignup (n + 1) 8 = str_room n"
proof -
  assume n: "n < 2 ^ 60"
  have "div_ceil (n + 1) 8 = n div 8 + 1" by (simp add: div_ceil_def) presburger
  moreover have "(n div 8 + 1) * 8 < 2 ^ 64" using n by simp
  ultimately show ?thesis by (simp add: alignup_def str_room_def wmul_exact)
qed

lemma sum_bytes: "(\<Sum>i<k. (n div 256 ^ i mod 256) * 256 ^ i) = n mod 256 ^ k" for n :: nat
proof (induction k)
  case (Suc k)
  have "n mod 256 ^ Suc k = n mod 256 ^ k + 256 ^ k * (n div 256 ^ k mod 256)"
    using mod_mult2_eq [of n "256 ^ k" 256] by (simp add: mult.commute)
  with Suc show ?case by (simp add: mult.commute)
qed simp

lemma read_word_bytes:
  assumes "\<And>i. i < 8 \<Longrightarrow> m (a + i) = word_bytes n ! i" "n < 2 ^ 64"
  shows "read_word m a = n"
proof -
  have "read_word m a = (\<Sum>i<8. (n div 256 ^ i mod 256) * 256 ^ i)"
    unfolding read_word_def by (rule sum.cong) (simp_all add: assms(1) word_bytes_def unat_of_nat)
  also have "\<dots> = n" unfolding sum_bytes using assms(2) by simp
  finally show ?thesis .
qed

lemma read_word_cong: "(\<And>i. i < 8 \<Longrightarrow> m (a + i) = m' (a + i)) \<Longrightarrow> read_word m a = read_word m' a"
  unfolding read_word_def by (rule sum.cong) simp_all

lemma words_Cons: "words m a (Suc n) = read_word m a # words m (a + 8) n"
  by (simp add: words_def upt_conv_Cons map_Suc_upt [symmetric] comp_def algebra_simps del: upt_Suc)

lemma words_cong: "(\<And>x. a \<le> x \<Longrightarrow> m x = m' x) \<Longrightarrow> words m a n = words m' a n"
  unfolding words_def by (auto intro!: read_word_cong)

lemma cstr_at_cong: "(\<And>x. p \<le> x \<Longrightarrow> m x = m' x) \<Longrightarrow> cstr_at m p s = cstr_at m' p s"
  by (simp add: cstr_at_def)

section \<open>What a push does\<close>

text \<open>Bytes at and above the stack pointer are never touched, nor those below the new one.\<close>

definition pushed :: "vmem \<times> usize \<Rightarrow> vmem \<times> usize \<Rightarrow> bool" where
  "pushed st st' \<longleftrightarrow> snd st' \<le> snd st \<and> (\<forall>a. snd st \<le> a \<or> a < snd st' \<longrightarrow> fst st' a = fst st a)"

lemma pushed_trans: "pushed a b \<Longrightarrow> pushed b c \<Longrightarrow> pushed a c"
  by (auto simp: pushed_def)

lemma push_num_spec:
  assumes "8 \<le> sp" "sp < 2 ^ 64" "num < 2 ^ 64"
  shows "snd (push_num num (m, sp)) = sp - 8" "pushed (m, sp) (push_num num (m, sp))"
    "words (fst (push_num num (m, sp))) (sp - 8) (Suc n) = num # words m sp n"
proof -
  have w: "wsub sp 8 = sp - 8" using assms by (simp add: wsub_exact)
  have l: "length (word_bytes num) = 8" by (simp add: word_bytes_def)
  let ?m = "write_bytes (sp - 8) (word_bytes num) m"
  have p: "push_num num (m, sp) = (?m, sp - 8)" by (simp add: push_num_def w Let_def)
  show "snd (push_num num (m, sp)) = sp - 8" by (simp add: p)
  show q: "pushed (m, sp) (push_num num (m, sp))" using assms(1) by (auto simp: p pushed_def write_bytes_def l)
  have "read_word ?m (sp - 8) = num"
    using assms by (intro read_word_bytes) (auto simp: write_bytes_def l)
  moreover have "words ?m sp n = words m sp n" using assms(1) by (intro words_cong) (simp add: write_bytes_def l)
  ultimately show "words (fst (push_num num (m, sp))) (sp - 8) (Suc n) = num # words m sp n"
    using assms(1) by (simp add: p words_Cons)
qed

lemma push_nums_spec:
  assumes "8 * length xs \<le> sp" "sp < 2 ^ 64" "\<forall>x\<in>set xs. x < 2 ^ 64"
  shows "snd (push_nums xs (m, sp)) = sp - 8 * length xs \<and> pushed (m, sp) (push_nums xs (m, sp)) \<and>
    words (fst (push_nums xs (m, sp))) (sp - 8 * length xs) (length xs + n) = rev xs @ words m sp n"
  using assms
proof (induction xs arbitrary: m sp n)
  case (Cons x xs)
  obtain m1 where m1: "push_num x (m, sp) = (m1, sp - 8)"
    using push_num_spec(1) [of sp x m] Cons.prems by (cases "push_num x (m, sp)") auto
  have a: "pushed (m, sp) (m1, sp - 8)" "words m1 (sp - 8) (Suc n) = x # words m sp n"
    using push_num_spec(2,3) [of sp x m] Cons.prems by (simp_all add: m1)
  have "8 * length xs \<le> sp - 8" "sp - 8 < 2 ^ 64" "\<forall>x\<in>set xs. x < 2 ^ 64" using Cons.prems by auto
  note b = Cons.IH [OF this, of m1 "Suc n"]
  have e: "sp - 8 - 8 * length xs = sp - 8 * length (x # xs)" by simp
  show ?case
    using b a(2) pushed_trans [OF a(1)] unfolding push_nums.simps m1 e by simp
qed (simp add: pushed_def)

lemma push_arr_spec:
  assumes "str_room (length bs) \<le> sp" "sp < 2 ^ 32"
  shows "\<exists>m'. push_arr bs (m, sp) = ((m', sp - str_room (length bs)), sp - str_room (length bs)) \<and>
    pushed (m, sp) (m', sp - str_room (length bs)) \<and>
    (\<forall>i<length bs. m' (sp - str_room (length bs) + i) = bs ! i) \<and>
    m' (sp - str_room (length bs) + length bs) = m (sp - str_room (length bs) + length bs)"
proof -
  let ?p = "sp - str_room (length bs)"
  have g: "length bs < str_room (length bs)" by (rule str_room_gt)
  then have "length bs < 2 ^ 60" using assms by simp
  then have "wsub sp (alignup (length bs + 1) 8) = ?p" using alignup_room assms by (simp add: wsub_exact)
  then have "push_arr bs (m, sp) = ((write_bytes ?p bs m, ?p), ?p)" by (simp add: push_arr_def Let_def)
  then show ?thesis
    using g assms(1) by (intro exI [of _ "write_bytes ?p bs m"]) (auto simp: pushed_def write_bytes_def)
qed

lemma push_str_spec:
  assumes "str_room (length x) \<le> sp" "sp < 2 ^ 32" "\<forall>a < sp. m a = 0"
  shows "\<exists>m'. push_arr (str_bytes x) (m, sp) = ((m', sp - str_room (length x)), sp - str_room (length x)) \<and>
    pushed (m, sp) (m', sp - str_room (length x)) \<and> cstr_at m' (sp - str_room (length x)) x \<and>
    (\<forall>a < sp - str_room (length x). m' a = 0)"
proof -
  have l: "length (str_bytes x) = length x" by (simp add: str_bytes_def)
  let ?p = "sp - str_room (length x)"
  have "str_room (length (str_bytes x)) \<le> sp" using assms(1) by (simp add: l)
  from push_arr_spec [OF this assms(2), of m, unfolded l]
  obtain m1 where m1: "push_arr (str_bytes x) (m, sp) = ((m1, ?p), ?p)" "pushed (m, sp) (m1, ?p)"
      "\<forall>i<length x. m1 (?p + i) = str_bytes x ! i" "m1 (?p + length x) = m (?p + length x)"
    by blast
  have "?p + length x < sp" using str_room_gt [of "length x"] assms(1) by simp
  then have "cstr_at m1 ?p x" using m1(3,4) assms(3) by (simp add: cstr_at_def str_bytes_def)
  moreover have "\<forall>a < ?p. m1 a = 0" using m1(2) assms(3) by (simp add: pushed_def)
  ultimately show ?thesis using m1(1,2) by blast
qed

lemma push_strs_spec:
  assumes "sum_list (map (\<lambda>x. str_room (length x)) xs) \<le> sp" "sp < 2 ^ 32" "\<forall>a < sp. m a = 0"
  shows "\<exists>m' ps. push_strs xs (m, sp) = ((m', sp - sum_list (map (\<lambda>x. str_room (length x)) xs)), ps) \<and>
    pushed (m, sp) (m', sp - sum_list (map (\<lambda>x. str_room (length x)) xs)) \<and> list_all2 (cstr_at m') ps xs \<and>
    (\<forall>a < sp - sum_list (map (\<lambda>x. str_room (length x)) xs). m' a = 0) \<and>
    (\<forall>p\<in>set ps. sp - sum_list (map (\<lambda>x. str_room (length x)) xs) \<le> p \<and> p < sp)"
  using assms
proof (induction xs arbitrary: m sp)
  case (Cons x xs)
  let ?r = "str_room (length x)" and ?t = "sum_list (map (\<lambda>x. str_room (length x)) xs)"
  have r: "?r \<le> sp" "?t \<le> sp - ?r" using Cons.prems(1) by simp_all
  from push_str_spec [OF r(1) Cons.prems(2,3)]
  obtain m1 where m1: "push_arr (str_bytes x) (m, sp) = ((m1, sp - ?r), sp - ?r)" "pushed (m, sp) (m1, sp - ?r)"
      "cstr_at m1 (sp - ?r) x" "\<forall>a < sp - ?r. m1 a = 0"
    by blast
  have "sp - ?r < 2 ^ 32" using Cons.prems(2) by simp
  from Cons.IH [where m = m1, OF r(2) this m1(4)] obtain m2 ps where m2: "push_strs xs (m1, sp - ?r) = ((m2, sp - ?r - ?t), ps)"
      "pushed (m1, sp - ?r) (m2, sp - ?r - ?t)" "list_all2 (cstr_at m2) ps xs" "\<forall>a < sp - ?r - ?t. m2 a = 0" "\<forall>p\<in>set ps. sp - ?r - ?t \<le> p \<and> p < sp - ?r"
    by blast
  have "cstr_at m2 (sp - ?r) x" using m1(3) m2(2) cstr_at_cong [of "sp - ?r" m2 m1 x] by (simp add: pushed_def)
  moreover have e: "sp - ?r - ?t = sp - sum_list (map (\<lambda>x. str_room (length x)) (x # xs))" by simp
  moreover have "sp - ?r < sp" using r(1) by (simp add: str_room_def)
  ultimately show ?case
    using m1(1) m2 pushed_trans [OF m1(2) m2(2)] unfolding e by force
qed (auto simp: pushed_def)

lemma auxv_eq: "auxv im platform execfn random =
  [(3, wadd (im_base im) (im_ph_addr im)), (4, im_ph_entry_size im), (5, im_ph_count im), (6, PAGE_SIZE),
   (9, wadd (im_base im) (im_entry im)), (11, 0), (12, 0), (13, 0), (14, 0), (15, platform), (23, 0), (25, random), (31, execfn)]"
  by (simp add: auxv_def)

definition stack_need :: "string \<Rightarrow> string list \<Rightarrow> string \<Rightarrow> usize" where
  "stack_need libc_path args path =
     sum_list (map (\<lambda>x. str_room (length x)) (default_env libc_path)) + sum_list (map (\<lambda>x. str_room (length x)) args) +
     str_room 16 + str_room 5 + str_room (length path) + 8 * (length args + 34)"

text \<open>The vectors are pushed word by word above the strings.\<close>

lemma push_vectors:
  assumes "8 * (length av + length envp + length argp + 4) \<le> sp" "sp < 2 ^ 32"
    and "\<forall>x\<in>set av \<union> set envp \<union> set argp. x < 2 ^ 64"
  shows "let st = push_num (length argp) (push_nums argp (push_num 0 (push_nums envp (push_num 0 (push_nums av (push_num 0 (m, sp)))))))
    in snd st = sp - 8 * (length av + length envp + length argp + 4) \<and> pushed (m, sp) st \<and>
       words (fst st) (snd st) (length av + length envp + length argp + 4) =
         [length argp] @ rev argp @ [0] @ rev envp @ [0] @ rev av @ [0]"
proof -
  have one: "push_num x st = push_nums [x] st" for x st by simp
  have app: "push_nums (xs @ ys) st = push_nums ys (push_nums xs st)" for xs ys st
    by (induction xs arbitrary: st) auto
  let ?xs = "[0] @ av @ [0] @ envp @ [0] @ argp @ [length argp]"
  have e: "push_num (length argp) (push_nums argp (push_num 0 (push_nums envp (push_num 0 (push_nums av (push_num 0 (m, sp))))))) =
      push_nums ?xs (m, sp)"
    by (simp only: one app)
  have l: "length ?xs = length av + length envp + length argp + 4" by simp
  have "length argp < 2 ^ 64" using assms(1,2) by simp
  then have "\<forall>x\<in>set ?xs. x < 2 ^ 64" using assms(3) by auto
  from push_nums_spec [of ?xs sp m 0, unfolded l, OF assms(1) _ this] show ?thesis
    using assms(2) unfolding Let_def e by (simp add: words_def)
qed

lemma cstr_keep:
  assumes "pushed (m, sp) st" "list_all2 (cstr_at m) ps xs" "\<forall>p\<in>set ps. sp \<le> p \<and> p < t"
  shows "list_all2 (cstr_at (fst st)) ps xs"
  unfolding list_all2_conv_all_nth
proof (intro conjI allI impI)
  show "length ps = length xs" using assms(2) by (rule list_all2_lengthD)
  fix i assume i: "i < length ps"
  then have "sp \<le> ps ! i" "cstr_at m (ps ! i) (xs ! i)" using assms(2,3) by (auto simp: list_all2_conv_all_nth)
  then show "cstr_at (fst st) (ps ! i) (xs ! i)"
    using assms(1) cstr_at_cong [of "ps ! i" "fst st" m "xs ! i"] by (simp add: pushed_def)
qed

text \<open>C6: the stack a program starts on.  At the stack pointer lies the number of arguments, then come
  the addresses of the arguments, of the environment and the auxiliary vector, each ended by a zero;
  every address is that of its string, which is ended by a zero byte.\<close>

theorem stack_layout:
  assumes "\<forall>a<USER_STACK_TOP. m a = 0" "stack_need libc_path args path \<le> USER_STACK_TOP"
    and "im_ph_count im < 2 ^ 64" "im_ph_entry_size im < 2 ^ 64"
  shows "case build_stack libc_path args path im (m, USER_STACK_TOP) of (m', sp) \<Rightarrow>
    sp = USER_STACK_TOP - stack_need libc_path args path \<and>
    (\<exists>argp envp platform execfn random.
       words m' sp (length args + 34) = [length args] @ argp @ [0] @ envp @ [0] @
         concat (map (\<lambda>(k, v). [k, v]) (rev (auxv im platform execfn random))) @ [0] \<and>
       list_all2 (cstr_at m') argp args \<and> list_all2 (cstr_at m') envp (default_env libc_path) \<and>
       cstr_at m' platform ''riscv'' \<and> cstr_at m' execfn path)"
proof -
  let ?T = "USER_STACK_TOP"
  let ?e = "sum_list (map (\<lambda>x. str_room (length x)) (rev (default_env libc_path)))"
  let ?a = "sum_list (map (\<lambda>x. str_room (length x)) (rev args))"
  have need: "?e + ?a + str_room 16 + str_room 5 + str_room (length path) + 8 * (length args + 34) \<le> ?T"
    using assms(2) by (simp add: stack_need_def rev_map [symmetric] sum_list_rev)
  have r1: "?e \<le> ?T" "?T < 2 ^ 32" using need by simp_all
  from push_strs_spec [OF r1, of m] assms(1)
  obtain m1 envp where 1: "push_strs (rev (default_env libc_path)) (m, ?T) = ((m1, ?T - ?e), envp)" "pushed (m, ?T) (m1, ?T - ?e)"
      "list_all2 (cstr_at m1) envp (rev (default_env libc_path))" "\<forall>x<?T - ?e. m1 x = 0"
      "\<forall>p\<in>set envp. ?T - ?e \<le> p \<and> p < ?T"
    by blast
  let ?s1 = "?T - ?e"
  have r2: "?a \<le> ?s1" "?s1 < 2 ^ 32" using need by simp_all
  from push_strs_spec [OF r2, of m1] 1(4)
  obtain m2 argp where 2: "push_strs (rev args) (m1, ?s1) = ((m2, ?s1 - ?a), argp)" "pushed (m1, ?s1) (m2, ?s1 - ?a)"
      "list_all2 (cstr_at m2) argp (rev args)" "\<forall>x<?s1 - ?a. m2 x = 0" "\<forall>p\<in>set argp. ?s1 - ?a \<le> p \<and> p < ?s1"
    by blast
  let ?s2 = "?s1 - ?a"
  have r3: "str_room (length (replicate 16 (0 :: u8))) \<le> ?s2" "?s2 < 2 ^ 32" using need by simp_all
  obtain m3 where 3: "push_arr (replicate 16 0) (m2, ?s2) = ((m3, ?s2 - str_room 16), ?s2 - str_room 16)"
      "pushed (m2, ?s2) (m3, ?s2 - str_room 16)"
    using push_arr_spec [OF r3, of m2] unfolding length_replicate by blast
  let ?s3 = "?s2 - str_room 16"
  have z3: "\<forall>x<?s3. m3 x = 0" using 2(4) 3(2) by (simp add: pushed_def)
  have l4: "length ''riscv'' = 5" by simp
  have r4: "str_room (length ''riscv'') \<le> ?s3" "?s3 < 2 ^ 32" unfolding l4 using need by simp_all
  obtain m4 where 4: "push_arr (str_bytes ''riscv'') (m3, ?s3) = ((m4, ?s3 - str_room 5), ?s3 - str_room 5)"
      "pushed (m3, ?s3) (m4, ?s3 - str_room 5)" "cstr_at m4 (?s3 - str_room 5) ''riscv''" "\<forall>a<?s3 - str_room 5. m4 a = 0"
    using push_str_spec [OF r4 z3] unfolding l4 by blast
  let ?s4 = "?s3 - str_room 5" and ?r = "str_room (length path)"
  have r5: "?r \<le> ?s4" "?s4 < 2 ^ 32" using need by simp_all
  obtain m5 where 5: "push_arr (str_bytes path) (m4, ?s4) = ((m5, ?s4 - ?r), ?s4 - ?r)"
      "pushed (m4, ?s4) (m5, ?s4 - ?r)" "cstr_at m5 (?s4 - ?r) path"
    using push_str_spec [OF r5 4(4)] by blast
  let ?s5 = "?s4 - ?r"
  define ax where "ax = auxv im ?s4 ?s5 ?s3"
  let ?av = "concat (map (\<lambda>(k, v). [v, k]) ax)"
  have lav: "length ?av = 26" "length envp = 4" "length argp = length args"
    using list_all2_lengthD [OF 1(3)] list_all2_lengthD [OF 2(3)] by (simp_all add: ax_def auxv_eq default_env_def)
  have wx: "wadd x y < 2 ^ 64" for x y by (simp add: wadd_def)
  have bound: "\<forall>x\<in>set ?av \<union> set envp \<union> set argp. x < 2 ^ 64"
    using 1(5) 2(5) assms(3,4) wx need by (auto simp: ax_def auxv_eq)
  define st where "st = push_num (length argp) (push_nums argp (push_num 0 (push_nums envp (push_num 0 (push_nums ?av (push_num 0 (m5, ?s5)))))))"
  have room: "8 * (length ?av + length envp + length argp + 4) \<le> ?s5" using need lav by simp
  have r6: "?s5 < 2 ^ 32" using need by simp
  have n34: "length ?av + length envp + length argp + 4 = length args + 34" unfolding lav by simp
  have v: "snd st = ?s5 - 8 * (length args + 34)" "pushed (m5, ?s5) st"
      "words (fst st) (snd st) (length args + 34) = [length args] @ rev argp @ [0] @ rev envp @ [0] @ rev ?av @ [0]"
    using push_vectors [OF room r6 bound, of m5, unfolded Let_def, folded st_def, unfolded n34] unfolding lav(3) by blast+
  have b: "build_stack libc_path args path im (m, ?T) = st"
    unfolding build_stack_def 1(1) 2(1) 3(1) 4(1) 5(1) prod.case Let_def st_def ax_def by simp
  have p45: "pushed (m4, ?s4) st" by (rule pushed_trans [OF 5(2) v(2)])
  have p25: "pushed (m2, ?s2) st" by (rule pushed_trans [OF 3(2) pushed_trans [OF 4(2) p45]])
  have p15: "pushed (m1, ?s1) st" by (rule pushed_trans [OF 2(2) p25])
  have rav: "rev ?av = concat (map (\<lambda>(k, v). [k, v]) (rev ax))" by (simp add: ax_def auxv_eq)
  have "cstr_at (fst st) ?s4 ''riscv''" "cstr_at (fst st) ?s5 path"
    using 4(3) 5(3) p45 v(2) cstr_at_cong [of ?s4 "fst st" m4] cstr_at_cong [of ?s5 "fst st" m5] by (simp_all add: pushed_def)
  moreover have "list_all2 (cstr_at (fst st)) (rev argp) args" "list_all2 (cstr_at (fst st)) (rev envp) (default_env libc_path)"
    using cstr_keep [OF p25 2(3,5)] cstr_keep [OF p15 1(3,5)] by (simp_all add: list_all2_rev1)
  moreover have "snd st = ?T - stack_need libc_path args path"
    unfolding v(1) by (simp add: stack_need_def rev_map [symmetric] sum_list_rev)
  moreover have "words (fst st) (snd st) (length args + 34) = [length args] @ rev argp @ [0] @ rev envp @ [0] @
      concat (map (\<lambda>(k, v). [k, v]) (rev (auxv im ?s4 ?s5 ?s3))) @ [0]"
    using v(3) [unfolded rav] unfolding ax_def .
  moreover obtain m' sp' where st: "st = (m', sp')" by (cases st)
  ultimately have f: "sp' = ?T - stack_need libc_path args path" "words m' sp' (length args + 34) =
        [length args] @ rev argp @ [0] @ rev envp @ [0] @ concat (map (\<lambda>(k, v). [k, v]) (rev (auxv im ?s4 ?s5 ?s3))) @ [0]"
      "list_all2 (cstr_at m') (rev argp) args" "list_all2 (cstr_at m') (rev envp) (default_env libc_path)"
      "cstr_at m' ?s4 ''riscv''" "cstr_at m' ?s5 path"
    unfolding st fst_conv snd_conv by - assumption+
  show ?thesis
    unfolding b st prod.case by (intro conjI exI, rule f, rule f, rule f, rule f, rule f, rule f)
qed

section \<open>Loading the segments\<close>

definition seg_start :: "usize \<Rightarrow> prog_header \<Rightarrow> usize" where
  "seg_start base ph = wadd base (ph_vaddr ph)"

definition seg_range :: "usize \<Rightarrow> prog_header \<Rightarrow> usize set" where
  "seg_range base ph = {seg_start base ph ..< seg_start base ph + ph_filesz ph}"

lemma wadd_no_wrap: "a < 2 ^ 64 \<Longrightarrow> b < 2 ^ 64 \<Longrightarrow> a \<le> wadd a b \<Longrightarrow> wadd a b = a + b"
  by (cases "a + b < 2 ^ 64") (simp_all add: wadd_def le_mod_geq)

lemma load_segment_mem:
  assumes "load_segment self buffer base ph (m, s) = Some (m', s')" "ph_off ph < 2 ^ 64" "ph_filesz ph < 2 ^ 64"
  shows "\<forall>i<ph_filesz ph. m' (seg_start base ph + i) = buffer ! (ph_off ph + i)"
    and "\<forall>a. a \<notin> seg_range base ph \<longrightarrow> m' a = m a"
proof -
  let ?e = "wadd (ph_off ph) (ph_filesz ph)"
  let ?bs = "take (ph_filesz ph) (drop (ph_off ph) buffer)"
  have e: "?e \<le> length buffer" "ph_off ph \<le> ?e" and m': "m' = write_bytes (seg_start base ph) ?bs m"
    using assms by (auto simp: load_segment_def Let_def seg_start_def bind_eq_Some_conv split: if_splits)
  have l: "ph_off ph + ph_filesz ph \<le> length buffer" using e wadd_no_wrap [OF assms(2,3)] by simp
  then have "length ?bs = ph_filesz ph" by simp
  then show "\<forall>a. a \<notin> seg_range base ph \<longrightarrow> m' a = m a"
    "\<forall>i<ph_filesz ph. m' (seg_start base ph + i) = buffer ! (ph_off ph + i)"
    using l by (auto simp: m' write_bytes_def seg_range_def)
qed


lemma frame_alloc_much_run:
  assumes "phys_ok ph" "frame_alloc_much ph n = Some (ph1, Some ps)" "n > 0"
  obtains p where "ps = frame_run p n" "set ps \<subseteq> fa_free (ph_frames ph)" "ph_mem ph1 = ph_mem ph"
proof -
  have ok: "fa_ok (ph_frames ph)" using assms(1) by (simp add: phys_ok_def)
  have r: "\<exists>r\<in>set (ph_frames ph). \<exists>p. set (frame_run p n) \<subseteq> region_free r"
    by (rule ccontr) (use fa_alloc_much_None [OF ok assms(3)] assms(2) in \<open>auto simp: frame_alloc_much_def\<close>)
  from fa_alloc_much_run [OF ok assms(3) r] show thesis using assms(2) that by (auto simp: frame_alloc_much_def)
qed

lemma run_byte_free:
  assumes "phys_ok ph" "set (frame_run p n) \<subseteq> fa_free (ph_frames ph)" "k < n * PAGE_SIZE"
  shows "ph_mem ph (p + k) = 0"
proof -
  have "k div PAGE_SIZE < n" using assms(3) by (simp add: less_mult_imp_div_less)
  then have "p + k div PAGE_SIZE * PAGE_SIZE \<in> fa_free (ph_frames ph)" using assms(2) by (auto simp: frame_run_def)
  then have "\<forall>i<PAGE_SIZE. ph_mem ph (p + k div PAGE_SIZE * PAGE_SIZE + i) = 0"
    using assms(1) unfolding phys_ok_def by blast
  moreover have "k mod PAGE_SIZE < PAGE_SIZE" by simp
  ultimately have "ph_mem ph (p + k div PAGE_SIZE * PAGE_SIZE + k mod PAGE_SIZE) = 0" by blast
  then show ?thesis unfolding add.assoc div_mult_mod_eq .
qed

text \<open>The byte of a segment behind the trackers of a cached area.\<close>

lemma cache_segment_byte:
  assumes "cache_segment buffer base h ph = Some (ph', a)" "phys_ok ph"
    and "ph_off h < 2 ^ 64" "ph_filesz h \<le> ph_memsz h" "base + ph_vaddr h + ph_memsz h + PAGE_SIZE < 2 ^ 64" "i < ph_memsz h"
  shows "\<exists>t\<in>set (ma_tracks a). mt_vaddr t = page_floor (seg_start base h + i) \<and>
    ph_mem ph' (mt_frame t + (seg_start base h + i) mod PAGE_SIZE) = (if i < ph_filesz h then buffer ! (ph_off h + i) else 0)"
proof -
  define v where "v = base + ph_vaddr h"
  have v: "wadd base (ph_vaddr h) = v" "wadd v (ph_memsz h) = v + ph_memsz h" "v + ph_memsz h + PAGE_SIZE < 2 ^ 64"
    using assms(5) by (simp_all add: v_def wadd_def)
  define n where "n = div_ceil (v + ph_memsz h) PAGE_SIZE - v div PAGE_SIZE"
  have c: "v div PAGE_SIZE \<le> (v + i) div PAGE_SIZE" "(v + i) div PAGE_SIZE < div_ceil (v + ph_memsz h) PAGE_SIZE"
      "div_ceil (v + ph_memsz h) PAGE_SIZE * PAGE_SIZE < 2 ^ 64"
    using assms(6) v(3) by (auto simp: div_ceil_def div_le_mono)
  have n: "wsub (div_ceil (v + ph_memsz h) PAGE_SIZE) (v div PAGE_SIZE) = n" "n > 0"
    using c by (simp_all add: n_def wsub_exact)
  have e: "wadd (ph_off h) (ph_filesz h) \<le> length buffer" "ph_off h \<le> wadd (ph_off h) (ph_filesz h)"
    and "\<exists>ph1 ps p. frame_alloc_much ph n = Some (ph1, Some ps) \<and> vec_get ps 0 = Some p \<and>
      ph' = store_page ph1 (p + v mod PAGE_SIZE) (take (ph_filesz h) (drop (ph_off h) buffer)) \<and>
      ma_tracks a = map (\<lambda>(i, x). \<lparr>mt_vaddr = wmul (wadd (v div PAGE_SIZE) i) PAGE_SIZE, mt_frame = x\<rparr>) (enumerate 0 ps)"
    using assms(1) unfolding cache_segment_def Let_def v n(1)
    by (auto simp: bind_eq_Some_conv split: if_splits)
  then obtain ph1 ps p0 where al: "frame_alloc_much ph n = Some (ph1, Some ps)" "vec_get ps 0 = Some p0"
      "ph' = store_page ph1 (p0 + v mod PAGE_SIZE) (take (ph_filesz h) (drop (ph_off h) buffer))"
      "ma_tracks a = map (\<lambda>(i, x). \<lparr>mt_vaddr = wmul (wadd (v div PAGE_SIZE) i) PAGE_SIZE, mt_frame = x\<rparr>) (enumerate 0 ps)"
    by blast
  from frame_alloc_much_run [OF assms(2) al(1) n(2)] obtain p where
    r: "ps = frame_run p n" "set ps \<subseteq> fa_free (ph_frames ph)" "ph_mem ph1 = ph_mem ph" by metis
  have p0: "p0 = p" using al(2) n(2) by (simp add: r(1) frame_run_def vec_get_def split: if_splits)
  let ?k = "v mod PAGE_SIZE + i" and ?j = "(v + i) div PAGE_SIZE - v div PAGE_SIZE"
  have k: "?k = ?j * PAGE_SIZE + (v + i) mod PAGE_SIZE"
  proof -
    have "v = v div PAGE_SIZE * PAGE_SIZE + v mod PAGE_SIZE" "v + i = (v + i) div PAGE_SIZE * PAGE_SIZE + (v + i) mod PAGE_SIZE"
      by (simp_all only: div_mult_mod_eq)
    then show ?thesis using c(1) unfolding diff_mult_distrib by linarith
  qed
  have j: "?j < n" using c(1,2) by (simp add: n_def)
  let ?t = "\<lparr>mt_vaddr = page_floor (v + i), mt_frame = p + ?j * PAGE_SIZE\<rparr>"
  have "wmul (wadd (v div PAGE_SIZE) ?j) PAGE_SIZE = page_floor (v + i)"
    using c v(3) assms(6) by (simp add: wadd_exact wmul_exact page_floor_def)
  then have "ma_tracks a ! ?j = ?t" "?j < length (ma_tracks a)"
    using j by (simp_all add: al(4) r(1) frame_run_def nth_enumerate_eq)
  then have t: "?t \<in> set (ma_tracks a)" by (metis nth_mem)
  have "?k < (?j + 1) * PAGE_SIZE" unfolding k add_mult_distrib mult_1 by (rule add_strict_left_mono) simp
  also have "\<dots> \<le> n * PAGE_SIZE" using j by (intro mult_le_mono1) simp
  finally have "?k < n * PAGE_SIZE" .
  then have z: "ph_mem ph1 (p + ?k) = 0" using run_byte_free [OF assms(2), of p n] r by simp
  have l: "ph_off h + ph_filesz h \<le> length buffer"
    using e wadd_no_wrap [OF assms(3)] assms(4,5) by simp
  have "ph_mem ph' (p + ?k) = (if i < ph_filesz h then buffer ! (ph_off h + i) else 0)"
    using l z by (auto simp: al(3) p0 store_page_def)
  then have "ph_mem ph' (mt_frame ?t + (v + i) mod PAGE_SIZE) = (if i < ph_filesz h then buffer ! (ph_off h + i) else 0)"
    unfolding k by (simp add: add.assoc)
  moreover have "mt_vaddr ?t = page_floor (v + i)" by simp
  ultimately show ?thesis unfolding seg_start_def v(1) using t by blast
qed

text \<open>C18: a program run from the cache is the program loaded from the file.  Every byte of a segment,
  the zeros behind its file part included, is the same through the cached frames as in the memory of a
  process that loaded the segment.\<close>

theorem cached_equals_loaded:
  assumes "cache_segment buffer base h ph = Some (ph', a)" "load_segment self buffer base h ((\<lambda>_. 0), s) = Some (m', s')" "phys_ok ph"
    and "ph_off h < 2 ^ 64" "ph_filesz h \<le> ph_memsz h" "base + ph_vaddr h + ph_memsz h + PAGE_SIZE < 2 ^ 64" "i < ph_memsz h"
  shows "\<exists>t\<in>set (ma_tracks a). mt_vaddr t = page_floor (seg_start base h + i) \<and>
    ph_mem ph' (mt_frame t + (seg_start base h + i) mod PAGE_SIZE) = m' (seg_start base h + i)"
proof -
  have "ph_filesz h < 2 ^ 64" using assms(5,6) by simp
  note m = load_segment_mem [OF assms(2,4) this]
  have "m' (seg_start base h + i) = (if i < ph_filesz h then buffer ! (ph_off h + i) else 0)"
    using m by (auto simp: seg_range_def)
  then show ?thesis using cache_segment_byte [OF assms(1,3-7)] by simp
qed

section \<open>A program that is not there\<close>

lemma clear_space_areas:
  assumes "clear_space ops sc self s = Some s1" "proc_ok s" "self \<in> dom (ps_tasks s)"
  shows "vm_areas (pc_vm (pcb_of s1 self)) = []" "vm_pt (pc_vm (pcb_of s1 self)) = Map.empty"
proof -
  obtain w vm where "memset_clear ops sc (ps_world s) (pc_vm (pcb_of s self)) = Some (w, vm)"
      "s1 = set_vm self w (vm\<lparr>vm_pt := Map.empty\<rparr>) s"
    using assms(1) by (auto simp: clear_space_def bind_eq_Some_conv)
  then show "vm_areas (pc_vm (pcb_of s1 self)) = []" "vm_pt (pc_vm (pcb_of s1 self)) = Map.empty"
    using set_vm_simps [OF assms(2,3)] by (auto simp: memset_clear_def bind_eq_Some_conv)
qed

text \<open>C20: \<open>execve\<close> clears the caller before it opens the file.  When the file cannot be opened the call
  returns the error, but to an address space in which no area and no page is left: the program that
  would look at the error is gone.\<close>

theorem failed_exec_destroys_caller:
  assumes "proc_ok s" "self \<in> dom (ps_tasks s)" "file_name \<noteq> ''/bin/true''"
    and "path = path_join (of_path (ps_files s ! pc_curr_dir (pcb_of s self))) file_name"
    and "find (\<lambda>c. ca_name c = path) (ee_caches env) = None"
    and "clear_space ops sc self s = Some s1" "open_path ops mt (ps_world s1) path O_RDONLY = (w, Err e)"
  shows "\<exists>m' s'. sys_execve ops mt sc alive elf_new elf_of env self file_name args envp (m, s) = Some ((m', s'), Err e) \<and>
    vm_areas (pc_vm (pcb_of s' self)) = [] \<and> vm_pt (pc_vm (pcb_of s' self)) = Map.empty"
proof -
  have r: "read_program ops mt path s1 = Some (s1\<lparr>ps_world := w\<rparr>, Err e)" using assms(7) by (simp add: read_program_def)
  have "exec_with_process ops mt sc elf_new elf_of env self (of_path (ps_files s ! pc_curr_dir (pcb_of s self))) file_name args (m, s) =
      Some (((\<lambda>_. 0), s1\<lparr>ps_world := w\<rparr>), Err e)"
    by (subst exec_with_process.simps) (simp add: Let_def assms(4) [symmetric] assms(5,6) r)
  then show ?thesis
    using assms(3) clear_space_areas [OF assms(6,1,2)] by (simp add: sys_execve_def pcb_of_def task_of_def)
qed

section \<open>Witnesses\<close>

theorem stack_layout_witness:
  "case build_stack ''/lib'' [''ls'', ''-l''] ''/bin/ls''
      \<lparr>im_base = 0, im_entry = 0x1000, im_ph_count = 2, im_ph_entry_size = 56, im_ph_addr = 64, im_heap_bottom = 0x3000\<rparr>
      ((\<lambda>_. 0), USER_STACK_TOP) of (m', sp) \<Rightarrow>
    sp = USER_STACK_TOP - stack_need ''/lib'' [''ls'', ''-l''] ''/bin/ls'' \<and>
    (\<exists>argp envp platform execfn random.
       words m' sp 36 = [2] @ argp @ [0] @ envp @ [0] @ concat (map (\<lambda>(k, v). [k, v])
         (rev (auxv \<lparr>im_base = 0, im_entry = 0x1000, im_ph_count = 2, im_ph_entry_size = 56, im_ph_addr = 64, im_heap_bottom = 0x3000\<rparr>
           platform execfn random))) @ [0] \<and>
       list_all2 (cstr_at m') argp [''ls'', ''-l''] \<and> list_all2 (cstr_at m') envp (default_env ''/lib'') \<and>
       cstr_at m' platform ''riscv'' \<and> cstr_at m' execfn ''/bin/ls'')"
proof -
  let ?im = "\<lparr>im_base = 0, im_entry = 0x1000, im_ph_count = 2, im_ph_entry_size = 56, im_ph_addr = 64, im_heap_bottom = 0x3000\<rparr> :: image"
  have n: "stack_need ''/lib'' [''ls'', ''-l''] ''/bin/ls'' \<le> USER_STACK_TOP"
    by (simp add: stack_need_def default_env_def str_room_def)
  have l: "length [''ls'', ''-l''] = 2" "length [''ls'', ''-l''] + 34 = 36" by simp_all
  show ?thesis
    using stack_layout [where m = "\<lambda>_. 0" and im = ?im, OF _ n] unfolding l by simp
qed

text \<open>Not part of the kernel: a segment of four bytes.\<close>

definition demo_seg :: prog_header where
  "demo_seg = \<lparr>ph_ty = PtLoad, ph_off = 2, ph_vaddr = 0x1010, ph_filesz = 4, ph_memsz = 8, ph_data = None\<rparr>"

lemma demo_alloc_one:
  obtains fa' p where "fa_alloc_much demo_frames 1 = Some (fa', Some [p])" "p mod PAGE_SIZE = 0"
proof -
  have "set (frame_run 0x80000000 1) \<subseteq> region_free (hd demo_frames)"
    using demo_frames_free by (simp add: demo_frames_def frame_run_def)
  then obtain fa' p where fa: "fa_alloc_much demo_frames 1 = Some (fa', Some (frame_run p 1))" "set (frame_run p 1) \<subseteq> fa_free demo_frames"
    using fa_alloc_much_run [OF demo_frames_ok, of 1] by (auto simp: demo_frames_def)
  then have "p mod PAGE_SIZE = 0" by (auto simp: frame_run_def demo_frames_free)
  with fa(1) show thesis by (intro that) (simp_all add: frame_run_def)
qed

lemma demo_seg_pages:
  "wsub (div_ceil (wadd (wadd 0 (ph_vaddr demo_seg)) (ph_memsz demo_seg)) PAGE_SIZE) (wadd 0 (ph_vaddr demo_seg) div PAGE_SIZE) = 1"
  "page_floor (wadd 0 (ph_vaddr demo_seg)) = 0x1000"
  by (simp_all add: demo_seg_def wadd_def wsub_def div_ceil_def page_floor_def)

lemma demo_seg_loads:
  "\<exists>m' s'. load_segment 1 [0, 1, 2, 3, 4, 5, 6, 7] 0 demo_seg ((\<lambda>_. 0), demo_sys) = Some (m', s')"
proof -
  obtain fa' p where fa: "fa_alloc_much demo_frames 1 = Some (fa', Some [p])" "p mod PAGE_SIZE = 0" by (rule demo_alloc_one)
  have "\<exists>s' q. fault_alloc 1 0x1000 Mmap 1 demo_sys = Some (s', Some q)"
    using fa by (simp add: fault_alloc_def user_frame_alloc_def map_frames_def frame_alloc_much_def demo_sys_eq
        tracks_at_def user_map_def vec_get_def wadd_def wmul_def)
  then show ?thesis by (auto simp: load_segment_def Let_def demo_seg_pages) (simp_all add: demo_seg_def wadd_def)
qed


theorem cached_equals_loaded_witness:
  "\<exists>ph' a m' s'. cache_segment [0, 1, 2, 3, 4, 5, 6, 7] 0 demo_seg demo_phys = Some (ph', a :: inode mem_area) \<and>
     load_segment 1 [0, 1, 2, 3, 4, 5, 6, 7] 0 demo_seg ((\<lambda>_. 0), demo_sys) = Some (m', s') \<and>
     (\<exists>t\<in>set (ma_tracks a). mt_vaddr t = 0x1000 \<and> ph_mem ph' (mt_frame t + 0x12) = m' 0x1012)"
proof -
  obtain fa' p where fa: "fa_alloc_much demo_frames 1 = Some (fa', Some [p])" by (rule demo_alloc_one)
  then obtain ph' and a :: "inode mem_area" where c: "cache_segment [0, 1, 2, 3, 4, 5, 6, 7] 0 demo_seg demo_phys = Some (ph', a)"
    by (auto simp: cache_segment_def Let_def demo_seg_pages frame_alloc_much_def vec_get_def) (simp_all add: demo_seg_def wadd_def)
  obtain m' s' where l: "load_segment 1 [0, 1, 2, 3, 4, 5, 6, 7] 0 demo_seg ((\<lambda>_. 0), demo_sys) = Some (m', s')"
    using demo_seg_loads by blast
  have "\<exists>t\<in>set (ma_tracks a). mt_vaddr t = 0x1000 \<and> ph_mem ph' (mt_frame t + 0x12) = m' 0x1012"
    using cached_equals_loaded [OF c l demo_phys_ok, of 2] by (simp add: demo_seg_def seg_start_def wadd_def page_floor_def)
  with c l show ?thesis by blast
qed

theorem failed_exec_destroys_caller_witness:
  "\<exists>m' s'. sys_execve ram_ops [([], IDir 0)] (\<lambda>_. 1) (\<lambda>t. t = 1) (\<lambda>_. True)
      (\<lambda>_. \<lparr>ef_magic = [], ef_entry = 0, ef_ph_count = 0, ef_ph_entry_size = 0, ef_ph_offset = 0, ef_phs = [], ef_rela = None, ef_dynsym = None\<rparr>)
      \<lparr>ee_caches = [], ee_libc_path = ''/lib'', ee_dyn_path = ''/lib''\<rparr>
      1 ''nothere'' [] [] ((\<lambda>_. 0), demo_sys) = Some ((m', s'), Err ENOENT) \<and>
    vm_areas (pc_vm (pcb_of s' 1)) = [] \<and> vm_pt (pc_vm (pcb_of s' 1)) = Map.empty"
proof -
  have ok: "proc_ok demo_sys" "1 \<in> dom (ps_tasks demo_sys)" "vm_areas (pc_vm (pcb_of demo_sys 1)) = []"
    by (simp_all add: demo_sys_eq proc_ok_def task_of_def pcb_of_def pcb_new_def)
  have "memset_clear ram_ops (\<lambda>_. 1) (ps_world demo_sys) (pc_vm (pcb_of demo_sys 1)) =
      Some (ps_world demo_sys, (pc_vm (pcb_of demo_sys 1))\<lparr>vm_areas := []\<rparr>)"
    by (cases "ps_world demo_sys") (simp add: memset_clear_def ok(3) [simplified] drop_frames_def)
  then obtain s1 where c: "clear_space ram_ops (\<lambda>_. 1) 1 demo_sys = Some s1" "ps_world s1 = ps_world demo_sys"
    by (simp add: clear_space_def set_vm_simps [OF ok(1,2), simplified])
  have "of_path (ps_files demo_sys ! pc_curr_dir (pcb_of demo_sys 1)) = []"
    by (simp add: demo_sys_eq task_of_def pcb_of_def pcb_new_def demo_open_def)
  moreover have "open_path ram_ops [([], IDir 0)] (ps_world s1) (path_join [] ''nothere'') O_RDONLY = ((demo_phys, tty_fs), Err ENOENT)"
    unfolding c(2) by (simp add: demo_sys_eq path_join_def join_step_def open_path_def file_open_def ram_ops_def
        get_mounted_def path_starts_with_def path_trim_start_def path_levels_def path_dir_def path_filename_def
        flags_contain_def rd_lookup_def tty_fs_def)
  ultimately show ?thesis
    using failed_exec_destroys_caller [OF ok(1,2) _ refl _ c(1), of "''nothere''"] by simp
qed

end
