(* ===== verification/Commands.thy ===== *)
theory Commands
  imports Exec
begin

text \<open>
  How the init task runs a program, \<open>command\<close> in \<open>kernel/src/tasks/initproc.rs\<close>: a line is split into arguments, the
  program is looked up, a process is made for it, loaded and started, and its end is awaited.

  \<^item> The line is a string of characters; quotes of both kinds and the backslash are treated as the code treats them.
  \<^item> What the code prints is told apart by the outcome.  The scheduling of the new task is the executor's.
\<close>

section \<open>Splitting a line\<close>

record parse_state =
  pr_args :: "string list"
  pr_current_arg :: string
  pr_in_quotes :: bool
  pr_escape_next :: bool

definition parse_start :: parse_state where
  "parse_start = \<lparr>pr_args = [], pr_current_arg = [], pr_in_quotes = False, pr_escape_next = False\<rparr>"

definition parse_char :: "parse_state \<Rightarrow> char \<Rightarrow> parse_state" where
  "parse_char p ch =
     (if pr_escape_next p then p\<lparr>pr_current_arg := pr_current_arg p @ [ch], pr_escape_next := False\<rparr>
      else if ch = CHR 0x5C then p\<lparr>pr_escape_next := True\<rparr>
      else if ch = CHR 0x27 \<or> ch = CHR 0x22 then p\<lparr>pr_in_quotes := \<not> pr_in_quotes p\<rparr>
      else if ch = CHR '' '' \<and> \<not> pr_in_quotes p
      then (if pr_current_arg p \<noteq> [] then p\<lparr>pr_args := pr_args p @ [pr_current_arg p], pr_current_arg := []\<rparr> else p)
      else p\<lparr>pr_current_arg := pr_current_arg p @ [ch]\<rparr>)"

definition parse_args :: "string \<Rightarrow> string list" where
  "parse_args cmd =
     (let p = foldl parse_char parse_start cmd
      in if pr_current_arg p \<noteq> [] then pr_args p @ [pr_current_arg p] else pr_args p)"

section \<open>Running the program\<close>

datatype command_outcome = EmptyCommand | UnknownCommand | ExecFailed errno | Started usize

definition command_start ::
  "(phys \<times> 's, 'n) inode_ops \<Rightarrow> 'n mounts \<Rightarrow> (usize \<Rightarrow> nat) \<Rightarrow> (u8 list \<Rightarrow> bool) \<Rightarrow> (u8 list \<Rightarrow> elf_file) \<Rightarrow> 'n exec_env
   \<Rightarrow> string \<Rightarrow> path_buf \<Rightarrow> vmem \<times> ('s, 'n) proc_sys \<Rightarrow> ((vmem \<times> ('s, 'n) proc_sys) \<times> command_outcome) run" where
  "command_start ops mt sc elf_new elf_of env cmd work_dir u =
     (case (parse_args cmd, u) of
        ([], _) \<Rightarrow> Some (u, EmptyCommand)
      | (file # args, (m, s)) \<Rightarrow>
          (case open_path ops mt (ps_world s) (path_from file) O_RDONLY of
             (w, Panic) \<Rightarrow> None
           | (w, Err _) \<Rightarrow> Some ((m, s\<lparr>ps_world := w\<rparr>), UnknownCommand)
           | (w, Ok _) \<Rightarrow>
               do { (s, task_id) \<leftarrow> user_task_new ops mt None work_dir (s\<lparr>ps_world := w\<rparr>);
                    (u, r) \<leftarrow> exec_with_process ops mt sc elf_new elf_of env task_id work_dir file (file # args) (m, s);
                    (case r of
                       Ok _ \<Rightarrow>
                         (let s = (snd u)\<lparr>ps_task_map := insert task_id (ps_task_map (snd u)), ps_queue := ps_queue (snd u) @ [task_id]\<rparr>
                          in Some ((fst u, s), Started task_id))
                     | Err e \<Rightarrow> Some (u, ExecFailed e)
                     | Panic \<Rightarrow> None) }))"

text \<open>One round of the loop that waits for the program.\<close>

definition command_wait :: "('s, 'n) proc_sys \<Rightarrow> usize \<Rightarrow> ('s, 'n) proc_sys \<times> unit poll" where
  "command_wait s task_id =
     (if exit_code_of s task_id \<noteq> None then (s\<lparr>ps_task_map := ps_task_map s - {task_id}\<rparr>, Ready ()) else (s, Pending))"

section \<open>Lines without quotes\<close>

text \<open>The earlier version of \<open>command\<close>, kept in the source as a comment, splits at every space and drops the empty parts.\<close>

fun split_space :: "string \<Rightarrow> string list" where
  "split_space [] = [[]]"
| "split_space (c # cs) =
     (if c = CHR '' '' then [] # split_space cs
      else case split_space cs of x # xs \<Rightarrow> (c # x) # xs | [] \<Rightarrow> [[c]])"

definition plain :: "char \<Rightarrow> bool" where
  "plain c \<longleftrightarrow> c \<noteq> CHR 0x5C \<and> c \<noteq> CHR 0x27 \<and> c \<noteq> CHR 0x22"

definition parse_end :: "parse_state \<Rightarrow> string list" where
  "parse_end p = pr_args p @ (if pr_current_arg p \<noteq> [] then [pr_current_arg p] else [])"

lemma parse_args_end: "parse_args cmd = parse_end (foldl parse_char parse_start cmd)"
  by (simp add: parse_args_def parse_end_def Let_def)

lemma split_space_neq_Nil [simp]: "split_space s \<noteq> []"
  by (induction s) (auto split: list.splits)

lemma parse_plain:
  "list_all plain cmd \<Longrightarrow> \<not> pr_in_quotes p \<Longrightarrow> \<not> pr_escape_next p \<Longrightarrow>
   parse_end (foldl parse_char p cmd) =
     pr_args p @ filter (\<lambda>x. x \<noteq> []) ((pr_current_arg p @ hd (split_space cmd)) # tl (split_space cmd))"
proof (induction cmd arbitrary: p)
  case (Cons c cs)
  obtain x xs where x: "split_space cs = x # xs" by (cases "split_space cs") auto
  have pl: "plain c" "list_all plain cs" using Cons.prems(1) by simp_all
  show ?case
  proof (cases "c = CHR '' ''")
    case True
    then show ?thesis using Cons.IH [OF pl(2), of "parse_char p c"] Cons.prems(2,3) x by (auto simp: parse_char_def)
  next
    case False
    then show ?thesis using Cons.IH [OF pl(2), of "parse_char p c"] Cons.prems(2,3) pl(1) x by (auto simp: parse_char_def plain_def)
  qed
qed (simp add: parse_end_def)

section \<open>Writing a line\<close>

text \<open>A line for given arguments: a backslash before every character that means something.\<close>

definition quote_char :: "char \<Rightarrow> string" where
  "quote_char c = (if plain c \<and> c \<noteq> CHR '' '' then [c] else [CHR 0x5C, c])"

fun command_line :: "string list \<Rightarrow> string" where
  "command_line [] = []"
| "command_line (a # as) = concat (map quote_char a) @ (if as = [] then [] else CHR '' '' # command_line as)"

lemma parse_quoted:
  "\<not> pr_in_quotes p \<Longrightarrow> \<not> pr_escape_next p \<Longrightarrow>
   foldl parse_char p (concat (map quote_char a)) = p\<lparr>pr_current_arg := pr_current_arg p @ a\<rparr>"
proof (induction a arbitrary: p)
  case (Cons c a)
  have "foldl parse_char p (quote_char c) = p\<lparr>pr_current_arg := pr_current_arg p @ [c]\<rparr>"
    using Cons.prems by (auto simp: quote_char_def plain_def parse_char_def)
  then show ?case using Cons.IH [of "p\<lparr>pr_current_arg := pr_current_arg p @ [c]\<rparr>"] Cons.prems by simp
qed simp

lemma parse_command_line:
  "[] \<notin> set as \<Longrightarrow> \<not> pr_in_quotes p \<Longrightarrow> \<not> pr_escape_next p \<Longrightarrow> pr_current_arg p = [] \<Longrightarrow>
   parse_end (foldl parse_char p (command_line as)) = pr_args p @ as"
proof (induction as arbitrary: p)
  case (Cons a as)
  let ?p = "p\<lparr>pr_current_arg := a\<rparr>"
  have q: "foldl parse_char p (concat (map quote_char a)) = ?p" using parse_quoted [of p a] Cons.prems by simp
  show ?case
  proof (cases "as = []")
    case True
    then show ?thesis using q Cons.prems by (simp add: parse_end_def)
  next
    case False
    have "parse_char ?p CHR '' '' = p\<lparr>pr_args := pr_args p @ [a], pr_current_arg := []\<rparr>"
      using Cons.prems by (auto simp: parse_char_def)
    then show ?thesis using q False Cons.IH [of "p\<lparr>pr_args := pr_args p @ [a], pr_current_arg := []\<rparr>"] Cons.prems by simp
  qed
qed (simp add: parse_end_def)

section \<open>Properties\<close>

text \<open>C39: every list of non-empty arguments can be given to \<open>command\<close>, whatever characters they contain: with a backslash before
  spaces, quotes and backslashes the line is split into exactly those arguments.\<close>

theorem command_line_roundtrip:
  assumes "[] \<notin> set as"
  shows "parse_args (command_line as) = as"
  using parse_command_line [OF assms, of parse_start] by (simp add: parse_args_end parse_start_def)

theorem command_line_roundtrip_witness:
  "parse_args (command_line [''/bin/sh'', ''-c'', ''echo '' @ [CHR 0x27, CHR 0x5C] @ ''x'']) =
     [''/bin/sh'', ''-c'', ''echo '' @ [CHR 0x27, CHR 0x5C] @ ''x'']"
  by (rule command_line_roundtrip) simp

text \<open>C40: on a line without quotes and backslashes the new splitting is the one it replaced: the parts between spaces, without
  the empty ones.\<close>

theorem parse_args_plain:
  assumes "list_all plain cmd"
  shows "parse_args cmd = filter (\<lambda>x. x \<noteq> []) (split_space cmd)"
  using parse_plain [OF assms, of parse_start] by (cases "split_space cmd") (simp_all add: parse_args_end parse_start_def)

theorem parse_args_plain_witness: "parse_args ''ls  -l a'' = [''ls'', ''-l'', ''a'']"
  using parse_args_plain [of "''ls  -l a''"] by (simp add: plain_def)

end
