(* ===== verification/Spec2Isabelle.thy ===== *)
theory Spec2Isabelle
  imports Heap Polling Sockets Commands
begin

text \<open>
  MonkeyOS, a monolithic kernel in Rust that runs Linux programs on riscv64 and loongarch64: verification
  development.

  \<^bold>\<open>The program.\<close>  A frame allocator and a heap (\<open>crates/runtime\<close>) serve everything else.  User tasks are futures
  that a cooperative executor (\<open>crates/executor\<close>) polls in turn; a task runs user code until it traps, and the
  kernel then handles the page fault (\<open>kernel/src/user\<close>) or the system call (\<open>kernel/src/syscall\<close>).  A process
  (\<open>kernel/src/tasks\<close>) has an address space of memory areas, a table of descriptors and its signals; a descriptor
  refers to an open file (\<open>filesystem/fs\<close>), which refers to an inode of a mounted file system or to a pipe, a socket
  or a device.

  \<^bold>\<open>Conventions\<close> (\<open>Prelude\<close>).  The kernel is built in release mode: \<open>usize\<close> is a natural number below \<open>2 ^ 64\<close> and
  its operations \<open>wadd\<close>, \<open>wsub\<close>, \<open>wmul\<close> wrap; flags are machine words.  A panic is the value \<open>None\<close> of \<open>run\<close> or
  \<open>Panic\<close> of \<open>res\<close>, and an error is \<open>Err\<close>, so that every \<open>unwrap\<close>, index and early return is a branch.  State is
  passed explicitly.  An \<open>Arc\<close> is an index into a heap of objects.  Locks are erased: what a task does between two
  yields is one step, as on a single core.  A future is what happens at one poll, and a call that waits is
  split at its wait, so that interleavings are sequences of such steps.

  \<^bold>\<open>Theories\<close>, with the sources they model:

  \<^item> \<open>Frames\<close> (\<open>crates/runtime/src/frame.rs\<close>): bitmaps of regions, single and contiguous allocation, frames zeroed on
    drop.  The locale \<open>page_allocator\<close> is what clients rely on; it is interpreted on the bitmap allocator and on
    physical memory.  Contiguous requests return the first run that is free.
  \<^item> \<open>Heap\<close> (\<open>heap.rs\<close>): routing of requests to the buddy allocator, a parameter, or to whole frames; large blocks
    come back to the frames they were taken from.
  \<^item> \<open>Inode\<close>, \<open>RamFile\<close>, \<open>RamDir\<close> (\<open>filesystem/vfscore\<close>, \<open>filesystem/ramfs\<close>): the contract \<open>positional_file\<close> of an
    inode with bytes, RAM files over frames that refine it, directories and links.
  \<^item> \<open>Paths\<close> (\<open>pathbuf.rs\<close>, \<open>dentry.rs\<close>): paths and the mount table (\<open>mount_table\<close>).
  \<^item> \<open>Pipes\<close> (\<open>pipe.rs\<close>, \<open>user/socket_pair.rs\<close>): byte channels (\<open>byte_channel\<close>) that keep the order of bytes.
  \<^item> \<open>OpenFile\<close>, \<open>FdTable\<close>, \<open>FileStat\<close>, \<open>Polling\<close> (\<open>file.rs\<close>, \<open>tasks/filetable.rs\<close>, \<open>syscall/fd.rs\<close>): cursors, the
    descriptor table (\<open>descriptor_table\<close>: the lowest free descriptor), the calls on files, names and status, and the
    readiness calls.
  \<^item> \<open>DevFs\<close> (\<open>filesystem/devfs\<close>, \<open>filesystem/procfs\<close>): terminals that lose no input, devices, process files.
  \<^item> \<open>KernelFs\<close> (\<open>filesystem/fs/src/lib.rs\<close>): all file systems under one mount table from boot on.  The relation
    \<open>fs_step\<close> is a call on an inode; in every reachable state no two RAM files share a frame, and so a write to one
    does not change another.  Reading a process file to its end gives its text.
  \<^item> \<open>Sockets\<close> (\<open>kernel/src/socket.rs\<close>, \<open>syscall/socket.rs\<close>): the socket inode and calls over a network stack that is a
    parameter.
  \<^item> \<open>MemSet\<close>, \<open>AddrSpace\<close>, \<open>Faults\<close> (\<open>tasks/memset.rs\<close>, \<open>syscall/mm.rs\<close>, \<open>user/mod.rs\<close>): areas and their subtraction,
    \<open>mmap\<close> and \<open>munmap\<close> (\<open>address_set\<close>: areas stay disjoint, exactly the range goes), copy on write, and what every
    fault of user code leads to.
  \<^item> \<open>Executor\<close>, \<open>Timers\<close>, \<open>Futex\<close>, \<open>Ipc\<close>: round-robin polling, clocks and interval timers, futex queues and System V
    objects, the last two with reachability relations (\<open>futex_reach\<close>, \<open>msg_reach\<close>, \<open>sem_reach\<close>, \<open>shm_reach\<close>).
  \<^item> \<open>Signals\<close>, \<open>TrapFrame\<close>, \<open>UserSignal\<close> (\<open>crates/signal\<close>, \<open>user/signal.rs\<close>, \<open>user/entry.rs\<close>): pending sets and their
    order of delivery, the saved registers on riscv64, the frame of a handler, its run and the return from it.
  \<^item> \<open>Process\<close> (\<open>tasks/task.rs\<close>, \<open>tasks/async_ops.rs\<close>, \<open>syscall/task.rs\<close>): fork, clone, exit and wait; \<open>proc_step\<close> keeps
    the tree of processes consistent.
  \<^item> \<open>Exec\<close>, \<open>Commands\<close> (\<open>tasks/exec.rs\<close>, \<open>tasks/elf.rs\<close>, \<open>tasks/initproc.rs\<close>): loading a program, its initial stack, the
    cache of programs, and how the init task parses and starts a command.

  \<^bold>\<open>What is shown.\<close>  For each component: what its operations compute on every branch, the invariant they keep, and
  the contract other components use.  Across components: a forked child that exits is reaped with its code, a signal
  sent with \<open>kill\<close> ends a process its parent waits for, a handler returns to the interrupted program with its
  registers and mask, a fault either maps the page or ends in a signal, a file opened in \<open>/proc\<close> is read completely.
  Several theorems are about defects, each stated as what the code does: a failed \<open>execve\<close> leaves a process without
  memory, a timeout swallows a futex wake, \<open>accept\<close> overwrites a descriptor opened meanwhile.

  \<^bold>\<open>Loops.\<close>  Loops over data are structural or have a termination proof.  \<open>check_signal\<close> and the listing of a directory
  have fuel, and one unit more than the pending deliveries or the entries is proved to be enough; the same holds for
  reading a process file and its bytes.  \<open>exec_with_process\<close> (scripts run an interpreter) and \<open>handler_loop\<close> (user code)
  may run forever, so they are partial functions where no result is \<open>None\<close>, and the properties that speak of their
  result prove that there is one.

  \<^bold>\<open>Parameters.\<close>  Code outside the repository's own crates is an argument: the buddy allocator, the ELF parser, the
  network stack, the file system on the disk, user code, the clock.  Page tables are the maps they implement.
  Reference counts that the code reads (\<open>Arc::strong_count\<close>) are arguments as well.

  \<^bold>\<open>Not modelled.\<close>  The shims to \<open>ext4\<close> and \<open>fat\<close> (each method forwards to a crate), the drivers and the registry of
  devices (volatile register access), boot and build code, logging, the table that dispatches system calls by number,
  the calls of \<open>syscall/sys.rs\<close> that return constants, \<open>mprotect\<close> and \<open>msync\<close> (no effect), robust lists,
  \<open>sigtimedwait\<close>, time accounting, the order in which \<open>entry_point\<close> races a blocked call with \<open>check_signal\<close>, signal
  frames on loongarch64, and the list of test programs that makes up most of \<open>initproc.rs\<close>.
\<close>

end
